(* ===== verification/Prelude.thy ===== *)
theory Prelude
  imports Complex_Main "HOL-Library.AList" "HOL-Library.Product_Lexorder"
    "HOL-Library.Char_ord" "HOL-Library.List_Lexorder"
begin

text \<open>
  What the components share: the Python primitives the anonymizer uses (slices, \<open>str\<close>
  methods, insertion-ordered dicts, stable sorting, \<open>str(int)\<close>) and generic lemmas about
  them.

  A Python \<open>str\<close> is a list of code points. The model uses HOL's \<open>string\<close>, a list of
  \<open>char\<close>, where a \<open>char\<close> is one code point below 256, so \<open>length\<close> counts code points as
  Python does; the character classes below (\<open>\s\<close>, \<open>\d\<close>, \<open>lower\<close>) are Python's,
  restricted to these code points. A Python float that the code only compares is a \<open>rat\<close>.
\<close>

section \<open>Collections of facts\<close>

named_theorems pii_defs \<open>definitions unfolded by the component proofs\<close>
named_theorems str_simps \<open>simplification of string primitives\<close>

section \<open>Characters and strings\<close>

abbreviation backslash :: char where "backslash \<equiv> CHR 0x5C"

definition is_space :: "char \<Rightarrow> bool" where
  "is_space c \<longleftrightarrow> (let n = (of_char c :: nat) in
     (9 \<le> n \<and> n \<le> 13) \<or> (28 \<le> n \<and> n \<le> 32) \<or> n = 133 \<or> n = 160)"

definition is_digit :: "char \<Rightarrow> bool" where
  "is_digit c \<longleftrightarrow> (let n = (of_char c :: nat) in 48 \<le> n \<and> n \<le> 57)"

definition is_upper :: "char \<Rightarrow> bool" where
  "is_upper c \<longleftrightarrow> (let n = (of_char c :: nat) in 65 \<le> n \<and> n \<le> 90)"

definition is_lower :: "char \<Rightarrow> bool" where
  "is_lower c \<longleftrightarrow> (let n = (of_char c :: nat) in 97 \<le> n \<and> n \<le> 122)"

text \<open>\<open>str.lower\<close> on code points below 256: A-Z and the Latin-1 capitals but the multiplication sign.\<close>

definition lower_char :: "char \<Rightarrow> char" where
  "lower_char c = (let n = (of_char c :: nat) in
     if (65 \<le> n \<and> n \<le> 90) \<or> (192 \<le> n \<and> n \<le> 222 \<and> n \<noteq> 215) then char_of (n + 32) else c)"

definition str_lower :: "string \<Rightarrow> string" where
  "str_lower s = map lower_char s"

text \<open>\<open>str.upper\<close>, used by the code on ASCII text only (a matched label).\<close>

definition upper_char :: "char \<Rightarrow> char" where
  "upper_char c = (if is_lower c then char_of ((of_char c :: nat) - 32) else c)"

definition str_upper :: "string \<Rightarrow> string" where
  "str_upper s = map upper_char s"

definition lstrip :: "string \<Rightarrow> string" where
  "lstrip s = dropWhile is_space s"

definition rstrip :: "string \<Rightarrow> string" where
  "rstrip s = rev (dropWhile is_space (rev s))"

definition strip :: "string \<Rightarrow> string" where
  "strip s = rstrip (lstrip s)"

fun startswith :: "'a list \<Rightarrow> 'a list \<Rightarrow> bool" where
  "startswith s [] = True"
| "startswith [] (p # ps) = False"
| "startswith (c # cs) (p # ps) = (c = p \<and> startswith cs ps)"

definition endswith :: "'a list \<Rightarrow> 'a list \<Rightarrow> bool" where
  "endswith s p = startswith (rev s) (rev p)"

text \<open>Substring test, Python's \<open>p in s\<close>.\<close>

fun contains :: "'a list \<Rightarrow> 'a list \<Rightarrow> bool" where
  "contains [] p = (p = [])"
| "contains (c # cs) p = (startswith (c # cs) p \<or> contains cs p)"

text \<open>
  \<open>s.rfind(p, lo, hi)\<close> for \<open>0 \<le> lo, hi \<le> len(s)\<close>: the highest index at which \<open>p\<close>
  occurs inside \<open>s[lo:hi]\<close>, \<open>None\<close> where Python answers -1.
\<close>

fun rfind_from :: "'a list \<Rightarrow> 'a list \<Rightarrow> nat \<Rightarrow> nat \<Rightarrow> nat option" where
  "rfind_from s p lo 0 = None"
| "rfind_from s p lo (Suc n) =
     (if startswith (drop (lo + n) s) p then Some (lo + n) else rfind_from s p lo n)"

definition rfind :: "'a list \<Rightarrow> 'a list \<Rightarrow> nat \<Rightarrow> nat \<Rightarrow> nat option" where
  "rfind s p lo hi = (if hi < lo + length p then None
     else rfind_from s p lo (Suc (hi - length p - lo)))"

text \<open>\<open>str.partition(sep)\<close> for a one-character separator: head, whether it was found, tail.\<close>

fun partition_at :: "char \<Rightarrow> string \<Rightarrow> string \<times> bool \<times> string" where
  "partition_at sep [] = ([], False, [])"
| "partition_at sep (c # cs) =
     (if c = sep then ([], True, cs)
      else (case partition_at sep cs of (h, found, t) \<Rightarrow> (c # h, found, t)))"

text \<open>\<open>str(n)\<close>.\<close>

definition digit_char :: "nat \<Rightarrow> char" where
  "digit_char d = char_of (48 + d)"

fun show_nat :: "nat \<Rightarrow> string" where
  "show_nat n = (if n < 10 then [digit_char n] else show_nat (n div 10) @ [digit_char (n mod 10)])"

declare show_nat.simps [simp del]

definition show_int :: "int \<Rightarrow> string" where
  "show_int i = (if i < 0 then CHR ''-'' # show_nat (nat (- i)) else show_nat (nat i))"

definition is_empty_str :: "string option \<Rightarrow> bool" where
  "is_empty_str s = (case s of None \<Rightarrow> True | Some t \<Rightarrow> t = [])"

section \<open>Slices\<close>

text \<open>Python's \<open>xs[i:j]\<close>: a negative index counts from the end, and both ends are clamped.\<close>

definition py_index :: "nat \<Rightarrow> int \<Rightarrow> nat" where
  "py_index n i = nat (if i < 0 then max 0 (int n + i) else min i (int n))"

definition py_slice :: "'a list \<Rightarrow> int \<Rightarrow> int \<Rightarrow> 'a list" where
  "py_slice xs i j =
     (let a = py_index (length xs) i; b = py_index (length xs) j in take (b - a) (drop a xs))"

section \<open>Insertion-ordered dicts\<close>

type_synonym ('k, 'v) dict = "('k \<times> 'v) list"

text \<open>\<open>{**d, **e}\<close>: every entry of \<open>e\<close> stored into \<open>d\<close>, in order.\<close>

definition dict_update :: "('k, 'v) dict \<Rightarrow> ('k, 'v) dict \<Rightarrow> ('k, 'v) dict" where
  "dict_update d e = fold (\<lambda>(k, v). AList.update k v) e d"

text \<open>A dict comprehension: the pairs stored into an empty dict, in order.\<close>

definition dict_of :: "('k \<times> 'v) list \<Rightarrow> ('k, 'v) dict" where
  "dict_of ps = dict_update [] ps"

text \<open>\<open>tuple(dict.fromkeys(xs))\<close>: first occurrences, in order.\<close>

definition dedupe :: "'a list \<Rightarrow> 'a list" where
  "dedupe xs = rev (remdups (rev xs))"

section \<open>Sorting\<close>

text \<open>\<open>sorted(xs, key=f)\<close> is stable, and so is \<open>sorted(xs, key=f, reverse=True)\<close>.\<close>

definition py_sorted :: "('a \<Rightarrow> 'k::linorder) \<Rightarrow> 'a list \<Rightarrow> 'a list" where
  "py_sorted f xs = sort_key f xs"

definition py_sorted_rev :: "('a \<Rightarrow> 'k::linorder) \<Rightarrow> 'a list \<Rightarrow> 'a list" where
  "py_sorted_rev f xs = rev (sort_key f (rev xs))"

section \<open>Values of type object\<close>

text \<open>
  What the code annotates as \<open>object\<close> and inspects with \<open>isinstance\<close>: decoded JSON, table
  records, query clauses, request dicts. \<open>PTime\<close> is a \<open>datetime\<close>, in microseconds.
\<close>

datatype pyobj =
    PNone
  | PBool bool
  | PInt int
  | PFloat rat
  | PStr string
  | PTime int
  | PList "pyobj list"
  | PDict "(string \<times> pyobj) list"

fun as_str :: "pyobj \<Rightarrow> string option" where
  "as_str (PStr s) = Some s"
| "as_str _ = None"

text \<open>\<open>isinstance(x, int)\<close> holds of a \<open>bool\<close> too, which then counts as 0 or 1.\<close>

fun as_int :: "pyobj \<Rightarrow> int option" where
  "as_int (PInt i) = Some i"
| "as_int (PBool b) = Some (if b then 1 else 0)"
| "as_int _ = None"

text \<open>\<open>isinstance(x, (int, float))\<close> and then \<open>float(x)\<close>.\<close>

fun as_float :: "pyobj \<Rightarrow> rat option" where
  "as_float (PFloat r) = Some r"
| "as_float (PInt i) = Some (of_int i)"
| "as_float (PBool b) = Some (if b then 1 else 0)"
| "as_float _ = None"

fun as_dict :: "pyobj \<Rightarrow> (string, pyobj) dict option" where
  "as_dict (PDict d) = Some d"
| "as_dict _ = None"

fun as_list :: "pyobj \<Rightarrow> pyobj list option" where
  "as_list (PList xs) = Some xs"
| "as_list _ = None"

fun as_time :: "pyobj \<Rightarrow> int option" where
  "as_time (PTime t) = Some t"
| "as_time _ = None"

text \<open>Python truth value.\<close>

fun truthy :: "pyobj \<Rightarrow> bool" where
  "truthy PNone = False"
| "truthy (PBool b) = b"
| "truthy (PInt i) = (i \<noteq> 0)"
| "truthy (PFloat r) = (r \<noteq> 0)"
| "truthy (PStr s) = (s \<noteq> [])"
| "truthy (PTime t) = True"
| "truthy (PList xs) = (xs \<noteq> [])"
| "truthy (PDict d) = (d \<noteq> [])"

text \<open>\<open>type(x).__name__\<close>.\<close>

fun type_name :: "pyobj \<Rightarrow> string" where
  "type_name PNone = ''NoneType''"
| "type_name (PBool _) = ''bool''"
| "type_name (PInt _) = ''int''"
| "type_name (PFloat _) = ''float''"
| "type_name (PStr _) = ''str''"
| "type_name (PTime _) = ''datetime''"
| "type_name (PList _) = ''list''"
| "type_name (PDict _) = ''dict''"

text \<open>\<open>d.get(k)\<close> on a dict of objects: a missing key reads as \<open>None\<close>.\<close>

definition obj_get :: "(string, pyobj) dict \<Rightarrow> string \<Rightarrow> pyobj" where
  "obj_get d k = (case map_of d k of None \<Rightarrow> PNone | Some v \<Rightarrow> v)"

section \<open>Lemmas: options\<close>

lemma option_NoneI: "(\<And>v. x \<noteq> Some v) \<Longrightarrow> x = None"
  by (cases x) auto

lemma option_eqI:
  assumes "\<And>v. x = Some v \<longleftrightarrow> y = Some v"
  shows "x = y"
proof (cases x)
  case None
  have "y = None" by (rule option_NoneI) (use assms None in auto)
  with None show ?thesis by simp
next
  case (Some v)
  then show ?thesis using assms [of v] by simp
qed

section \<open>Lemmas: strings\<close>

lemma startswith_iff: "startswith s p \<longleftrightarrow> (\<exists>r. s = p @ r)"
  by (induction s p rule: startswith.induct) auto

lemma startswith_append [simp]: "startswith (p @ r) p"
  by (simp add: startswith_iff)

lemma startswith_length: "startswith s p \<Longrightarrow> length p \<le> length s"
  by (auto simp: startswith_iff)

lemma contains_iff: "contains s p \<longleftrightarrow> (\<exists>a b. s = a @ p @ b)"
proof (induction s)
  case Nil
  then show ?case by auto
next
  case (Cons c cs)
  show ?case
  proof
    assume "contains (c # cs) p"
    then consider "startswith (c # cs) p" | "contains cs p" by auto
    then show "\<exists>a b. c # cs = a @ p @ b"
    proof cases
      case 1
      then show ?thesis by (metis append_Nil startswith_iff)
    next
      case 2
      with Cons.IH obtain a b where "cs = a @ p @ b" by blast
      then have "c # cs = (c # a) @ p @ b" by simp
      then show ?thesis by blast
    qed
  next
    assume "\<exists>a b. c # cs = a @ p @ b"
    then obtain a b where ab: "c # cs = a @ p @ b" by blast
    show "contains (c # cs) p"
    proof (cases a)
      case Nil
      with ab have "startswith (c # cs) p" by (auto simp: startswith_iff)
      then show ?thesis by simp
    next
      case (Cons x xs)
      with ab Cons.IH show ?thesis by auto
    qed
  qed
qed

lemma rfind_from_Some:
  "rfind_from s p lo n = Some i \<Longrightarrow> lo \<le> i \<and> i < lo + n \<and> startswith (drop i s) p"
  by (induction s p lo n rule: rfind_from.induct) (auto split: if_splits)

lemma rfind_Some:
  assumes "rfind s p lo hi = Some i"
  shows "lo \<le> i" and "i + length p \<le> hi" and "startswith (drop i s) p"
proof -
  from assms have le: "lo + length p \<le> hi"
    and r: "rfind_from s p lo (Suc (hi - length p - lo)) = Some i"
    by (auto simp: rfind_def split: if_splits)
  from rfind_from_Some [OF r] le show "lo \<le> i" "i + length p \<le> hi" "startswith (drop i s) p"
    by auto
qed

lemma length_lstrip: "length (lstrip s) \<le> length s"
  by (simp add: lstrip_def length_dropWhile_le)

lemma length_rstrip: "length (rstrip s) \<le> length s"
  using length_dropWhile_le [of is_space "rev s"] by (simp add: rstrip_def)

lemma lstrip_suffix: "\<exists>w. s = w @ lstrip s \<and> (\<forall>c \<in> set w. is_space c)"
  unfolding lstrip_def
  by (metis set_takeWhileD takeWhile_dropWhile_id)

lemma rstrip_prefix: "\<exists>w. s = rstrip s @ w \<and> (\<forall>c \<in> set w. is_space c)"
proof -
  obtain w where "rev s = w @ dropWhile is_space (rev s)" "\<forall>c \<in> set w. is_space c"
    using lstrip_suffix [of "rev s"] unfolding lstrip_def by blast
  then have "s = rstrip s @ rev w" "\<forall>c \<in> set (rev w). is_space c"
    unfolding rstrip_def by (metis rev_append rev_rev_ident, simp)
  then show ?thesis by blast
qed

lemma show_nat_digits: "\<forall>c \<in> set (show_nat n). is_digit c"
proof (induction n rule: show_nat.induct)
  case (1 n)
  have d: "is_digit (digit_char k)" if "k < 10" for k
    using that by (simp add: is_digit_def digit_char_def Let_def)
  show ?case
  proof (cases "n < 10")
    case True
    with d show ?thesis by (subst show_nat.simps) simp
  next
    case False
    with d 1 show ?thesis by (subst show_nat.simps) simp
  qed
qed

lemma show_nat_nonempty [simp]: "show_nat n \<noteq> []"
  by (subst show_nat.simps) simp

lemma digit_char_inj: "a < 10 \<Longrightarrow> b < 10 \<Longrightarrow> digit_char a = digit_char b \<Longrightarrow> a = b"
proof -
  assume a: "a < 10" and b: "b < 10" and e: "digit_char a = digit_char b"
  have "of_char (digit_char a) = (of_char (digit_char b) :: nat)" using e by simp
  with a b show "a = b" by (simp add: digit_char_def)
qed

lemma show_nat_inj: "show_nat m = show_nat n \<Longrightarrow> m = n"
proof (induction m arbitrary: n rule: show_nat.induct)
  case (1 m)
  have len: "length (show_nat k) \<ge> 2" if "\<not> k < 10" for k
  proof -
    have "length (show_nat (k div 10)) \<ge> 1" by (simp add: Suc_le_eq)
    with that show ?thesis by (subst show_nat.simps) simp
  qed
  have small: "show_nat k = [digit_char k]" if "k < 10" for k
    using that by (subst show_nat.simps) simp
  have big: "show_nat k = show_nat (k div 10) @ [digit_char (k mod 10)]" if "\<not> k < 10" for k
    using that by (subst show_nat.simps) simp
  consider "m < 10" "n < 10" | "m < 10" "\<not> n < 10" | "\<not> m < 10" "n < 10" | "\<not> m < 10" "\<not> n < 10"
    by blast
  then show ?case
  proof cases
    case 1
    with "1.prems" small digit_char_inj show ?thesis by simp
  next
    case 2
    then have "length (show_nat m) = 1" by (simp add: small)
    with "1.prems" len [OF 2(2)] show ?thesis by simp
  next
    case 3
    then have "length (show_nat n) = 1" by (simp add: small)
    with "1.prems" len [OF 3(1)] show ?thesis by simp
  next
    case 4
    from 4 "1.prems" have "show_nat (m div 10) = show_nat (n div 10)"
      and d: "digit_char (m mod 10) = digit_char (n mod 10)"
      by (simp_all add: big)
    with "1.IH" 4 have "m div 10 = n div 10" by simp
    moreover from d have "m mod 10 = n mod 10" by (rule digit_char_inj [rotated 2]) auto
    ultimately show ?thesis by (metis div_mult_mod_eq)
  qed
qed

lemma show_int_nonneg: "0 \<le> i \<Longrightarrow> show_int i = show_nat (nat i)"
  by (simp add: show_int_def)

lemma append_sep_eq:
  assumes "x \<notin> set a" "x \<notin> set b" "a @ x # r = b @ x # s"
  shows "a = b \<and> r = s"
  using assms
proof (induction a arbitrary: b)
  case Nil
  then show ?case by (cases b) auto
next
  case (Cons c cs)
  then show ?case by (cases b) auto
qed

lemma append_sep_eq_last:
  assumes "x \<notin> set a" "x \<notin> set b" "r @ x # a = s @ x # b"
  shows "a = b \<and> r = s"
proof -
  have "rev a @ x # rev r = rev b @ x # rev s" using arg_cong [OF assms(3), of rev] by simp
  from append_sep_eq [OF _ _ this] assms(1,2) show ?thesis by simp
qed

lemma show_int_chars: "\<forall>c \<in> set (show_int i). is_digit c \<or> c = CHR ''-''"
  using show_nat_digits by (simp add: show_int_def)

lemma show_int_inj: "show_int i = show_int j \<Longrightarrow> i = j"
proof -
  have "show_nat n \<noteq> CHR ''-'' # s" for n s
    using show_nat_digits [of n] by (auto simp: is_digit_def)
  then show "show_int i = show_int j \<Longrightarrow> i = j"
    by (auto simp: show_int_def dest!: show_nat_inj split: if_splits) metis+
qed

section \<open>Lemmas: slices\<close>

lemma py_index_le: "py_index n i \<le> n"
  by (auto simp: py_index_def)

lemma py_index_in_range: "0 \<le> i \<Longrightarrow> i \<le> int n \<Longrightarrow> py_index n i = nat i"
  by (simp add: py_index_def)

lemma py_slice_in_range:
  "0 \<le> i \<Longrightarrow> i \<le> j \<Longrightarrow> j \<le> int (length xs) \<Longrightarrow>
   py_slice xs i j = take (nat j - nat i) (drop (nat i) xs)"
  by (simp add: py_slice_def py_index_in_range Let_def)

lemma length_py_slice_le: "length (py_slice xs i j) \<le> length xs"
  by (simp add: py_slice_def Let_def)

lemma length_py_slice_in_range:
  "0 \<le> i \<Longrightarrow> i \<le> j \<Longrightarrow> j \<le> int (length xs) \<Longrightarrow> length (py_slice xs i j) = nat (j - i)"
  by (simp add: py_slice_in_range nat_diff_distrib)

lemma py_slice_prefix: "0 \<le> j \<Longrightarrow> py_slice xs 0 j = take (nat j) xs"
  by (simp add: py_slice_def py_index_def Let_def min_def)

lemma py_slice_suffix: "0 \<le> i \<Longrightarrow> py_slice xs i (int (length xs)) = drop (nat i) xs"
  by (simp add: py_slice_def py_index_def Let_def min_def)

section \<open>Lemmas: dicts\<close>

lemma map_of_dict_update: "map_of (dict_update d e) = map_of d ++ map_of (rev e)"
proof (induction e arbitrary: d)
  case Nil
  then show ?case by (simp add: dict_update_def)
next
  case (Cons p e)
  obtain k v where p: "p = (k, v)" by fastforce
  have "map_of (dict_update d (p # e)) = map_of (dict_update (AList.update k v d) e)"
    by (simp add: dict_update_def p)
  also have "\<dots> = map_of (AList.update k v d) ++ map_of (rev e)" by (rule Cons.IH)
  also have "\<dots> = map_of d ++ map_of (rev (p # e))"
    by (simp add: p update_conv' map_add_def fun_eq_iff split: option.splits)
  finally show ?case .
qed

lemma map_of_dict_of: "map_of (dict_of ps) = map_of (rev ps)"
  by (simp add: dict_of_def map_of_dict_update)

lemma map_of_rev_distinct: "distinct (map fst ps) \<Longrightarrow> map_of (rev ps) = map_of ps"
  by (subst map_of_inject_set) (simp_all add: rev_map [symmetric])

lemma map_of_rev_functional:
  assumes "\<And>k v v'. (k, v) \<in> set ps \<Longrightarrow> (k, v') \<in> set ps \<Longrightarrow> v = v'"
  shows "map_of (rev ps) k = Some v \<longleftrightarrow> (k, v) \<in> set ps"
proof
  assume "map_of (rev ps) k = Some v"
  then show "(k, v) \<in> set ps" by (metis map_of_SomeD set_rev)
next
  assume kv: "(k, v) \<in> set ps"
  then obtain v' where "map_of (rev ps) k = Some v'"
    by (metis not_None_eq set_rev weak_map_of_SomeI)
  with kv assms show "map_of (rev ps) k = Some v" by (metis map_of_SomeD set_rev)
qed

lemma dict_of_functional:
  assumes "\<And>k v v'. (k, v) \<in> set ps \<Longrightarrow> (k, v') \<in> set ps \<Longrightarrow> v = v'"
  shows "map_of (dict_of ps) k = Some v \<longleftrightarrow> (k, v) \<in> set ps"
  unfolding map_of_dict_of using assms by (rule map_of_rev_functional)

lemma distinct_dict_update:
  "distinct (map fst d) \<Longrightarrow> distinct (map fst (dict_update d e))"
  by (induction e arbitrary: d) (auto simp: dict_update_def distinct_update)

lemma distinct_dict_of [simp]: "distinct (map fst (dict_of ps))"
  by (simp add: dict_of_def distinct_dict_update)

lemma set_dict_of_keys: "fst ` set (dict_of ps) = fst ` set ps"
proof -
  have "fst ` set (dict_of ps) = dom (map_of (dict_of ps))" by (simp add: dom_map_of_conv_image_fst)
  also have "\<dots> = fst ` set ps" by (simp add: map_of_dict_of dom_map_of_conv_image_fst)
  finally show ?thesis .
qed

lemma set_dict_of_sub: "set (dict_of ps) \<subseteq> set ps"
proof
  fix p assume "p \<in> set (dict_of ps)"
  then have "map_of (dict_of ps) (fst p) = Some (snd p)"
    by (simp add: distinct_dict_of)
  then have "map_of (rev ps) (fst p) = Some (snd p)" by (simp add: map_of_dict_of)
  then show "p \<in> set ps" by (metis map_of_SomeD prod.collapse set_rev)
qed

lemma dict_of_Nil [simp]: "dict_of [] = []"
  by (simp add: dict_of_def dict_update_def)

lemma dict_of_eq_Nil [simp]: "dict_of ps = [] \<longleftrightarrow> ps = []"
  by (metis dict_of_Nil image_is_empty set_dict_of_keys set_empty)

lemma set_dedupe [simp]: "set (dedupe xs) = set xs"
  by (simp add: dedupe_def)

lemma distinct_dedupe [simp]: "distinct (dedupe xs)"
  by (simp add: dedupe_def)

section \<open>Lemmas: sorting\<close>

lemma set_py_sorted [simp]: "set (py_sorted f xs) = set xs"
  by (simp add: py_sorted_def)

lemma set_py_sorted_rev [simp]: "set (py_sorted_rev f xs) = set xs"
  by (simp add: py_sorted_rev_def)

lemma length_py_sorted [simp]: "length (py_sorted f xs) = length xs"
  by (simp add: py_sorted_def)

lemma sorted_py_sorted: "sorted (map f (py_sorted f xs))"
  by (simp add: py_sorted_def)

lemma sorted_py_sorted_rev: "sorted_wrt (\<lambda>x y. f y \<le> f x) (py_sorted_rev f xs)"
proof -
  have "sorted (map f (sort_key f (rev xs)))" by simp
  then have "sorted_wrt (\<lambda>x y. f x \<le> f y) (sort_key f (rev xs))"
    by (simp add: sorted_wrt_map)
  then show ?thesis by (simp add: py_sorted_rev_def sorted_wrt_rev)
qed

end
