(* ===== verification/Pii_Types.thy ===== *)
theory Pii_Types
  imports Prelude
begin

text \<open>
  The shared value types of \<open>litellm/pii/types.py\<close>: detected spans, issued tokens and the error
  unions. Every function that answers \<open>X | Error\<close> in the source answers \<open>pii_error + X\<close> here,
  \<open>Inl\<close> being the error. The source's unions \<open>DetectionError\<close>, \<open>CodecError\<close>,
  \<open>StoreError\<close>, \<open>AuthorizationError\<close> and \<open>SearchError\<close> are subsets of one datatype, told
  apart by predicates. \<open>Raised\<close> is a Python exception that leaves the function (an index out of
  range), with the name of its class.
\<close>

datatype DetectorKind = RULES | NER

fun DetectorKind_value :: "DetectorKind \<Rightarrow> string" where
  "DetectorKind_value RULES = ''rules''"
| "DetectorKind_value NER = ''ner''"

record PiiSpan =
  entity_type :: string
  span_start :: int
  span_end :: int
  score :: rat
  detector :: DetectorKind

definition span_length :: "PiiSpan \<Rightarrow> int" where
  "span_length s = span_end s - span_start s"

definition text_from :: "PiiSpan \<Rightarrow> string \<Rightarrow> string" where
  "text_from s source = py_slice source (span_start s) (span_end s)"

record DetectionResult =
  result_spans :: "PiiSpan list"
  ner_stage_ran :: bool

datatype pii_error =
    DetectorUnavailable DetectorKind string
  | DetectorInvalidResponse DetectorKind string
  | UnknownToken string
  | KeyUnavailable string
  | DecodeFailed string
  | TokenSpaceExhausted string
  | StoreUnavailable string
  | VaultForbidden string
  | SearchRefused int int
  | Raised string

fun is_DetectionError :: "pii_error \<Rightarrow> bool" where
  "is_DetectionError (DetectorUnavailable _ _) = True"
| "is_DetectionError (DetectorInvalidResponse _ _) = True"
| "is_DetectionError _ = False"

fun is_CodecError :: "pii_error \<Rightarrow> bool" where
  "is_CodecError (UnknownToken _) = True"
| "is_CodecError (KeyUnavailable _) = True"
| "is_CodecError (DecodeFailed _) = True"
| "is_CodecError (TokenSpaceExhausted _) = True"
| "is_CodecError _ = False"

fun is_StoreError :: "pii_error \<Rightarrow> bool" where
  "is_StoreError (StoreUnavailable _) = True"
| "is_StoreError _ = False"

text \<open>
  \<open>failure.reason\<close>, which the stores read off a cipher's error. The ciphers answer
  \<open>KeyUnavailable\<close> and \<open>DecodeFailed\<close> only, both of which have it.
\<close>

fun error_reason :: "pii_error \<Rightarrow> string" where
  "error_reason (DetectorUnavailable _ r) = r"
| "error_reason (DetectorInvalidResponse _ r) = r"
| "error_reason (KeyUnavailable r) = r"
| "error_reason (DecodeFailed r) = r"
| "error_reason (StoreUnavailable r) = r"
| "error_reason (VaultForbidden r) = r"
| "error_reason _ = ''''"

record IssuedToken =
  issued_token :: string
  issued_entity :: string
  issued_codec :: string

record EncodedText =
  et_text :: string
  et_tokens :: "IssuedToken list"
  et_session_id :: string

definition DEFAULT_NER_SCORE_THRESHOLD :: rat where
  "DEFAULT_NER_SCORE_THRESHOLD = 1 / 2"

text \<open>A span indexes a text: the precondition of every lemma about slices.\<close>

definition span_in :: "PiiSpan \<Rightarrow> nat \<Rightarrow> bool" where
  "span_in s n \<longleftrightarrow> 0 \<le> span_start s \<and> span_start s < span_end s \<and> span_end s \<le> int n"

lemma text_from_in: "span_in s (length t) \<Longrightarrow>
  text_from s t = take (nat (span_end s) - nat (span_start s)) (drop (nat (span_start s)) t)"
  by (simp add: text_from_def span_in_def py_slice_in_range)

lemma length_text_from_in: "span_in s (length t) \<Longrightarrow> length (text_from s t) = nat (span_length s)"
  by (simp add: text_from_def span_in_def span_length_def length_py_slice_in_range)

lemma text_from_nonempty: "span_in s (length t) \<Longrightarrow> text_from s t \<noteq> []"
  using length_text_from_in [of s t] by (auto simp: span_in_def span_length_def)

end
