(* ===== verification/Ner_Labels.thy ===== *)
theory Ner_Labels
  imports Prelude
begin

text \<open>
  The label vocabularies of the model stage (\<open>litellm/pii/detection/ner_labels.py\<close>) and the closed
  entity vocabulary of the system (\<open>litellm/pii/entities.py\<close> over the \<open>PiiEntityType\<close> enum of
  \<open>litellm/types/guardrails.py\<close>). A \<open>frozenset\<close> of labels is a duplicate-free list here.
\<close>

definition ACCOUNT_NUMBER :: string where "ACCOUNT_NUMBER = ''ACCOUNT_NUMBER''"
definition ID_CARD_NUMBER :: string where "ID_CARD_NUMBER = ''ID_CARD_NUMBER''"
definition PASSWORD :: string where "PASSWORD = ''PASSWORD''"
definition SECRET :: string where "SECRET = ''SECRET''"
definition TAX_NUMBER :: string where "TAX_NUMBER = ''TAX_NUMBER''"
definition USERNAME :: string where "USERNAME = ''USERNAME''"

lemmas label_consts = ACCOUNT_NUMBER_def ID_CARD_NUMBER_def PASSWORD_def SECRET_def
  TAX_NUMBER_def USERNAME_def

definition EXTENDED_ENTITY_TYPES :: "string list" where
  "EXTENDED_ENTITY_TYPES =
     [ACCOUNT_NUMBER, ID_CARD_NUMBER, PASSWORD, SECRET, TAX_NUMBER, USERNAME]"

definition SPAN_PREFIXES :: "string list" where
  "SPAN_PREFIXES = [''B'', ''I'', ''E'', ''S'']"

definition PIIRANHA_LABEL_MAP :: "(string, string) dict" where
  "PIIRANHA_LABEL_MAP =
     [(''ACCOUNTNUM'', ACCOUNT_NUMBER),
      (''BUILDINGNUM'', ''LOCATION''),
      (''CITY'', ''LOCATION''),
      (''CREDITCARDNUMBER'', ''CREDIT_CARD''),
      (''DATEOFBIRTH'', ''DATE_TIME''),
      (''DRIVERLICENSENUM'', ''US_DRIVER_LICENSE''),
      (''EMAIL'', ''EMAIL_ADDRESS''),
      (''GIVENNAME'', ''PERSON''),
      (''IDCARDNUM'', ID_CARD_NUMBER),
      (''PASSWORD'', PASSWORD),
      (''SOCIALNUM'', ''US_SSN''),
      (''STREET'', ''LOCATION''),
      (''SURNAME'', ''PERSON''),
      (''TAXNUM'', TAX_NUMBER),
      (''TELEPHONENUM'', ''PHONE_NUMBER''),
      (''USERNAME'', USERNAME),
      (''ZIPCODE'', ''LOCATION'')]"

definition PRIVACY_FILTER_LABEL_MAP :: "(string, string) dict" where
  "PRIVACY_FILTER_LABEL_MAP =
     [(''account_number'', ACCOUNT_NUMBER),
      (''private_address'', ''LOCATION''),
      (''private_date'', ''DATE_TIME''),
      (''private_email'', ''EMAIL_ADDRESS''),
      (''private_person'', ''PERSON''),
      (''private_phone'', ''PHONE_NUMBER''),
      (''private_url'', ''URL''),
      (''secret'', SECRET)]"

definition LABEL_MAPS :: "(string, (string, string) dict) dict" where
  "LABEL_MAPS =
     [(''piiranha'', PIIRANHA_LABEL_MAP), (''privacy_filter'', PRIVACY_FILTER_LABEL_MAP)]"

definition DEFAULT_LABEL_MAP_NAME :: string where
  "DEFAULT_LABEL_MAP_NAME = ''piiranha''"

definition NER_ONLY_ENTITIES :: "string list" where
  "NER_ONLY_ENTITIES = dedupe (concat (map (\<lambda>(_, m). map snd m) LABEL_MAPS))"

definition normalize_label :: "string \<Rightarrow> string" where
  "normalize_label raw_label =
     (case partition_at (CHR ''-'') raw_label of (h, separator, tail) \<Rightarrow>
        if separator \<and> h \<in> set SPAN_PREFIXES then tail else raw_label)"

definition label_map_by_name :: "string option \<Rightarrow> (string, string) dict" where
  "label_map_by_name name =
     (case map_of LABEL_MAPS (if is_empty_str name then DEFAULT_LABEL_MAP_NAME else the name) of
        None \<Rightarrow> PIIRANHA_LABEL_MAP | Some m \<Rightarrow> m)"

definition map_label :: "string \<Rightarrow> (string, string) dict option \<Rightarrow> string option" where
  "map_label raw_label label_map =
     map_of (case label_map of None \<Rightarrow> PIIRANHA_LABEL_MAP | Some m \<Rightarrow> m) (normalize_label raw_label)"

section \<open>The entity vocabulary\<close>

definition PiiEntityType :: "string list" where
  "PiiEntityType =
     [''CREDIT_CARD'', ''CRYPTO'', ''DATE_TIME'', ''EMAIL_ADDRESS'', ''IBAN_CODE'', ''IP_ADDRESS'',
      ''NRP'', ''LOCATION'', ''PERSON'', ''PHONE_NUMBER'', ''MEDICAL_LICENSE'', ''URL'',
      ''US_BANK_NUMBER'', ''US_DRIVER_LICENSE'', ''US_ITIN'', ''US_PASSPORT'', ''US_SSN'',
      ''UK_NHS'', ''UK_NINO'', ''UK_PASSPORT'', ''UK_POSTCODE'', ''UK_VEHICLE_REGISTRATION'',
      ''ES_NIF'', ''ES_NIE'',
      ''IT_FISCAL_CODE'', ''IT_DRIVER_LICENSE'', ''IT_VAT_CODE'', ''IT_PASSPORT'',
      ''IT_IDENTITY_CARD'', ''PL_PESEL'', ''SG_NRIC_FIN'', ''SG_UEN'',
      ''AU_ABN'', ''AU_ACN'', ''AU_TFN'', ''AU_MEDICARE'',
      ''IN_PAN'', ''IN_AADHAAR'', ''IN_VEHICLE_REGISTRATION'', ''IN_VOTER'', ''IN_PASSPORT'',
      ''FI_PERSONAL_IDENTITY_CODE'']"

definition ENTITY_VOCABULARY :: "string list" where
  "ENTITY_VOCABULARY = PiiEntityType @ EXTENDED_ENTITY_TYPES"

section \<open>Facts about the vocabulary\<close>

text \<open>A label is a nonempty word of capitals and underscores.\<close>

definition label_char :: "char \<Rightarrow> bool" where
  "label_char c \<longleftrightarrow> is_upper c \<or> c = CHR ''_''"

lemma vocabulary_chars: "list_all (\<lambda>l. l \<noteq> [] \<and> list_all label_char l) ENTITY_VOCABULARY"
  by code_simp

lemma vocabulary_prefix_free:
  "list_all (\<lambda>a. list_all (\<lambda>b. a = b \<or> \<not> startswith b a) ENTITY_VOCABULARY) ENTITY_VOCABULARY"
  by code_simp

lemma vocabulary_label:
  assumes "e \<in> set ENTITY_VOCABULARY"
  shows "e \<noteq> []" and "\<forall>c \<in> set e. label_char c"
  using assms vocabulary_chars by (auto simp: list_all_iff)

lemma vocabulary_prefix:
  assumes "a \<in> set ENTITY_VOCABULARY" "b \<in> set ENTITY_VOCABULARY" "startswith b a"
  shows "a = b"
  using assms vocabulary_prefix_free by (auto simp: list_all_iff)

lemma label_map_targets:
  "list_all (\<lambda>(_, m). list_all (\<lambda>(_, e). e \<in> set ENTITY_VOCABULARY) m) LABEL_MAPS"
  by code_simp

lemma label_map_by_name_vocabulary:
  assumes "map_of (label_map_by_name name) l = Some e"
  shows "e \<in> set ENTITY_VOCABULARY"
proof -
  have all: "\<forall>(n, m) \<in> set LABEL_MAPS. \<forall>(k, e) \<in> set m. e \<in> set ENTITY_VOCABULARY"
    using label_map_targets by (auto simp: list_all_iff)
  have "\<exists>n. (n, label_map_by_name name) \<in> set LABEL_MAPS"
    unfolding label_map_by_name_def
    by (auto dest: map_of_SomeD split: option.splits simp: LABEL_MAPS_def)
  with all assms show ?thesis by (fastforce dest: map_of_SomeD)
qed

end
