(* ===== verification/Grammar.thy ===== *)
theory Grammar
  imports Pii_Types Ner_Labels
begin

text \<open>
  The token wire format of \<open>litellm/pii/codec/grammar.py\<close>: minting, strict parsing, tolerant
  recognition inside prose, substitution and the streaming holdback.

  The two regular expressions are written as parsers over the remaining input. Every quantified
  piece of them (\<open>\s*\<close>, \<open>\d+\<close>, the handle characters, the optional backslash) is
  followed by a piece that cannot start with a character of its own class, so greedy matching
  never has to give a character back, and trying the labels in order is the only choice left.
\<close>

datatype TokenKind = ORDINAL | HANDLE

record ParsedToken =
  parsed_entity :: string
  parsed_kind :: TokenKind
  discriminator :: string

record FoundToken =
  found_text :: string
  canonical :: string
  found_start :: nat
  found_end :: nat

definition MAX_DISCRIMINATOR_LENGTH :: nat where
  "MAX_DISCRIMINATOR_LENGTH = 64"

definition MAX_TOKEN_LENGTH :: nat where
  "MAX_TOKEN_LENGTH = length ''<_>'' + foldr max (map length ENTITY_VOCABULARY) 0 + MAX_DISCRIMINATOR_LENGTH"

text \<open>The alternatives of the label group, longest first.\<close>

definition LABEL :: "string list" where
  "LABEL = py_sorted_rev length ENTITY_VOCABULARY"

text \<open>\<open>[A-Za-z0-9._\-]\<close>\<close>

definition handle_char :: "char \<Rightarrow> bool" where
  "handle_char c \<longleftrightarrow> is_upper c \<or> is_lower c \<or> is_digit c \<or> c = CHR ''.'' \<or> c = CHR ''_'' \<or> c = CHR ''-''"

section \<open>The strict pattern\<close>

definition strict_disc :: "string \<Rightarrow> (TokenKind \<times> string) option" where
  "strict_disc s = (case s of
     [] \<Rightarrow> None
   | c # r \<Rightarrow>
       if c = CHR ''_'' then
         (let ds = takeWhile is_digit r in
          if ds \<noteq> [] \<and> dropWhile is_digit r = ''>'' then Some (ORDINAL, ds) else None)
       else if c = CHR '':'' then
         (let hs = takeWhile handle_char r in
          if hs \<noteq> [] \<and> dropWhile handle_char r = ''>'' then Some (HANDLE, hs) else None)
       else None)"

fun strict_alt :: "string list \<Rightarrow> string \<Rightarrow> (string \<times> TokenKind \<times> string) option" where
  "strict_alt [] s = None"
| "strict_alt (l # ls) s =
     (if startswith s l then
        (case strict_disc (drop (length l) s) of
           Some (k, d) \<Rightarrow> Some (l, k, d)
         | None \<Rightarrow> strict_alt ls s)
      else strict_alt ls s)"

definition STRICT_PATTERN :: "string \<Rightarrow> (string \<times> TokenKind \<times> string) option" where
  "STRICT_PATTERN s = (case s of [] \<Rightarrow> None | c # r \<Rightarrow> if c = CHR ''<'' then strict_alt LABEL r else None)"

section \<open>The tolerant pattern\<close>

definition skip_slash :: "string \<Rightarrow> string" where
  "skip_slash s = (case s of [] \<Rightarrow> [] | c # r \<Rightarrow> if c = backslash then r else s)"

text \<open>A label, compared without regard to case.\<close>

fun skip_label :: "string \<Rightarrow> string \<Rightarrow> string option" where
  "skip_label [] s = Some s"
| "skip_label (l # ls) [] = None"
| "skip_label (l # ls) (c # cs) = (if lower_char c = lower_char l then skip_label ls cs else None)"

text \<open>\<open>\\?_\s*(\d+)\<close>\<close>

definition tol_ordinal :: "string \<Rightarrow> (string \<times> string) option" where
  "tol_ordinal s = (case skip_slash s of
     [] \<Rightarrow> None
   | c # r \<Rightarrow>
       if c = CHR ''_'' then
         (let r1 = dropWhile is_space r; ds = takeWhile is_digit r1 in
          if ds = [] then None else Some (ds, dropWhile is_digit r1))
       else None)"

text \<open>\<open>:\s*([A-Za-z0-9._\-]+)\<close>\<close>

definition tol_handle :: "string \<Rightarrow> (string \<times> string) option" where
  "tol_handle s = (case s of
     [] \<Rightarrow> None
   | c # r \<Rightarrow>
       if c = CHR '':'' then
         (let r1 = dropWhile is_space r; hs = takeWhile handle_char r1 in
          if hs = [] then None else Some (hs, dropWhile handle_char r1))
       else None)"

definition tol_disc :: "string \<Rightarrow> ((TokenKind \<times> string) \<times> string) option" where
  "tol_disc s = (case tol_ordinal s of
     Some (d, r) \<Rightarrow> Some ((ORDINAL, d), r)
   | None \<Rightarrow> (case tol_handle s of Some (h, r) \<Rightarrow> Some ((HANDLE, h), r) | None \<Rightarrow> None))"

text \<open>\<open>\s*\\?>\<close>\<close>

definition tol_close :: "string \<Rightarrow> string option" where
  "tol_close s = (case skip_slash (dropWhile is_space s) of
     [] \<Rightarrow> None | c # r \<Rightarrow> if c = CHR ''>'' then Some r else None)"

definition tol_label :: "string \<Rightarrow> string \<Rightarrow> ((TokenKind \<times> string) \<times> string) option" where
  "tol_label l s = (case skip_label l s of
     None \<Rightarrow> None
   | Some r \<Rightarrow> (case tol_disc (dropWhile is_space r) of
       None \<Rightarrow> None
     | Some (d, r1) \<Rightarrow> (case tol_close r1 of None \<Rightarrow> None | Some r2 \<Rightarrow> Some (d, r2))))"

text \<open>
  The alternatives in order, the first whose continuation matches: the label as it stands in the
  text, the discriminator, and the rest of the input.
\<close>

fun tol_alt :: "string list \<Rightarrow> string \<Rightarrow> (string \<times> (TokenKind \<times> string) \<times> string) option" where
  "tol_alt [] s = None"
| "tol_alt (l # ls) s = (case tol_label l s of
     Some (d, r) \<Rightarrow> Some (take (length l) s, d, r)
   | None \<Rightarrow> tol_alt ls s)"

text \<open>The pattern at the head of the input.\<close>

definition TOLERANT_PATTERN :: "string \<Rightarrow> (string \<times> (TokenKind \<times> string) \<times> string) option" where
  "TOLERANT_PATTERN s = (case skip_slash s of
     [] \<Rightarrow> None
   | c # r \<Rightarrow> if c = CHR ''<'' then tol_alt LABEL (dropWhile is_space r) else None)"

definition canonical_of :: "string \<Rightarrow> TokenKind \<times> string \<Rightarrow> string" where
  "canonical_of label d = (case d of
     (ORDINAL, ordinal) \<Rightarrow> ''<'' @ str_upper label @ ''_'' @ ordinal @ ''>''
   | (HANDLE, handle) \<Rightarrow> ''<'' @ str_upper label @ '':'' @ handle @ ''>'')"

text \<open>
  One match at the head of the input, at offset \<open>pos\<close> of the whole text: the occurrence and what
  follows it.
\<close>

definition found :: "nat \<Rightarrow> string \<Rightarrow> (FoundToken \<times> string) option" where
  "found pos s = (case TOLERANT_PATTERN s of
     None \<Rightarrow> None
   | Some (label, d, rest) \<Rightarrow>
       (let n = length s - length rest in
        Some (\<lparr>found_text = take n s, canonical = canonical_of label d,
               found_start = pos, found_end = pos + n\<rparr>, rest)))"

section \<open>Facts needed to scan\<close>

lemma skip_slash_length: "length (skip_slash s) \<le> length s"
  by (auto simp: skip_slash_def split: list.splits)

lemma skip_label_Some: "skip_label l s = Some r \<Longrightarrow> \<exists>t. s = t @ r \<and> length t = length l"
proof (induction l s rule: skip_label.induct)
  case (3 l ls c cs)
  then obtain t where "cs = t @ r" "length t = length ls" by (auto split: if_splits)
  then have "c # cs = (c # t) @ r" "length (c # t) = length (l # ls)" by auto
  then show ?case by blast
qed auto

lemma skip_slash_split: "skip_slash s = r \<Longrightarrow> s = r \<or> s = backslash # r"
  by (auto simp: skip_slash_def split: list.splits if_splits)

lemma dropWhile_split:
  "dropWhile P s = r \<Longrightarrow> \<exists>w. s = w @ r \<and> (\<forall>c \<in> set w. P c)"
  by (metis set_takeWhileD takeWhile_dropWhile_id)

lemma span_split:
  assumes "takeWhile P s = d" "dropWhile P s = r"
  shows "s = d @ r" and "\<forall>c \<in> set d. P c"
  using assms by (auto dest: set_takeWhileD)

lemma tol_ordinal_split:
  assumes "tol_ordinal s = Some (d, r)"
  shows "\<exists>w sp. s = w @ ''_'' @ sp @ d @ r \<and> (w = [] \<or> w = [backslash])
    \<and> (\<forall>c \<in> set sp. is_space c) \<and> d \<noteq> [] \<and> (\<forall>c \<in> set d. is_digit c)"
proof -
  from assms obtain r0 r1 where r0: "skip_slash s = CHR ''_'' # r0"
    and r1: "dropWhile is_space r0 = r1"
    and d: "takeWhile is_digit r1 = d" "d \<noteq> []" and r: "dropWhile is_digit r1 = r"
    by (auto simp: tol_ordinal_def Let_def split: list.splits if_splits)
  from skip_slash_split [OF r0]
  obtain w where w: "s = w @ CHR ''_'' # r0" "w = [] \<or> w = [backslash]" by auto
  from dropWhile_split [OF r1] obtain sp where sp: "r0 = sp @ r1" "\<forall>c \<in> set sp. is_space c"
    by blast
  note span_split [OF d(1) r]
  then have "s = w @ ''_'' @ sp @ d @ r" using w(1) sp(1) by simp
  then show ?thesis using w(2) sp(2) d(2) span_split(2) [OF d(1) r] by blast
qed

lemma tol_handle_split:
  assumes "tol_handle s = Some (d, r)"
  shows "\<exists>sp. s = '':'' @ sp @ d @ r \<and> (\<forall>c \<in> set sp. is_space c) \<and> d \<noteq> []
    \<and> (\<forall>c \<in> set d. handle_char c)"
proof -
  from assms obtain r0 r1 where r0: "s = CHR '':'' # r0"
    and r1: "dropWhile is_space r0 = r1"
    and d: "takeWhile handle_char r1 = d" "d \<noteq> []" and r: "dropWhile handle_char r1 = r"
    by (auto simp: tol_handle_def Let_def split: list.splits if_splits)
  from dropWhile_split [OF r1] obtain sp where sp: "r0 = sp @ r1" "\<forall>c \<in> set sp. is_space c"
    by blast
  have "s = '':'' @ sp @ d @ r" using r0 sp(1) span_split(1) [OF d(1) r] by simp
  then show ?thesis using sp(2) d(2) span_split(2) [OF d(1) r] by blast
qed

lemma tol_close_split:
  assumes "tol_close s = Some r"
  shows "\<exists>sp w. s = sp @ w @ ''>'' @ r \<and> (\<forall>c \<in> set sp. is_space c) \<and> (w = [] \<or> w = [backslash])"
proof -
  from assms obtain r1 where c: "skip_slash r1 = ''>'' @ r" and r1: "dropWhile is_space s = r1"
    by (auto simp: tol_close_def split: list.splits if_splits)
  from dropWhile_split [OF r1] obtain sp where sp: "s = sp @ r1" "\<forall>c \<in> set sp. is_space c"
    by blast
  from skip_slash_split [OF c]
  obtain w where w: "r1 = w @ ''>'' @ r" "w = [] \<or> w = [backslash]" by auto
  from sp w show ?thesis by blast
qed

lemma tol_disc_suffix: "tol_disc s = Some (d, r) \<Longrightarrow> \<exists>w. s = w @ r \<and> w \<noteq> []"
  by (auto simp: tol_disc_def split: option.splits prod.splits
      dest!: tol_ordinal_split tol_handle_split)

lemma tol_label_suffix:
  assumes "tol_label l s = Some (d, r)"
  shows "\<exists>w. s = w @ r \<and> length l < length w"
proof -
  from assms obtain r0 r1 where r0: "skip_label l s = Some r0"
    and d: "tol_disc (dropWhile is_space r0) = Some (d, r1)" and r: "tol_close r1 = Some r"
    by (auto simp: tol_label_def split: option.splits)
  obtain t where t: "s = t @ r0" "length t = length l" using skip_label_Some [OF r0] by blast
  obtain w1 where w1: "r0 = w1 @ dropWhile is_space r0" by (metis dropWhile_split)
  obtain w2 where w2: "dropWhile is_space r0 = w2 @ r1" "w2 \<noteq> []" using tol_disc_suffix [OF d] by blast
  obtain w3 where w3: "r1 = w3 @ r" using tol_close_split [OF r] by (metis append.assoc)
  have "s = (t @ w1 @ w2 @ w3) @ r" using t(1) w1 w2(1) w3 by (metis append.assoc)
  moreover have "length l < length (t @ w1 @ w2 @ w3)" using t(2) w2(2) by (cases w2) auto
  ultimately show ?thesis by blast
qed

lemma tol_alt_Some:
  "tol_alt ls s = Some (t, d, r) \<Longrightarrow> \<exists>l \<in> set ls. tol_label l s = Some (d, r) \<and> t = take (length l) s"
  by (induction ls) (auto split: option.splits)

lemma TOLERANT_PATTERN_shorter:
  assumes "TOLERANT_PATTERN s = Some (l, d, r)"
  shows "length r < length s"
proof -
  from assms obtain r0 where r0: "skip_slash s = CHR ''<'' # r0"
    and a: "tol_alt LABEL (dropWhile is_space r0) = Some (l, d, r)"
    by (auto simp: TOLERANT_PATTERN_def split: list.splits if_splits)
  from tol_alt_Some [OF a] tol_label_suffix have "length r \<le> length (dropWhile is_space r0)"
    by fastforce
  also have "\<dots> \<le> length r0" by (rule length_dropWhile_le)
  also have "\<dots> < length (skip_slash s)" using r0 by simp
  also have "\<dots> \<le> length s" by (rule skip_slash_length)
  finally show ?thesis .
qed

lemma found_shorter: "found pos s = Some (t, r) \<Longrightarrow> length r < length s"
  by (auto simp: found_def Let_def split: option.splits dest: TOLERANT_PATTERN_shorter)

section \<open>Scanning a text\<close>

text \<open>
  \<open>finditer\<close> and \<open>sub\<close> walk a text from the left, take the match at the first position that
  has one, and go on after it. The walk is one function, to a list of untouched characters and
  occurrences.
\<close>

datatype piece = Lit char | Tok FoundToken

function scan :: "nat \<Rightarrow> string \<Rightarrow> piece list" where
  "scan pos [] = []"
| "scan pos (c # cs) = (case found pos (c # cs) of
     None \<Rightarrow> Lit c # scan (Suc pos) cs
   | Some (t, rest) \<Rightarrow> Tok t # scan (found_end t) rest)"
  by pat_completeness auto
termination
  by (relation "measure (\<lambda>(pos, s). length s)") (auto dest: found_shorter)

fun tokens_in :: "piece list \<Rightarrow> FoundToken list" where
  "tokens_in [] = []"
| "tokens_in (Lit c # ps) = tokens_in ps"
| "tokens_in (Tok t # ps) = t # tokens_in ps"

fun render :: "(FoundToken \<Rightarrow> string) \<Rightarrow> piece list \<Rightarrow> string" where
  "render f [] = []"
| "render f (Lit c # ps) = c # render f ps"
| "render f (Tok t # ps) = f t @ render f ps"

section \<open>The grammar's operations\<close>

definition grammar_mint :: "string \<Rightarrow> TokenKind \<Rightarrow> string \<Rightarrow> string" where
  "grammar_mint ety kind disc = (case kind of
     ORDINAL \<Rightarrow> ''<'' @ ety @ ''_'' @ disc @ ''>''
   | HANDLE \<Rightarrow> ''<'' @ ety @ '':'' @ disc @ ''>'')"

definition mint_masked :: "string \<Rightarrow> string" where
  "mint_masked ety = ''<'' @ ety @ ''>''"

definition parse :: "string \<Rightarrow> ParsedToken option" where
  "parse token = (case STRICT_PATTERN token of
     None \<Rightarrow> None
   | Some (l, k, d) \<Rightarrow> Some \<lparr>parsed_entity = l, parsed_kind = k, discriminator = d\<rparr>)"

definition find_tokens :: "string \<Rightarrow> FoundToken list" where
  "find_tokens text = tokens_in (scan 0 text)"

definition substitute :: "string \<Rightarrow> (FoundToken \<Rightarrow> string) \<Rightarrow> string" where
  "substitute text replacement = render replacement (scan 0 text)"

text \<open>A \<open>frozenset\<close>, as the list of first occurrences.\<close>

definition canonical_tokens :: "string list \<Rightarrow> string list" where
  "canonical_tokens texts =
     dedupe (concat (map (\<lambda>text. map canonical (find_tokens text)) texts))"

definition holdback_chars :: "string \<Rightarrow> nat" where
  "holdback_chars text = (case rfind text ''<'' 0 (length text) of
     None \<Rightarrow> 0
   | Some opening \<Rightarrow>
       if CHR ''>'' \<in> set (drop opening text) then 0
       else
         (let escaped = (if 0 < opening \<and> text ! (opening - 1) = backslash then opening - 1 else opening);
              pending = length text - escaped
          in if pending \<le> MAX_TOKEN_LENGTH then pending else 0))"

end
