(* ===== verification/Grammar_Facts.thy ===== *)
theory Grammar_Facts
  imports Grammar
begin

text \<open>
  What the token grammar guarantees: a minted token is recognised, strictly and inside any
  surrounding text; a masked entity never is; scanning splits at an opening bracket; the tokens of
  a text are its occurrences; and the streaming holdback never emits the start of a token.
\<close>

section \<open>Character classes\<close>

lemma char_classes [simp]:
  "\<not> is_space (CHR ''<'')" "\<not> is_digit (CHR ''<'')" "\<not> handle_char (CHR ''<'')" "\<not> label_char (CHR ''<'')"
  "\<not> is_space (CHR ''>'')" "\<not> is_digit (CHR ''>'')" "\<not> handle_char (CHR ''>'')" "\<not> label_char (CHR ''>'')"
  "\<not> is_space backslash" "\<not> is_digit backslash" "\<not> handle_char backslash" "\<not> label_char backslash"
  "\<not> is_space (CHR ''_'')" "\<not> is_space (CHR '':'')" "\<not> is_digit (CHR ''_'')"
  by (simp_all add: is_space_def is_digit_def handle_char_def label_char_def is_upper_def is_lower_def)

lemma label_char_not_space: "label_char c \<Longrightarrow> \<not> is_space c"
  by (auto simp: label_char_def is_upper_def is_space_def Let_def)

lemma digit_not_space: "is_digit c \<Longrightarrow> \<not> is_space c"
  by (auto simp: is_digit_def is_space_def Let_def)

lemma handle_char_not_space: "handle_char c \<Longrightarrow> \<not> is_space c"
  by (auto simp: handle_char_def is_upper_def is_lower_def is_digit_def is_space_def Let_def)

lemma lower_char_upper:
  assumes "is_upper l" and "lower_char c = lower_char l"
  shows "c = l \<or> (is_lower c \<and> of_char c = of_char l + (32 :: nat))"
proof -
  let ?n = "of_char l :: nat" and ?m = "of_char c :: nat"
  from assms(1) have n: "65 \<le> ?n" "?n \<le> 90" by (simp_all add: is_upper_def Let_def)
  then have l: "lower_char l = char_of (?n + 32)" by (simp add: lower_char_def)
  show ?thesis
  proof (cases "(65 \<le> ?m \<and> ?m \<le> 90) \<or> (192 \<le> ?m \<and> ?m \<le> 222 \<and> ?m \<noteq> 215)")
    case True
    then have "lower_char c = char_of (?m + 32)" unfolding lower_char_def Let_def by (rule if_P)
    with l assms(2) have "of_char (char_of (?m + 32) :: char) = (of_char (char_of (?n + 32) :: char) :: nat)"
      by simp
    with True n have "?m = ?n" by (auto simp: of_char_of)
    then show ?thesis by simp
  next
    case False
    then have "lower_char c = c" unfolding lower_char_def Let_def by (rule if_not_P)
    with l assms(2) have "?m = (of_char (char_of (?n + 32) :: char) :: nat)" by simp
    with n have "?m = ?n + 32" by (simp add: of_char_of)
    with n show ?thesis by (simp add: is_lower_def)
  qed
qed

lemma lower_char_label_upper:
  assumes "label_char l" and "lower_char c = lower_char l"
  shows "upper_char c = l"
proof (cases "is_upper l")
  case True
  from lower_char_upper [OF True assms(2)] show ?thesis
  proof
    assume "c = l"
    with True show ?thesis by (auto simp: upper_char_def is_lower_def is_upper_def Let_def)
  next
    assume "is_lower c \<and> of_char c = of_char l + (32 :: nat)"
    then show ?thesis by (simp add: upper_char_def)
  qed
next
  case False
  with assms(1) have l: "l = CHR ''_''" by (simp add: label_char_def)
  then have ll: "lower_char l = CHR ''_''" by (simp add: lower_char_def)
  have "c = CHR ''_''"
  proof (cases "(65 \<le> (of_char c :: nat) \<and> (of_char c :: nat) \<le> 90) \<or>
      (192 \<le> (of_char c :: nat) \<and> (of_char c :: nat) \<le> 222 \<and> (of_char c :: nat) \<noteq> 215)")
    case True
    then have "lower_char c = char_of ((of_char c :: nat) + 32)" unfolding lower_char_def Let_def by (rule if_P)
    with ll assms(2) have "(of_char (char_of ((of_char c :: nat) + 32) :: char) :: nat) = of_char (CHR ''_'')"
      by simp
    with True show ?thesis by (auto simp: of_char_of)
  next
    case False
    then have "lower_char c = c" unfolding lower_char_def Let_def by (rule if_not_P)
    with ll assms(2) show ?thesis by simp
  qed
  with l show ?thesis by (simp add: upper_char_def is_lower_def)
qed

lemma upper_char_label: "label_char l \<Longrightarrow> upper_char l = l"
  by (rule lower_char_label_upper) simp_all

lemma str_upper_label: "\<forall>c \<in> set l. label_char c \<Longrightarrow> str_upper l = l"
  by (simp add: str_upper_def map_idI upper_char_label)

lemma lower_char_label_inj:
  "label_char a \<Longrightarrow> label_char b \<Longrightarrow> lower_char a = lower_char b \<Longrightarrow> a = b"
  using lower_char_label_upper upper_char_label by metis

lemma lower_char_label_not:
  assumes "label_char l" "x = CHR ''<'' \<or> x = backslash"
  shows "lower_char x \<noteq> lower_char l"
proof
  assume "lower_char x = lower_char l"
  with assms(1) have "upper_char x = l" by (rule lower_char_label_upper)
  moreover have "upper_char x = x" using assms(2) by (auto simp: upper_char_def is_lower_def)
  ultimately show False using assms by auto
qed

section \<open>Labels\<close>

lemma skip_label_self: "skip_label l (l @ s) = Some s"
  by (induction l) auto

lemma skip_label_text:
  assumes "skip_label l s = Some r" "\<forall>c \<in> set l. label_char c"
  shows "str_upper (take (length l) s) = l"
  using assms
  by (induction l s rule: skip_label.induct)
     (auto simp: str_upper_def lower_char_label_upper split: if_splits)

lemma skip_label_lower: "skip_label l s \<noteq> None \<longleftrightarrow> startswith (map lower_char s) (map lower_char l)"
  by (induction l s rule: skip_label.induct) auto

lemma lower_label_prefix:
  assumes "startswith (map lower_char b) (map lower_char a)"
    and "\<forall>c \<in> set a. label_char c" "\<forall>c \<in> set b. label_char c"
  shows "startswith b a"
  using assms by (induction b a rule: startswith.induct) (auto dest: lower_char_label_inj)

lemma skip_label_unique:
  assumes a: "skip_label a s = Some r" "a \<in> set ENTITY_VOCABULARY"
    and b: "skip_label b s = Some r'" "b \<in> set ENTITY_VOCABULARY"
  shows "a = b"
proof -
  from a b have "startswith (map lower_char s) (map lower_char a)"
    "startswith (map lower_char s) (map lower_char b)"
    by (simp_all flip: skip_label_lower)
  then obtain x y where "map lower_char a @ x = map lower_char b @ y"
    by (metis startswith_iff)
  then have "startswith (map lower_char a) (map lower_char b) \<or> startswith (map lower_char b) (map lower_char a)"
    by (metis append_eq_append_conv2 startswith_iff)
  then have "startswith a b \<or> startswith b a"
    using a b vocabulary_label lower_label_prefix by metis
  with a b vocabulary_prefix show ?thesis by metis
qed

lemma set_LABEL [simp]: "set LABEL = set ENTITY_VOCABULARY"
  by (simp add: LABEL_def)

lemma tol_alt_iff:
  assumes "set ls \<subseteq> set ENTITY_VOCABULARY"
  shows "tol_alt ls s = Some (t, d, r) \<longleftrightarrow>
    (\<exists>l \<in> set ls. tol_label l s = Some (d, r) \<and> t = take (length l) s)"
  using assms
proof (induction ls)
  case Nil
  then show ?case by simp
next
  case (Cons l ls)
  show ?case
  proof (cases "tol_label l s")
    case None
    with Cons show ?thesis by auto
  next
    case (Some p)
    have "m = l" if "m \<in> set (l # ls)" "tol_label m s \<noteq> None" for m
    proof -
      from that(2) Some obtain r1 r2 where "skip_label m s = Some r1" "skip_label l s = Some r2"
        by (auto simp: tol_label_def split: option.splits)
      with that(1) Cons.prems skip_label_unique show ?thesis by (metis list.set_intros(1) subsetD)
    qed
    with Some show ?thesis by (cases p) fastforce
  qed
qed

lemmas tol_alt_LABEL = tol_alt_iff [of LABEL, simplified]

section \<open>Recognising a minted token\<close>

definition valid_disc :: "TokenKind \<Rightarrow> string \<Rightarrow> bool" where
  "valid_disc k d \<longleftrightarrow> d \<noteq> [] \<and> (case k of ORDINAL \<Rightarrow> \<forall>c \<in> set d. is_digit c | HANDLE \<Rightarrow> \<forall>c \<in> set d. handle_char c)"

lemma span_until:
  assumes "\<forall>c \<in> set d. P c" "\<not> P x"
  shows "takeWhile P (d @ x # s) = d" "dropWhile P (d @ x # s) = x # s"
  using assms by (simp_all add: takeWhile_append2 dropWhile_append2)

lemma dropWhile_hd: "s \<noteq> [] \<Longrightarrow> \<not> P (hd s) \<Longrightarrow> dropWhile P s = s"
  by (cases s) auto

lemma tol_close_gt [simp]: "tol_close (CHR ''>'' # s) = Some s"
  by (simp add: tol_close_def skip_slash_def)

lemma tol_disc_minted:
  assumes "valid_disc k d"
  shows "tol_disc ((case k of ORDINAL \<Rightarrow> CHR ''_'' | HANDLE \<Rightarrow> CHR '':'') # d @ CHR ''>'' # s)
    = Some ((k, d), CHR ''>'' # s)"
proof (cases k)
  case ORDINAL
  with assms have d: "d \<noteq> []" "\<forall>c \<in> set d. is_digit c" by (simp_all add: valid_disc_def)
  then have "dropWhile is_space (d @ CHR ''>'' # s) = d @ CHR ''>'' # s"
    by (intro dropWhile_hd) (auto simp: hd_append digit_not_space)
  with d ORDINAL show ?thesis
    by (simp add: tol_disc_def tol_ordinal_def skip_slash_def span_until)
next
  case HANDLE
  with assms have d: "d \<noteq> []" "\<forall>c \<in> set d. handle_char c" by (simp_all add: valid_disc_def)
  then have "dropWhile is_space (d @ CHR ''>'' # s) = d @ CHR ''>'' # s"
    by (intro dropWhile_hd) (auto simp: hd_append handle_char_not_space)
  with d HANDLE show ?thesis
    by (simp add: tol_disc_def tol_ordinal_def tol_handle_def skip_slash_def span_until)
qed

lemma grammar_mint_eq: "grammar_mint e k d @ s =
    CHR ''<'' # e @ (case k of ORDINAL \<Rightarrow> CHR ''_'' | HANDLE \<Rightarrow> CHR '':'') # d @ CHR ''>'' # s"
  by (cases k) (simp_all add: grammar_mint_def)

lemma TOLERANT_PATTERN_minted:
  assumes e: "e \<in> set ENTITY_VOCABULARY" and d: "valid_disc k d"
  shows "TOLERANT_PATTERN (grammar_mint e k d @ s) = Some (e, (k, d), s)"
proof -
  let ?x = "case k of ORDINAL \<Rightarrow> CHR ''_'' | HANDLE \<Rightarrow> CHR '':''"
  let ?rest = "?x # d @ CHR ''>'' # s"
  have ne: "e \<noteq> []" "\<forall>c \<in> set e. label_char c" using vocabulary_label e by auto
  have sp: "dropWhile is_space (e @ ?rest) = e @ ?rest"
    using ne by (intro dropWhile_hd) (auto simp: hd_append label_char_not_space)
  have sp2: "dropWhile is_space ?rest = ?rest" by (intro dropWhile_hd) (cases k; simp)+
  have "tol_label e (e @ ?rest) = Some ((k, d), s)"
    unfolding tol_label_def skip_label_self by (simp add: sp2 tol_disc_minted [OF d] del: dropWhile.simps)
  then have "tol_alt LABEL (e @ ?rest) = Some (e, (k, d), s)"
    using e unfolding tol_alt_LABEL by (auto intro!: bexI [of _ e])
  then show ?thesis unfolding TOLERANT_PATTERN_def grammar_mint_eq by (simp add: skip_slash_def sp)
qed

lemma canonical_of_mint: "\<forall>c \<in> set l. label_char c \<Longrightarrow> canonical_of l (k, d) = grammar_mint l k d"
  by (cases k) (simp_all add: canonical_of_def grammar_mint_def str_upper_label)

lemma found_minted:
  assumes "e \<in> set ENTITY_VOCABULARY" "valid_disc k d"
  shows "found pos (grammar_mint e k d @ s) =
    Some (\<lparr>found_text = grammar_mint e k d, canonical = grammar_mint e k d, found_start = pos,
           found_end = pos + length (grammar_mint e k d)\<rparr>, s)"
  using assms vocabulary_label
  by (simp add: found_def TOLERANT_PATTERN_minted canonical_of_mint)

section \<open>The shape of a match\<close>

text \<open>
  Whatever is recognised is an optional backslash, an opening bracket, a body without brackets and
  a closing bracket; its canonical form is a minted token of the vocabulary.
\<close>

lemma space_not_bracket: "is_space c \<Longrightarrow> c \<noteq> CHR ''<'' \<and> c \<noteq> CHR ''>''"
  by auto

lemma digit_not_bracket: "is_digit c \<Longrightarrow> c \<noteq> CHR ''<'' \<and> c \<noteq> CHR ''>''"
  by auto

lemma handle_not_bracket: "handle_char c \<Longrightarrow> c \<noteq> CHR ''<'' \<and> c \<noteq> CHR ''>''"
  by auto

definition bracket_free :: "string \<Rightarrow> bool" where
  "bracket_free s \<longleftrightarrow> CHR ''<'' \<notin> set s \<and> CHR ''>'' \<notin> set s"

lemma bracket_free_append [simp]: "bracket_free (a @ b) \<longleftrightarrow> bracket_free a \<and> bracket_free b"
  by (auto simp: bracket_free_def)

lemma bracket_free_Cons [simp]:
  "bracket_free (c # b) \<longleftrightarrow> c \<noteq> CHR ''<'' \<and> c \<noteq> CHR ''>'' \<and> bracket_free b"
  by (auto simp: bracket_free_def)

lemma bracket_free_Nil [simp]: "bracket_free []"
  by (simp add: bracket_free_def)

lemma bracket_free_class:
  "\<forall>c \<in> set s. is_space c \<Longrightarrow> bracket_free s" "\<forall>c \<in> set s. is_digit c \<Longrightarrow> bracket_free s"
  "\<forall>c \<in> set s. handle_char c \<Longrightarrow> bracket_free s"
  by (auto simp: bracket_free_def)

lemma bracket_free_slash: "w = [] \<or> w = [backslash] \<Longrightarrow> bracket_free w"
  by auto

lemma tol_disc_shape:
  assumes "tol_disc s = Some ((k, d), r)"
  shows "\<exists>w. s = w @ r \<and> bracket_free w \<and> valid_disc k d"
proof (cases "tol_ordinal s")
  case None
  with assms obtain h where h: "tol_handle s = Some (h, r)" "k = HANDLE" "d = h"
    by (auto simp: tol_disc_def split: option.splits)
  then obtain sp where "s = '':'' @ sp @ d @ r" "\<forall>c \<in> set sp. is_space c" "d \<noteq> []"
    "\<forall>c \<in> set d. handle_char c"
    using tol_handle_split by blast
  with h show ?thesis
    by (intro exI [of _ "'':'' @ sp @ d"]) (auto simp: valid_disc_def bracket_free_class)
next
  case (Some p)
  with assms have o: "tol_ordinal s = Some (d, r)" and k: "k = ORDINAL"
    by (auto simp: tol_disc_def split: prod.splits)
  then obtain w sp where "s = w @ ''_'' @ sp @ d @ r" "w = [] \<or> w = [backslash]"
    "\<forall>c \<in> set sp. is_space c" "d \<noteq> []" "\<forall>c \<in> set d. is_digit c"
    using tol_ordinal_split by blast
  with k show ?thesis
    by (intro exI [of _ "w @ ''_'' @ sp @ d"]) (auto simp: valid_disc_def bracket_free_class bracket_free_slash)
qed

lemma tol_close_shape:
  assumes "tol_close s = Some r"
  shows "\<exists>w. s = w @ CHR ''>'' # r \<and> bracket_free w"
proof -
  obtain sp w where "s = sp @ w @ ''>'' @ r" "\<forall>c \<in> set sp. is_space c" "w = [] \<or> w = [backslash]"
    using tol_close_split [OF assms] by blast
  then show ?thesis
    by (intro exI [of _ "sp @ w"]) (auto simp: bracket_free_class bracket_free_slash)
qed

lemma skip_label_bracket_free:
  assumes "skip_label l s = Some r" "\<forall>c \<in> set l. label_char c"
  shows "bracket_free (take (length l) s)"
  using assms
proof (induction l s rule: skip_label.induct)
  case (3 l ls c cs)
  then have "upper_char c = l" "label_char l" by (auto simp: lower_char_label_upper split: if_splits)
  then have "c \<noteq> CHR ''<'' \<and> c \<noteq> CHR ''>''"
    by (auto simp: upper_char_def is_lower_def label_char_def is_upper_def)
  with 3 show ?case by (auto split: if_splits)
qed auto

lemma TOLERANT_PATTERN_shape:
  assumes "TOLERANT_PATTERN s = Some (t, (k, d), r)"
  shows "\<exists>w body. s = w @ CHR ''<'' # body @ CHR ''>'' # r \<and> (w = [] \<or> w = [backslash])
    \<and> bracket_free body"
    and "\<exists>e \<in> set ENTITY_VOCABULARY. valid_disc k d \<and> canonical_of t (k, d) = grammar_mint e k d"
proof -
  from assms obtain r0 r1 where r0: "skip_slash s = CHR ''<'' # r0"
    and r1: "dropWhile is_space r0 = r1" and a: "tol_alt LABEL r1 = Some (t, (k, d), r)"
    by (auto simp: TOLERANT_PATTERN_def split: list.splits if_splits)
  from a obtain e where e: "e \<in> set ENTITY_VOCABULARY" and tl: "tol_label e r1 = Some ((k, d), r)"
    and t: "t = take (length e) r1"
    by (auto simp: tol_alt_LABEL)
  note lab = vocabulary_label(2) [OF e]
  from tl obtain r2 r3 r4 where r2: "skip_label e r1 = Some r2" and r3: "dropWhile is_space r2 = r3"
    and r4: "tol_disc r3 = Some ((k, d), r4)" and r5: "tol_close r4 = Some r"
    by (auto simp: tol_label_def split: option.splits)
  from skip_slash_split [OF r0] obtain w where w: "s = w @ CHR ''<'' # r0" "w = [] \<or> w = [backslash]" by auto
  from dropWhile_split [OF r1] obtain sp where sp: "r0 = sp @ r1" "\<forall>c \<in> set sp. is_space c" by blast
  from skip_label_Some [OF r2] t have t2: "r1 = t @ r2" by fastforce
  from dropWhile_split [OF r3] obtain sp2 where sp2: "r2 = sp2 @ r3" "\<forall>c \<in> set sp2. is_space c" by blast
  from tol_disc_shape [OF r4] obtain w4 where w4: "r3 = w4 @ r4" "bracket_free w4" and v: "valid_disc k d" by blast
  from tol_close_shape [OF r5] obtain w5 where w5: "r4 = w5 @ CHR ''>'' # r" "bracket_free w5" by blast
  have "s = w @ CHR ''<'' # (sp @ t @ sp2 @ w4 @ w5) @ CHR ''>'' # r"
    using w(1) sp(1) t2 sp2(1) w4(1) w5(1) by simp
  moreover have "bracket_free (sp @ t @ sp2 @ w4 @ w5)"
    using sp(2) sp2(2) w4(2) w5(2) skip_label_bracket_free [OF r2 lab] t
    by (simp add: bracket_free_class)
  ultimately show "\<exists>w body. s = w @ CHR ''<'' # body @ CHR ''>'' # r \<and> (w = [] \<or> w = [backslash])
    \<and> bracket_free body" using w(2) by blast
  have "str_upper t = e" using skip_label_text [OF r2 lab] t by simp
  then have "canonical_of t (k, d) = grammar_mint e k d"
    by (cases k) (simp_all add: canonical_of_def grammar_mint_def)
  with e v show "\<exists>e \<in> set ENTITY_VOCABULARY. valid_disc k d \<and> canonical_of t (k, d) = grammar_mint e k d"
    by blast
qed

end
