(* ===== verification/Grammar_Scan.thy ===== *)
theory Grammar_Scan
  imports Grammar_Facts
begin

text \<open>
  How the tolerant scan composes: a match is not disturbed by what follows it, a text can be cut
  before an opening bracket, the tokens found in a text are exactly its occurrences, and the
  streaming holdback is such a cut.
\<close>

section \<open>A match does not depend on what follows\<close>

lemma span_extend:
  assumes "dropWhile P s \<noteq> []"
  shows "takeWhile P (s @ x) = takeWhile P s" "dropWhile P (s @ x) = dropWhile P s @ x"
  using assms by (auto simp: takeWhile_append dropWhile_append dropWhile_eq_Nil_conv)

lemma span_nonempty:
  assumes "takeWhile Q (dropWhile P s) \<noteq> []"
  shows "dropWhile P s \<noteq> []"
  using assms by (metis takeWhile.simps(1))

lemma tol_close_extend: 
  assumes "tol_close s = Some r"
  shows "tol_close (s @ x) = Some (r @ x)"
proof -
  obtain r1 where r1: "dropWhile is_space s = r1" by simp
  with assms have c: "skip_slash r1 = CHR ''>'' # r" "r1 \<noteq> []"
    by (auto simp: tol_close_def skip_slash_def split: list.splits if_splits)
  then have "skip_slash (r1 @ x) = CHR ''>'' # r @ x"
    by (auto simp: skip_slash_def split: list.splits if_splits)
  moreover have "dropWhile is_space (s @ x) = r1 @ x" using span_extend(2) r1 c(2) by blast
  ultimately show ?thesis by (simp add: tol_close_def)
qed

lemma tol_ordinal_extend:
  assumes "tol_ordinal s = Some (d, r)" "r \<noteq> []"
  shows "tol_ordinal (s @ x) = Some (d, r @ x)"
proof -
  from assms obtain r0 where r0: "skip_slash s = CHR ''_'' # r0"
    and d: "takeWhile is_digit (dropWhile is_space r0) = d" "d \<noteq> []"
    and r: "dropWhile is_digit (dropWhile is_space r0) = r"
    by (auto simp: tol_ordinal_def Let_def split: list.splits if_splits)
  from r0 have "skip_slash (s @ x) = CHR ''_'' # r0 @ x"
    by (auto simp: skip_slash_def split: list.splits if_splits)
  moreover have "dropWhile is_space (r0 @ x) = dropWhile is_space r0 @ x"
    using d span_nonempty by (intro span_extend) blast
  moreover note span_extend [of is_digit "dropWhile is_space r0" x]
  ultimately show ?thesis using d r assms(2) by (simp add: tol_ordinal_def)
qed

lemma tol_handle_extend:
  assumes "tol_handle s = Some (d, r)" "r \<noteq> []"
  shows "tol_handle (s @ x) = Some (d, r @ x)"
proof -
  from assms obtain r0 where r0: "s = CHR '':'' # r0"
    and d: "takeWhile handle_char (dropWhile is_space r0) = d" "d \<noteq> []"
    and r: "dropWhile handle_char (dropWhile is_space r0) = r"
    by (auto simp: tol_handle_def Let_def split: list.splits if_splits)
  have "dropWhile is_space (r0 @ x) = dropWhile is_space r0 @ x"
    using d span_nonempty by (intro span_extend) blast
  moreover note span_extend [of handle_char "dropWhile is_space r0" x]
  ultimately show ?thesis using r0 d r assms(2) by (simp add: tol_handle_def)
qed

lemma tol_handle_not_ordinal: "tol_handle s = Some p \<Longrightarrow> tol_ordinal (s @ x) = None"
  by (auto simp: tol_handle_def tol_ordinal_def skip_slash_def split: list.splits if_splits)

lemma tol_disc_extend:
  assumes "tol_disc s = Some (d, r)" "r \<noteq> []"
  shows "tol_disc (s @ x) = Some (d, r @ x)"
proof (cases "tol_ordinal s")
  case None
  with assms obtain h where h: "tol_handle s = Some (h, r)" "d = (HANDLE, h)"
    by (auto simp: tol_disc_def split: option.splits)
  then show ?thesis
    using tol_handle_extend [OF h(1) assms(2)] tol_handle_not_ordinal [OF h(1)] by (simp add: tol_disc_def)
next
  case (Some p)
  with assms obtain o' where o: "tol_ordinal s = Some (o', r)" "d = (ORDINAL, o')"
    by (auto simp: tol_disc_def split: prod.splits)
  then show ?thesis using tol_ordinal_extend [OF o(1) assms(2)] by (simp add: tol_disc_def)
qed

lemma skip_label_extend: "skip_label l s = Some r \<Longrightarrow> skip_label l (s @ x) = Some (r @ x)"
  by (induction l s rule: skip_label.induct) (auto split: if_splits)

lemma tol_label_extend:
  assumes "tol_label l s = Some (d, r)"
  shows "tol_label l (s @ x) = Some (d, r @ x)"
proof -
  from assms obtain r0 r1 where r0: "skip_label l s = Some r0"
    and d: "tol_disc (dropWhile is_space r0) = Some (d, r1)" and r: "tol_close r1 = Some r"
    by (auto simp: tol_label_def split: option.splits)
  have "r1 \<noteq> []" using r by (auto simp: tol_close_def skip_slash_def)
  moreover have "dropWhile is_space r0 \<noteq> []"
    using tol_disc_suffix [OF d] by (metis append_is_Nil_conv)
  ultimately show ?thesis
    using skip_label_extend [OF r0, of x] tol_disc_extend [OF d, of x] tol_close_extend [OF r, of x]
    by (simp add: tol_label_def span_extend)
qed

lemma TOLERANT_PATTERN_extend:
  assumes "TOLERANT_PATTERN s = Some (t, d, r)"
  shows "TOLERANT_PATTERN (s @ x) = Some (t, d, r @ x)"
proof -
  from assms obtain r0 where r0: "skip_slash s = CHR ''<'' # r0"
    and a: "tol_alt LABEL (dropWhile is_space r0) = Some (t, d, r)"
    by (auto simp: TOLERANT_PATTERN_def split: list.splits if_splits)
  from a obtain l where l: "l \<in> set ENTITY_VOCABULARY"
    and tl: "tol_label l (dropWhile is_space r0) = Some (d, r)"
    and t: "t = take (length l) (dropWhile is_space r0)"
    by (auto simp: tol_alt_LABEL)
  have ne: "dropWhile is_space r0 \<noteq> []" and len: "length l \<le> length (dropWhile is_space r0)"
    using tol_label_suffix [OF tl] by (metis append_Nil2 append_is_Nil_conv length_0_conv not_less_zero, fastforce)
  from r0 have "skip_slash (s @ x) = CHR ''<'' # r0 @ x"
    by (auto simp: skip_slash_def split: list.splits if_splits)
  moreover have "tol_alt LABEL (dropWhile is_space r0 @ x) = Some (t, d, r @ x)"
    using l tol_label_extend [OF tl, of x] t len by (auto simp: tol_alt_LABEL)
  ultimately show ?thesis using ne by (simp add: TOLERANT_PATTERN_def span_extend)
qed

lemma found_extend:
  assumes "found pos s = Some (t, r)"
  shows "found pos (s @ x) = Some (t, r @ x)"
proof -
  from assms obtain l d where m: "TOLERANT_PATTERN s = Some (l, d, r)"
    by (auto simp: found_def Let_def split: option.splits)
  from TOLERANT_PATTERN_shorter [OF m] have "length r \<le> length s" by simp
  with assms m TOLERANT_PATTERN_extend [OF m, of x] show ?thesis
    by (simp add: found_def)
qed

section \<open>Cutting before an opening bracket\<close>

text \<open>
  A continuation that opens a token, directly or behind a backslash, adds nothing to a match that
  started before it.
\<close>

definition opens :: "string \<Rightarrow> bool" where
  "opens x \<longleftrightarrow> (\<exists>v. x = CHR ''<'' # v \<or> x = backslash # CHR ''<'' # v)"

lemma opens_stop: "opens x \<Longrightarrow> \<exists>y ys. x = y # ys \<and> (y = CHR ''<'' \<or> y = backslash)"
  by (auto simp: opens_def)

lemma span_cut:
  assumes "opens x" "\<not> P (CHR ''<'')" "\<not> P backslash"
  shows "takeWhile P (u @ x) = takeWhile P u" "dropWhile P (u @ x) = dropWhile P u @ x"
  using opens_stop [OF assms(1)] assms(2,3)
  by (auto simp: takeWhile_append dropWhile_append takeWhile_eq_all_conv [THEN iffD2])

lemma tol_close_cut:
  assumes "opens x"
  shows "tol_close (u @ x) = map_option (\<lambda>r. r @ x) (tol_close u)"
proof -
  obtain r1 where r1: "dropWhile is_space u = r1" by simp
  have "dropWhile is_space (u @ x) = r1 @ x" using span_cut(2) [OF assms, of is_space u] r1 by simp
  moreover have "(case skip_slash (r1 @ x) of [] \<Rightarrow> None | c # r \<Rightarrow> if c = CHR ''>'' then Some r else None)
    = map_option (\<lambda>r. r @ x) (case skip_slash r1 of [] \<Rightarrow> None | c # r \<Rightarrow> if c = CHR ''>'' then Some r else None)"
    using assms by (cases r1; cases "tl r1") (auto simp: skip_slash_def opens_def)
  ultimately show ?thesis using r1 by (simp only: tol_close_def)
qed

lemma tol_ordinal_cut:
  "opens x \<Longrightarrow> tol_ordinal (u @ x) = map_option (\<lambda>(d, r). (d, r @ x)) (tol_ordinal u)"
  by (cases u) (auto simp: tol_ordinal_def span_cut opens_def skip_slash_def Let_def split: list.splits)

lemma tol_handle_cut:
  "opens x \<Longrightarrow> tol_handle (u @ x) = map_option (\<lambda>(d, r). (d, r @ x)) (tol_handle u)"
  by (cases u) (auto simp: tol_handle_def span_cut opens_def Let_def)

lemma tol_disc_cut:
  "opens x \<Longrightarrow> tol_disc (u @ x) = map_option (\<lambda>(d, r). (d, r @ x)) (tol_disc u)"
  by (auto simp: tol_disc_def tol_ordinal_cut tol_handle_cut split: option.splits)

lemma skip_label_cut:
  assumes "opens x" "\<forall>c \<in> set l. label_char c"
  shows "skip_label l (u @ x) = map_option (\<lambda>r. r @ x) (skip_label l u)"
  using assms(2)
proof (induction l u rule: skip_label.induct)
  case (2 l ls)
  from opens_stop [OF assms(1)] obtain y ys where "x = y # ys" "y = CHR ''<'' \<or> y = backslash" by blast
  with 2 lower_char_label_not [of l y] show ?case by auto
qed auto

lemma tol_label_cut:
  assumes "opens x" "\<forall>c \<in> set l. label_char c"
  shows "tol_label l (u @ x) = map_option (\<lambda>(d, r). (d, r @ x)) (tol_label l u)"
  using assms
  by (auto simp: tol_label_def skip_label_cut span_cut tol_disc_cut tol_close_cut split: option.splits)

lemma tol_alt_cut:
  assumes "opens x" "set ls \<subseteq> set ENTITY_VOCABULARY"
  shows "tol_alt ls (u @ x) = map_option (\<lambda>(t, d, r). (t, d, r @ x)) (tol_alt ls u)"
  using assms(2)
proof (induction ls)
  case Nil
  then show ?case by simp
next
  case (Cons l ls)
  then have lab: "\<forall>c \<in> set l. label_char c" using vocabulary_label by auto
  have "length l \<le> length u" if "tol_label l u = Some (d, r)" for d r
    using tol_label_suffix [OF that] by auto
  with Cons show ?case
    by (auto simp: tol_label_cut [OF assms(1) lab] split: option.splits)
qed

lemma TOLERANT_PATTERN_cut:
  assumes x: "opens x" and u: "u \<noteq> []" and b: "u = [backslash] \<longrightarrow> hd x \<noteq> CHR ''<''"
  shows "TOLERANT_PATTERN (u @ x) = map_option (\<lambda>(t, d, r). (t, d, r @ x)) (TOLERANT_PATTERN u)"
proof -
  have alt: "tol_alt LABEL (dropWhile is_space r @ x)
      = map_option (\<lambda>(t, d, r). (t, d, r @ x)) (tol_alt LABEL (dropWhile is_space r))" for r
    by (rule tol_alt_cut [OF x]) simp
  show ?thesis
  proof (cases "u = [backslash]")
    case True
    with x b show ?thesis by (auto simp: TOLERANT_PATTERN_def opens_def skip_slash_def)
  next
    case False
    have "\<exists>c q. skip_slash u = c # q \<and> skip_slash (u @ x) = c # q @ x"
      using u False by (cases u) (auto simp: skip_slash_def neq_Nil_conv)
    then obtain c q where "skip_slash u = c # q" "skip_slash (u @ x) = c # q @ x" by blast
    then show ?thesis by (simp add: TOLERANT_PATTERN_def span_cut [OF x] alt)
  qed
qed

lemma TOLERANT_PATTERN_cut_None:
  assumes "opens x" "u \<noteq> []" "u = [backslash] \<longrightarrow> hd x \<noteq> CHR ''<''" "TOLERANT_PATTERN u = None"
  shows "TOLERANT_PATTERN (u @ x) = None"
  using TOLERANT_PATTERN_cut [OF assms(1-3)] assms(4) by simp

section \<open>Scanning\<close>

lemma found_None: "found pos s = None \<longleftrightarrow> TOLERANT_PATTERN s = None"
  by (auto simp: found_def Let_def split: option.splits)

lemma found_Some:
  assumes "found pos s = Some (t, r)"
  shows "s = found_text t @ r" and "found_start t = pos" and "found_end t = pos + length (found_text t)"
    and "found_text t \<noteq> []"
proof -
  from assms obtain l d where m: "TOLERANT_PATTERN s = Some (l, d, r)"
    and t: "t = \<lparr>found_text = take (length s - length r) s, canonical = canonical_of l d,
      found_start = pos, found_end = pos + (length s - length r)\<rparr>"
    by (auto simp: found_def Let_def split: option.splits)
  obtain k q where d: "d = (k, q)" by fastforce
  from TOLERANT_PATTERN_shape(1) [of s l k q r] m d obtain w body
    where s: "s = (w @ CHR ''<'' # body @ [CHR ''>'']) @ r" by auto
  have "take (length s - length r) s = w @ CHR ''<'' # body @ [CHR ''>'']" using s by simp
  with s t show "s = found_text t @ r" "found_start t = pos" "found_end t = pos + length (found_text t)"
    "found_text t \<noteq> []" by auto
qed

lemma scan_cut:
  assumes x: "opens x" and u: "u = [] \<or> last u \<noteq> backslash \<or> hd x \<noteq> CHR ''<''"
  shows "scan pos (u @ x) = scan pos u @ scan (pos + length u) x"
  using u
proof (induction pos u rule: scan.induct)
  case (1 pos)
  then show ?case by simp
next
  case (2 pos c cs)
  show ?case
  proof (cases "found pos (c # cs)")
    case None
    then have "found pos ((c # cs) @ x) = None"
      using x "2.prems" unfolding found_None by (intro TOLERANT_PATTERN_cut_None) auto
    moreover have "scan (Suc pos) (cs @ x) = scan (Suc pos) cs @ scan (Suc pos + length cs) x"
      using "2.prems" by (intro "2.IH"(1) [OF None]) auto
    ultimately show ?thesis using None by simp
  next
    case (Some p)
    then obtain t r where f: "found pos (c # cs) = Some (t, r)" by (cases p) auto
    have s: "c # cs = found_text t @ r" and e: "found_end t = pos + length (found_text t)"
      using found_Some [OF f] by auto
    have "length (c # cs) = length (found_text t) + length r" using s by simp
    moreover have "r = [] \<or> last r \<noteq> backslash \<or> hd x \<noteq> CHR ''<''"
      using "2.prems" s by (metis last_appendR list.distinct(1))
    then have "scan (found_end t) (r @ x) = scan (found_end t) r @ scan (found_end t + length r) x"
      using "2.IH"(2) [OF f refl] by blast
    ultimately show ?thesis using f found_extend [OF f, of x] e by (simp add: add.assoc)
  qed
qed

lemma scan_minted:
  assumes "e \<in> set ENTITY_VOCABULARY" "valid_disc k d"
  shows "scan pos (grammar_mint e k d @ s) =
    Tok \<lparr>found_text = grammar_mint e k d, canonical = grammar_mint e k d, found_start = pos,
         found_end = pos + length (grammar_mint e k d)\<rparr>
    # scan (pos + length (grammar_mint e k d)) s"
proof -
  obtain c cs where c: "grammar_mint e k d @ s = c # cs" by (simp add: grammar_mint_eq)
  show ?thesis using found_minted [OF assms, of pos s] unfolding c by simp
qed

lemma scan_literal:
  assumes "c \<noteq> CHR ''<''" "c \<noteq> backslash"
  shows "scan pos (c # s) = Lit c # scan (Suc pos) s"
  using assms by (simp add: found_def TOLERANT_PATTERN_def skip_slash_def)

lemma scan_literals:
  assumes "\<forall>c \<in> set u. c \<noteq> CHR ''<'' \<and> c \<noteq> backslash"
  shows "scan pos (u @ s) = map Lit u @ scan (pos + length u) s"
  using assms by (induction u arbitrary: pos) (simp_all add: scan_literal del: scan.simps)

text \<open>The offset only shifts the occurrences: what they are does not depend on it.\<close>

lemma render_scan_pos:
  assumes "\<And>t t'. found_text t = found_text t' \<Longrightarrow> canonical t = canonical t' \<Longrightarrow> f t = f t'"
  shows "render f (scan pos s) = render f (scan pos' s)"
proof (induction pos s arbitrary: pos' rule: scan.induct)
  case (1 pos)
  then show ?case by simp
next
  case (2 pos c cs)
  show ?case
  proof (cases "TOLERANT_PATTERN (c # cs)")
    case None
    then have n: "found pos (c # cs) = None" "found pos' (c # cs) = None" by (simp_all add: found_None)
    show ?thesis using "2.IH"(1) [OF n(1)] n by simp
  next
    case (Some p)
    obtain l d r where m: "TOLERANT_PATTERN (c # cs) = Some (l, d, r)" using Some by (cases p) auto
    define t where "t q = \<lparr>found_text = take (length (c # cs) - length r) (c # cs),
      canonical = canonical_of l d, found_start = q, found_end = q + (length (c # cs) - length r)\<rparr>" for q
    have f: "found q (c # cs) = Some (t q, r)" for q
      using m by (simp add: found_def t_def Let_def)
    have "f (t pos) = f (t pos')" by (rule assms) (simp_all add: t_def)
    then show ?thesis
      using "2.IH"(2) [OF f refl, of "found_end (t pos')"] f [of pos] f [of pos'] by simp
  qed
qed

lemma render_scan_id:
  assumes "\<And>t. t \<in> set (tokens_in (scan pos s)) \<Longrightarrow> f t = found_text t"
  shows "render f (scan pos s) = s"
  using assms
proof (induction pos s rule: scan.induct)
  case (1 pos)
  then show ?case by simp
next
  case (2 pos c cs)
  show ?case
  proof (cases "found pos (c # cs)")
    case None
    with 2 show ?thesis by simp
  next
    case (Some p)
    obtain t r where f: "found pos (c # cs) = Some (t, r)" using Some by (cases p) auto
    have "render f (scan (found_end t) r) = r"
      using "2.prems" f by (intro "2.IH"(2) [OF f refl]) auto
    moreover have "f t = found_text t" using "2.prems" f by simp
    ultimately show ?thesis using f found_Some(1) [OF f, symmetric] by simp
  qed
qed

lemma render_append: "render f (a @ b) = render f a @ render f b"
  by (induction a rule: render.induct [of "\<lambda>_ a. render f (a @ b) = render f a @ render f b" f]) auto

lemma tokens_in_append: "tokens_in (a @ b) = tokens_in a @ tokens_in b"
  by (induction a rule: tokens_in.induct) auto

lemma render_map_Lit [simp]: "render f (map Lit u) = u"
  by (induction u) auto

lemma tokens_in_map_Lit [simp]: "tokens_in (map Lit u) = []"
  by (induction u) auto

section \<open>The tokens of a text are its occurrences\<close>

definition occurs :: "string \<Rightarrow> string \<Rightarrow> bool" where
  "occurs c s \<longleftrightarrow> (\<exists>u v l d r. s = u @ v \<and> TOLERANT_PATTERN v = Some (l, d, r) \<and> c = canonical_of l d)"

lemma occurs_embed: "occurs c g \<Longrightarrow> occurs c (a @ g @ b)"
proof -
  assume "occurs c g"
  then obtain u v l d r where "g = u @ v" "TOLERANT_PATTERN v = Some (l, d, r)" "c = canonical_of l d"
    by (auto simp: occurs_def)
  then have "a @ g @ b = (a @ u) @ (v @ b)" "TOLERANT_PATTERN (v @ b) = Some (l, d, r @ b)"
    by (simp_all add: TOLERANT_PATTERN_extend)
  with \<open>c = canonical_of l d\<close> show ?thesis unfolding occurs_def by blast
qed

text \<open>A match that starts inside another one is the same token without its backslash.\<close>

lemma match_inside_match:
  assumes m: "TOLERANT_PATTERN (m @ r) = Some (l, d, r)" and m': "TOLERANT_PATTERN (m2 @ r) = Some (l', d', r')"
    and split: "m = m1 @ m2" "m2 \<noteq> []"
  shows "canonical_of l' d' = canonical_of l d"
proof -
  obtain k q where d: "d = (k, q)" by fastforce
  obtain w body where mm: "m = w @ CHR ''<'' # body @ [CHR ''>'']" and w: "w = [] \<or> w = [backslash]"
    and bf: "bracket_free body"
    using TOLERANT_PATTERN_shape(1) [of "m @ r" l k q r] m d by auto
  obtain k' q' where d': "d' = (k', q')" by fastforce
  obtain w' body' where v: "m2 @ r = w' @ CHR ''<'' # body' @ CHR ''>'' # r'" and w': "w' = [] \<or> w' = [backslash]"
    using TOLERANT_PATTERN_shape(1) [of "m2 @ r" l' k' q' r'] m' d' by auto
  have last: "last m2 = CHR ''>''" using mm split by (metis last_appendR last_snoc append_Cons append.assoc)
  have lt: "CHR ''<'' \<in> set m2"
  proof -
    have "m2 \<noteq> w'" using last w' split(2) by auto
    with v w' split(2) show ?thesis
      by (cases m2; cases "tl m2") (auto simp: Cons_eq_append_conv)
  qed
  have "skip_slash (m2 @ r) = skip_slash (m @ r)"
  proof -
    have "CHR ''<'' \<notin> set (body @ [CHR ''>''])" using bf by (simp add: bracket_free_def)
    then have no: "body @ [CHR ''>''] \<noteq> z @ m2" for z using lt by (metis Un_iff set_append)
    have one: "m2 = CHR ''<'' # body @ [CHR ''>''] \<or> m2 = m"
    proof (cases m1)
      case Nil
      with split show ?thesis by simp
    next
      case (Cons c cs)
      with split mm w no [of cs] no [of "tl cs"] show ?thesis by (cases cs) auto
    qed
    with mm w show ?thesis by (auto simp: skip_slash_def)
  qed
  with m m' show ?thesis by (simp add: TOLERANT_PATTERN_def)
qed

lemma found_canonical:
  assumes "found pos s = Some (t, r)"
  shows "\<exists>l d. TOLERANT_PATTERN s = Some (l, d, r) \<and> canonical t = canonical_of l d"
  using assms by (auto simp: found_def Let_def split: option.splits)

lemma canonicals_iff_occurs:
  "c \<in> canonical ` set (tokens_in (scan pos s)) \<longleftrightarrow> occurs c s"
proof (induction pos s rule: scan.induct)
  case (1 pos)
  then show ?case by (auto simp: occurs_def TOLERANT_PATTERN_def skip_slash_def)
next
  case (2 pos c' cs)
  show ?case
  proof (cases "found pos (c' # cs)")
    case None
    have "occurs c (c' # cs) \<longleftrightarrow> occurs c cs"
      using None unfolding occurs_def found_None
      by (metis Cons_eq_append_conv append_Cons option.distinct(1))
    with None "2.IH"(1) [OF None] show ?thesis by simp
  next
    case (Some p)
    obtain t r where f: "found pos (c' # cs) = Some (t, r)" using Some by (cases p) auto
    obtain l d where m: "TOLERANT_PATTERN (c' # cs) = Some (l, d, r)" "canonical t = canonical_of l d"
      using found_canonical [OF f] by blast
    have s: "c' # cs = found_text t @ r" and ne: "found_text t \<noteq> []" using found_Some [OF f] by auto
    have "occurs c (c' # cs) \<longleftrightarrow> c = canonical t \<or> occurs c r"
    proof
      assume "occurs c (c' # cs)"
      then obtain u v l' d' r' where v: "found_text t @ r = u @ v"
        "TOLERANT_PATTERN v = Some (l', d', r')" "c = canonical_of l' d'"
        unfolding occurs_def s by auto
      then consider (rest) z where "r = z @ v" | (inside) z where "found_text t = u @ z" "v = z @ r" "z \<noteq> []"
        by (auto simp: append_eq_append_conv2) (metis append_Nil)
      then show "c = canonical t \<or> occurs c r"
      proof cases
        case rest
        with v have "occurs c r" unfolding occurs_def by blast
        then show ?thesis ..
      next
        case inside
        with match_inside_match [of "found_text t" r l d z l' d' r' u] m s v show ?thesis by simp
      qed
    next
      assume "c = canonical t \<or> occurs c r"
      then show "occurs c (c' # cs)"
      proof
        assume "c = canonical t"
        with m show ?thesis unfolding occurs_def by (metis append_Nil)
      next
        assume "occurs c r"
        then show ?thesis using occurs_embed [of c r "found_text t" "[]"] s by simp
      qed
    qed
    with f "2.IH"(2) [OF f refl] show ?thesis by auto
  qed
qed

lemma set_canonical_tokens: "set (canonical_tokens texts) = {c. \<exists>t \<in> set texts. occurs c t}"
proof -
  have "set (canonical_tokens texts) = (\<Union>t \<in> set texts. canonical ` set (tokens_in (scan 0 t)))"
    by (auto simp: canonical_tokens_def find_tokens_def)
  also have "\<dots> = {c. \<exists>t \<in> set texts. c \<in> canonical ` set (tokens_in (scan 0 t))}" by blast
  finally show ?thesis unfolding canonicals_iff_occurs .
qed

lemma occurs_minted:
  assumes "occurs c s"
  shows "\<exists>e k d. e \<in> set ENTITY_VOCABULARY \<and> valid_disc k d \<and> c = grammar_mint e k d"
proof -
  from assms obtain v l d r where m: "TOLERANT_PATTERN v = Some (l, d, r)" "c = canonical_of l d"
    by (auto simp: occurs_def)
  obtain k q where d: "d = (k, q)" by fastforce
  from TOLERANT_PATTERN_shape(2) [of v l k q r] m d show ?thesis by blast
qed

end
