(* ===== verification/Grammar_Props.thy ===== *)
theory Grammar_Props
  imports Grammar_Scan
begin

text \<open>
  The properties of the token grammar: strict parsing inverts minting, a masked entity cannot be
  recognised, what is found is well formed, and the streaming holdback never lets the start of a
  token out.
\<close>

section \<open>Strict parsing\<close>

lemma startswith_unique:
  assumes "startswith s a" "a \<in> set ENTITY_VOCABULARY" "startswith s b" "b \<in> set ENTITY_VOCABULARY"
  shows "a = b"
proof -
  from assms(1,3) have "startswith a b \<or> startswith b a"
    by (metis append_eq_append_conv2 startswith_iff)
  with assms(2,4) vocabulary_prefix show ?thesis by metis
qed

lemma strict_alt_iff:
  assumes "set ls \<subseteq> set ENTITY_VOCABULARY"
  shows "strict_alt ls s = Some (e, k, d) \<longleftrightarrow>
    (e \<in> set ls \<and> startswith s e \<and> strict_disc (drop (length e) s) = Some (k, d))"
  using assms
proof (induction ls)
  case Nil
  then show ?case by simp
next
  case (Cons l ls)
  show ?case
  proof (cases "startswith s l")
    case True
    have u: "m = l" if "startswith s m" "m \<in> set (l # ls)" for m
      using startswith_unique [OF True _ that(1)] Cons.prems that(2) by auto
    then show ?thesis
    proof (cases "strict_disc (drop (length l) s)")
      case None
      with True Cons u show ?thesis by auto
    next
      case (Some p)
      with True u [of e] show ?thesis by (cases p) auto
    qed
  next
    case False
    with Cons show ?thesis by auto
  qed
qed

lemmas strict_alt_LABEL = strict_alt_iff [of LABEL, simplified]

lemma strict_disc_iff:
  "strict_disc s = Some (k, d) \<longleftrightarrow>
     valid_disc k d \<and> s = (case k of ORDINAL \<Rightarrow> CHR ''_'' | HANDLE \<Rightarrow> CHR '':'') # d @ ''>''"
proof
  assume "strict_disc s = Some (k, d)"
  then show "valid_disc k d \<and> s = (case k of ORDINAL \<Rightarrow> CHR ''_'' | HANDLE \<Rightarrow> CHR '':'') # d @ ''>''"
    by (auto simp: strict_disc_def valid_disc_def Let_def split: list.splits if_splits dest: set_takeWhileD)
       (metis takeWhile_dropWhile_id)+
next
  assume "valid_disc k d \<and> s = (case k of ORDINAL \<Rightarrow> CHR ''_'' | HANDLE \<Rightarrow> CHR '':'') # d @ ''>''"
  then show "strict_disc s = Some (k, d)"
    by (cases k) (simp_all add: strict_disc_def valid_disc_def span_until)
qed

lemma parse_iff:
  "parse t = Some p \<longleftrightarrow> parsed_entity p \<in> set ENTITY_VOCABULARY
     \<and> valid_disc (parsed_kind p) (discriminator p)
     \<and> t = grammar_mint (parsed_entity p) (parsed_kind p) (discriminator p)"
  (is "?l \<longleftrightarrow> ?r")
proof -
  obtain e k d where p: "p = \<lparr>parsed_entity = e, parsed_kind = k, discriminator = d\<rparr>" by (cases p)
  have m: "grammar_mint e k d = CHR ''<'' # e @ (case k of ORDINAL \<Rightarrow> CHR ''_'' | HANDLE \<Rightarrow> CHR '':'') # d @ ''>''"
    using grammar_mint_eq [of e k d "[]"] by simp
  have "?l \<longleftrightarrow> STRICT_PATTERN t = Some (e, k, d)"
    by (auto simp: parse_def p split: option.splits)
  also have "\<dots> \<longleftrightarrow> (\<exists>r. t = CHR ''<'' # r \<and> e \<in> set ENTITY_VOCABULARY \<and> startswith r e
      \<and> strict_disc (drop (length e) r) = Some (k, d))"
    by (auto simp: STRICT_PATTERN_def strict_alt_LABEL split: list.splits if_splits)
  also have "\<dots> \<longleftrightarrow> ?r"
    by (auto simp: p m strict_disc_iff startswith_iff)
  finally show ?thesis .
qed

text \<open>
  C4: Strict parsing is exactly the inverse of minting: a string parses to an entity, a kind and a
  discriminator if and only if the entity is in the closed vocabulary, the discriminator is a
  nonempty string of digits (ordinal) or handle characters (handle), and the string is the token
  minted from them.
\<close>

theorem parse_inverts_mint:
  "parse t = Some \<lparr>parsed_entity = e, parsed_kind = k, discriminator = d\<rparr> \<longleftrightarrow>
     e \<in> set ENTITY_VOCABULARY \<and> valid_disc k d \<and> t = grammar_mint e k d"
  by (simp add: parse_iff)

section \<open>Masked entities\<close>

lemma TOLERANT_PATTERN_masked:
  assumes "e \<in> set ENTITY_VOCABULARY"
  shows "TOLERANT_PATTERN (mint_masked e @ s) = None"
proof -
  have ne: "e \<noteq> []" "\<forall>c \<in> set e. label_char c" using vocabulary_label assms by auto
  have sp: "dropWhile is_space (e @ CHR ''>'' # s) = e @ CHR ''>'' # s"
    using ne by (intro dropWhile_hd) (auto simp: hd_append label_char_not_space)
  have "tol_label l (e @ CHR ''>'' # s) = None" if "l \<in> set ENTITY_VOCABULARY" for l
  proof (cases "skip_label l (e @ CHR ''>'' # s)")
    case (Some r)
    with that assms skip_label_self skip_label_unique have "l = e" by metis
    then show ?thesis
      by (simp add: tol_label_def skip_label_self tol_disc_def tol_ordinal_def tol_handle_def skip_slash_def)
  qed (simp add: tol_label_def)
  then have "tol_alt LABEL (e @ CHR ''>'' # s) = None"
    by (metis not_None_eq option.distinct(1) prod_cases3 tol_alt_LABEL)
  then show ?thesis by (simp add: TOLERANT_PATTERN_def mint_masked_def skip_slash_def sp)
qed

lemma TOLERANT_PATTERN_backslash: "opens s \<Longrightarrow> hd s = CHR ''<'' \<Longrightarrow>
    TOLERANT_PATTERN (backslash # s) = TOLERANT_PATTERN s"
  by (auto simp: TOLERANT_PATTERN_def skip_slash_def opens_def)

lemma TOLERANT_PATTERN_literal:
  "c \<noteq> CHR ''<'' \<Longrightarrow> c \<noteq> backslash \<Longrightarrow> TOLERANT_PATTERN (c # s) = None"
  by (simp add: TOLERANT_PATTERN_def skip_slash_def)

lemma label_char_literal: "label_char c \<Longrightarrow> c \<noteq> CHR ''<'' \<and> c \<noteq> backslash"
  by auto

lemma occurs_Cons: "occurs c (x # s) \<longleftrightarrow>
    occurs c s \<or> (\<exists>l d r. TOLERANT_PATTERN (x # s) = Some (l, d, r) \<and> c = canonical_of l d)"
proof
  assume "occurs c (x # s)"
  then obtain u v l d r where uv: "x # s = u @ v" and m: "TOLERANT_PATTERN v = Some (l, d, r)" "c = canonical_of l d"
    by (auto simp: occurs_def)
  show "occurs c s \<or> (\<exists>l d r. TOLERANT_PATTERN (x # s) = Some (l, d, r) \<and> c = canonical_of l d)"
  proof (cases u)
    case Nil
    with uv m show ?thesis by auto
  next
    case (Cons y ys)
    with uv m have "s = ys @ v" by simp
    with m show ?thesis unfolding occurs_def by blast
  qed
next
  assume "occurs c s \<or> (\<exists>l d r. TOLERANT_PATTERN (x # s) = Some (l, d, r) \<and> c = canonical_of l d)"
  then show "occurs c (x # s)"
  proof
    assume "occurs c s"
    then show ?thesis using occurs_embed [of c s "[x]" "[]"] by simp
  next
    assume "\<exists>l d r. TOLERANT_PATTERN (x # s) = Some (l, d, r) \<and> c = canonical_of l d"
    then show ?thesis unfolding occurs_def by (metis append_Nil)
  qed
qed

lemma occurs_Nil [simp]: "\<not> occurs c []"
  by (simp add: occurs_def TOLERANT_PATTERN_def skip_slash_def)

lemma occurs_literals:
  "\<forall>x \<in> set u. x \<noteq> CHR ''<'' \<and> x \<noteq> backslash \<Longrightarrow> occurs c (u @ s) \<longleftrightarrow> occurs c s"
  by (induction u) (auto simp: occurs_Cons TOLERANT_PATTERN_literal)

lemma occurs_masked_head:
  assumes "e \<in> set ENTITY_VOCABULARY"
  shows "occurs c (mint_masked e @ s) \<longleftrightarrow> occurs c s"
proof -
  have "mint_masked e @ s = CHR ''<'' # (e @ ''>'') @ s" by (simp add: mint_masked_def)
  moreover have "occurs c ((e @ ''>'') @ s) \<longleftrightarrow> occurs c s"
    using vocabulary_label(2) [OF assms] label_char_literal by (intro occurs_literals) auto
  ultimately show ?thesis
    using TOLERANT_PATTERN_masked [OF assms, of s] by (simp only: occurs_Cons) simp
qed

lemma occurs_masked:
  assumes e: "e \<in> set ENTITY_VOCABULARY"
  shows "occurs c (pre @ mint_masked e @ post) \<longleftrightarrow> occurs c pre \<or> occurs c post"
proof (induction pre)
  case Nil
  then show ?case by (simp add: occurs_masked_head [OF e])
next
  case (Cons x pre)
  let ?m = "mint_masked e @ post"
  have op: "opens ?m" "hd ?m = CHR ''<''" by (simp_all add: mint_masked_def opens_def)
  have "(\<exists>l d r. TOLERANT_PATTERN ((x # pre) @ ?m) = Some (l, d, r) \<and> c = canonical_of l d) \<longleftrightarrow>
    (\<exists>l d r. TOLERANT_PATTERN (x # pre) = Some (l, d, r) \<and> c = canonical_of l d)"
  proof (cases "x # pre = [backslash]")
    case True
    have "TOLERANT_PATTERN ((x # pre) @ ?m) = None"
      using True TOLERANT_PATTERN_backslash [OF op] TOLERANT_PATTERN_masked [OF e] by simp
    moreover have "TOLERANT_PATTERN [backslash] = None" by (simp add: TOLERANT_PATTERN_def skip_slash_def)
    ultimately show ?thesis using True by simp
  next
    case False
    then have cut: "TOLERANT_PATTERN ((x # pre) @ ?m) =
        map_option (\<lambda>(t, d, r). (t, d, r @ ?m)) (TOLERANT_PATTERN (x # pre))"
      by (intro TOLERANT_PATTERN_cut op) auto
    show ?thesis unfolding cut by (cases "TOLERANT_PATTERN (x # pre)") auto
  qed
  with Cons.IH show ?case by (simp add: occurs_Cons) blast
qed

text \<open>
  C5: Masking is irreversible by construction. Wherever a masked entity of the vocabulary stands in
  a text, the tokens recognised in that text are those of what precedes and what follows it: no
  token is ever read out of the mask, not even together with its surroundings.
\<close>

theorem masked_never_recognised:
  assumes "e \<in> set ENTITY_VOCABULARY"
  shows "set (canonical_tokens [pre @ mint_masked e @ post]) =
    set (canonical_tokens [pre]) \<union> set (canonical_tokens [post])"
  by (auto simp: set_canonical_tokens occurs_masked [OF assms])

theorem masked_never_recognised_witness:
  "set (canonical_tokens [''Dear <PERSON_1> and '' @ mint_masked ''PERSON'' @ ''_2>'']) =
   set (canonical_tokens [''Dear <PERSON_1> and '']) \<union> set (canonical_tokens [''_2>''])"
proof -
  have "''PERSON'' \<in> set ENTITY_VOCABULARY" by code_simp
  then show ?thesis by (rule masked_never_recognised)
qed

section \<open>What is found\<close>

lemma scan_tokens:
  assumes "pos = length pre"
  shows "sorted_wrt (\<lambda>a b. found_end a \<le> found_start b) (tokens_in (scan pos s)) \<and>
   (\<forall>t \<in> set (tokens_in (scan pos s)).
      pos \<le> found_start t \<and> found_start t < found_end t \<and> found_end t \<le> length (pre @ s) \<and>
      found_text t = take (found_end t - found_start t) (drop (found_start t) (pre @ s)))"
  using assms
proof (induction pos s arbitrary: pre rule: scan.induct)
  case (1 pos)
  then show ?case by simp
next
  case (2 pos c cs)
  show ?case
  proof (cases "found pos (c # cs)")
    case None
    have p: "Suc pos = length (pre @ [c])" using "2.prems" by simp
    have sc: "scan pos (c # cs) = Lit c # scan (Suc pos) cs" using None by simp
    have "(pre @ [c]) @ cs = pre @ c # cs" by simp
    with "2.IH"(1) [OF None p] show ?thesis unfolding sc by (auto simp only: tokens_in.simps) 
  next
    case (Some p)
    obtain t r where f: "found pos (c # cs) = Some (t, r)" using Some by (cases p) auto
    note ft = found_Some [OF f]
    have e: "found_end t = length (pre @ found_text t)" using ft(3) "2.prems" by simp
    have s: "pre @ c # cs = (pre @ found_text t) @ r" using ft(1) by simp
    note ih = "2.IH"(2) [OF f refl e]
    have sc: "tokens_in (scan pos (c # cs)) = t # tokens_in (scan (found_end t) r)"
      using f by simp
    have "found_text t = take (found_end t - found_start t) (drop (found_start t) (pre @ c # cs))"
      unfolding s using ft "2.prems" by simp
    moreover have "pos \<le> found_start t" "found_start t < found_end t" "found_end t \<le> length (pre @ c # cs)"
      using ft by (simp, simp, simp only: s e, simp)
    moreover have "pos \<le> found_start a" if "a \<in> set (tokens_in (scan (found_end t) r))" for a
      using ih that ft(3) by fastforce
    ultimately show ?thesis unfolding sc s using ih by simp
  qed
qed

text \<open>
  C7: The occurrences \<open>find\<close> reports are ordered and do not overlap; each one's offsets
  index the text and its \<open>text\<close> is that slice of it; and its canonical form parses strictly to
  an entity of the vocabulary, so the tally of a decode counts every token it saw.
\<close>

theorem find_tokens_well_formed:
  "sorted_wrt (\<lambda>a b. found_end a \<le> found_start b) (find_tokens text)
   \<and> (\<forall>t \<in> set (find_tokens text).
        found_start t < found_end t \<and> found_end t \<le> length text
        \<and> found_text t = take (found_end t - found_start t) (drop (found_start t) text)
        \<and> (\<exists>p. parse (canonical t) = Some p))"
proof -
  have "\<exists>p. parse (canonical t) = Some p" if "t \<in> set (find_tokens text)" for t
  proof -
    have "occurs (canonical t) text"
      using that canonicals_iff_occurs [of "canonical t" 0 "text"] by (auto simp: find_tokens_def)
    from occurs_minted [OF this] obtain e k d where
      "e \<in> set ENTITY_VOCABULARY" "valid_disc k d" "canonical t = grammar_mint e k d" by blast
    then show ?thesis
      by (intro exI [of _ "\<lparr>parsed_entity = e, parsed_kind = k, discriminator = d\<rparr>"]) (simp add: parse_iff)
  qed
  with scan_tokens [of 0 "[]" "text"] show ?thesis by (auto simp: find_tokens_def)
qed

theorem find_tokens_well_formed_witness:
  "let text = ''see <person _ 12'' @ [backslash] @ ''>!''; t = hd (find_tokens text) in
     t \<in> set (find_tokens text) \<and> found_end t \<le> length text
     \<and> found_text t = take (found_end t - found_start t) (drop (found_start t) text)
     \<and> canonical t = ''<PERSON_12>'' \<and> parse (canonical t) \<noteq> None"
proof -
  let ?text = "''see <person _ 12'' @ [backslash] @ ''>!''"
  have "find_tokens ?text \<noteq> []" by code_simp
  then have "hd (find_tokens ?text) \<in> set (find_tokens ?text)" by simp
  moreover have "canonical (hd (find_tokens ?text)) = ''<PERSON_12>''" by code_simp
  ultimately show ?thesis using find_tokens_well_formed [of ?text] by (auto simp: Let_def)
qed

end
