(* ===== verification/Grammar_Holdback.thy ===== *)
theory Grammar_Holdback
  imports Grammar_Scan
begin

text \<open>
  The streaming holdback of the grammar: what is not held back is settled, whatever text follows.
  A match that ends inside a text is a match of that text alone, so a text in which every opening
  bracket is closed can be scanned on its own.
\<close>

section \<open>A match is decided by the matched text\<close>

lemma dropWhile_shrink:
  assumes "dropWhile P (s @ y) = r @ y" "r \<noteq> []"
  shows "dropWhile P s = r"
proof (cases "\<forall>c \<in> set s. P c")
  case True
  then have "length (dropWhile P (s @ y)) \<le> length y"
    by (simp add: dropWhile_append length_dropWhile_le)
  with assms show ?thesis by simp
next
  case False
  then have "dropWhile P (s @ y) = dropWhile P s @ y" by (auto simp: dropWhile_append)
  with assms show ?thesis by simp
qed

lemma span_shrink:
  assumes "dropWhile P (s @ y) = r @ y" "r \<noteq> []"
  shows "takeWhile P (s @ y) = takeWhile P s"
proof -
  have "dropWhile P s \<noteq> []" using dropWhile_shrink [OF assms] assms(2) by simp
  then show ?thesis by (rule span_extend(1))
qed

lemma span_shrink_parts:
  assumes "takeWhile P s = d" "dropWhile P s = r @ y"
  shows "s = (d @ r) @ y" and "r \<noteq> [] \<Longrightarrow> takeWhile P (d @ r) = d"
    and "r \<noteq> [] \<Longrightarrow> dropWhile P (d @ r) = r"
proof -
  show s: "s = (d @ r) @ y" using takeWhile_dropWhile_id [of P s] assms by simp
  assume r: "r \<noteq> []"
  have w: "dropWhile P ((d @ r) @ y) = r @ y" using assms(2) s by simp
  show "takeWhile P (d @ r) = d" using span_shrink [OF w r] assms(1) s by simp
  show "dropWhile P (d @ r) = r" by (rule dropWhile_shrink [OF w r])
qed

lemma drop_shrink:
  assumes "dropWhile P s = q @ y" "q \<noteq> []"
  obtains w where "s = (w @ q) @ y" "dropWhile P (w @ q) = q"
proof -
  obtain w where w: "s = w @ q @ y" using dropWhile_split [OF assms(1)] by blast
  have "dropWhile P ((w @ q) @ y) = q @ y" using assms(1) w by simp
  from dropWhile_shrink [OF this assms(2)] w that show thesis by simp
qed

lemma skip_slash_shrink:
  "skip_slash (s @ y) = c # r @ y \<Longrightarrow> skip_slash s = c # r"
  by (cases s) (auto simp: skip_slash_def split: list.splits if_splits dest: arg_cong [where f = length])

lemma suffix_split:
  assumes "s @ y = w @ c # r @ y"
  shows "s = w @ c # r"
  using assms by (metis append.assoc append_Cons append_same_eq)

lemma tol_close_shrink:
  assumes "tol_close (s @ y) = Some (r @ y)"
  shows "tol_close s = Some r"
proof -
  obtain q where q: "skip_slash q = CHR ''>'' # r @ y" and d: "dropWhile is_space (s @ y) = q"
    using assms by (auto simp: tol_close_def split: list.splits if_splits)
  obtain q' where q': "q = q' @ y" "q' \<noteq> []"
    using skip_slash_split [OF q] by (metis append_Cons list.distinct(1))
  have "dropWhile is_space s = q'" using dropWhile_shrink d q' by metis
  moreover have "skip_slash q' = CHR ''>'' # r" using q skip_slash_shrink q'(1) by blast
  ultimately show ?thesis by (simp add: tol_close_def)
qed

lemma tol_ordinal_shrink:
  assumes "tol_ordinal (s @ y) = Some (d, r @ y)" "r \<noteq> []"
  shows "tol_ordinal s = Some (d, r)"
proof -
  from assms(1) obtain r0 where r0: "skip_slash (s @ y) = CHR ''_'' # r0"
    and d: "takeWhile is_digit (dropWhile is_space r0) = d" "d \<noteq> []"
    and r: "dropWhile is_digit (dropWhile is_space r0) = r @ y"
    by (auto simp: tol_ordinal_def Let_def split: list.splits if_splits)
  note parts = span_shrink_parts [OF d(1) r]
  obtain w where w: "r0 = (w @ d @ r) @ y" "dropWhile is_space (w @ d @ r) = d @ r"
    using drop_shrink [OF parts(1)] assms(2) by blast
  have "skip_slash s = CHR ''_'' # w @ d @ r"
    using skip_slash_shrink [of s y "CHR ''_''" "w @ d @ r"] r0 w(1) by simp
  then show ?thesis using d(2) w(2) parts(2,3) [OF assms(2)] by (simp add: tol_ordinal_def)
qed

lemma tol_handle_shrink:
  assumes "tol_handle (s @ y) = Some (d, r @ y)" "r \<noteq> []"
  shows "tol_handle s = Some (d, r)"
proof -
  from assms(1) obtain r0 where r0: "s @ y = CHR '':'' # r0"
    and d: "takeWhile handle_char (dropWhile is_space r0) = d" "d \<noteq> []"
    and r: "dropWhile handle_char (dropWhile is_space r0) = r @ y"
    by (auto simp: tol_handle_def Let_def split: list.splits if_splits)
  note parts = span_shrink_parts [OF d(1) r]
  obtain w where w: "r0 = (w @ d @ r) @ y" "dropWhile is_space (w @ d @ r) = d @ r"
    using drop_shrink [OF parts(1)] assms(2) by blast
  have "s @ y = (CHR '':'' # w @ d @ r) @ y" using r0 w(1) by simp
  then have "s = CHR '':'' # w @ d @ r" by (simp only: append_same_eq)
  then show ?thesis using d(2) w(2) parts(2,3) [OF assms(2)] by (simp add: tol_handle_def)
qed

lemma tol_disc_shrink:
  assumes "tol_disc (s @ y) = Some (d, r @ y)" "r \<noteq> []"
  shows "tol_disc s = Some (d, r)"
proof (cases "tol_ordinal (s @ y)")
  case None
  with assms obtain h where h: "tol_handle (s @ y) = Some (h, r @ y)" "d = (HANDLE, h)"
    by (auto simp: tol_disc_def split: option.splits)
  note h' = tol_handle_shrink [OF h(1) assms(2)]
  from tol_handle_not_ordinal [OF h', of "[]"] h' h(2) show ?thesis by (simp add: tol_disc_def)
next
  case (Some p)
  with assms obtain o' where o: "tol_ordinal (s @ y) = Some (o', r @ y)" "d = (ORDINAL, o')"
    by (auto simp: tol_disc_def split: prod.splits)
  from tol_ordinal_shrink [OF o(1) assms(2)] o(2) show ?thesis by (simp add: tol_disc_def)
qed

lemma skip_label_shrink:
  assumes "skip_label l (s @ y) = Some (r @ y)"
  shows "skip_label l s = Some r"
  using assms
proof (induction l s rule: skip_label.induct)
  case (2 l ls)
  then show ?case by (auto dest!: skip_label_Some arg_cong [where f = length])
qed (auto split: if_splits)

lemma tol_label_shrink:
  assumes "tol_label l (s @ y) = Some (d, r @ y)"
  shows "tol_label l s = Some (d, r)"
proof -
  from assms obtain r0 r1 where r0: "skip_label l (s @ y) = Some r0"
    and d: "tol_disc (dropWhile is_space r0) = Some (d, r1)" and r: "tol_close r1 = Some (r @ y)"
    by (auto simp: tol_label_def split: option.splits)
  obtain a where a: "r1 = (a @ CHR ''>'' # r) @ y" using tol_close_shape [OF r] by auto
  obtain b where b: "dropWhile is_space r0 = (b @ a @ CHR ''>'' # r) @ y"
    using tol_disc_suffix [OF d] a by auto
  obtain w where w: "r0 = (w @ b @ a @ CHR ''>'' # r) @ y"
    "dropWhile is_space (w @ b @ a @ CHR ''>'' # r) = b @ a @ CHR ''>'' # r"
    using drop_shrink [OF b] by blast
  note w(2)
  moreover have "skip_label l s = Some (w @ b @ a @ CHR ''>'' # r)"
    using skip_label_shrink r0 unfolding w(1) by blast
  moreover have "tol_disc (b @ a @ CHR ''>'' # r) = Some (d, a @ CHR ''>'' # r)"
    using tol_disc_shrink [of "b @ a @ CHR ''>'' # r" y d "a @ CHR ''>'' # r"] d a b by simp
  moreover have "tol_close (a @ CHR ''>'' # r) = Some r" using tol_close_shrink [of "a @ CHR ''>'' # r" y r] r a by simp
  ultimately show ?thesis by (simp add: tol_label_def)
qed

lemma TOLERANT_PATTERN_shrink:
  assumes "TOLERANT_PATTERN (s @ y) = Some (t, d, r @ y)"
  shows "\<exists>t. TOLERANT_PATTERN s = Some (t, d, r)"
proof -
  from assms obtain r0 where r0: "skip_slash (s @ y) = CHR ''<'' # r0"
    and a: "tol_alt LABEL (dropWhile is_space r0) = Some (t, d, r @ y)"
    by (auto simp: TOLERANT_PATTERN_def split: list.splits if_splits)
  from a obtain l where l: "l \<in> set ENTITY_VOCABULARY"
    and tl: "tol_label l (dropWhile is_space r0) = Some (d, r @ y)"
    by (auto simp: tol_alt_LABEL)
  obtain b where b: "dropWhile is_space r0 = (b @ r) @ y" "b @ r \<noteq> []"
    using tol_label_suffix [OF tl] by fastforce
  obtain w where w: "r0 = (w @ b @ r) @ y" "dropWhile is_space (w @ b @ r) = b @ r"
    using drop_shrink [OF b] by blast
  note w(2)
  moreover have "skip_slash s = CHR ''<'' # w @ b @ r"
    using skip_slash_shrink [of s y "CHR ''<''" "w @ b @ r"] r0 w(1) by simp
  moreover have "tol_label l (b @ r) = Some (d, r)" using tol_label_shrink [of l "b @ r" y d r] tl b by simp
  then have "\<exists>t. tol_alt LABEL (b @ r) = Some (t, d, r)" using l by (auto simp: tol_alt_LABEL)
  ultimately show ?thesis by (simp add: TOLERANT_PATTERN_def)
qed

section \<open>Settled texts\<close>

text \<open>Every opening bracket is closed later, and no trailing backslash waits for one.\<close>

definition settled :: "string \<Rightarrow> bool" where
  "settled s \<longleftrightarrow> (\<forall>u v. s = u @ CHR ''<'' # v \<longrightarrow> CHR ''>'' \<in> set v) \<and> (s = [] \<or> last s \<noteq> backslash)"

lemma settled_suffix: "settled (u @ v) \<Longrightarrow> settled v"
  unfolding settled_def by (metis append.assoc append_is_Nil_conv last_appendR)

lemma settled_match:
  assumes s: "settled s" "s \<noteq> []" and m: "TOLERANT_PATTERN (s @ x) = Some (t, d, r)"
  shows "TOLERANT_PATTERN s \<noteq> None"
proof -
  obtain k q where "d = (k, q)" by fastforce
  with m obtain w body where sh: "s @ x = w @ CHR ''<'' # body @ CHR ''>'' # r"
    and w: "w = [] \<or> w = [backslash]" and b: "bracket_free body"
    using TOLERANT_PATTERN_shape(1) [of "s @ x" t k q r] by auto
  have "\<exists>v. s = w @ CHR ''<'' # v"
  proof (cases s)
    case (Cons c cs)
    show ?thesis using w
    proof
      assume "w = []"
      with sh Cons show ?thesis by simp
    next
      assume b: "w = [backslash]"
      with sh Cons s have "cs \<noteq> []" "cs @ x = CHR ''<'' # body @ CHR ''>'' # r" by (auto simp: settled_def)
      then show ?thesis using b sh Cons by (cases cs) auto
    qed
  qed (use s in simp)
  then obtain v where v: "s = w @ CHR ''<'' # v" by blast
  then have gt: "CHR ''>'' \<in> set v" using s(1) by (auto simp: settled_def)
  then obtain v1 v2 where v12: "v = v1 @ CHR ''>'' # v2" "CHR ''>'' \<notin> set v1"
    using split_list_first by metis
  have "v1 @ CHR ''>'' # v2 @ x = body @ CHR ''>'' # r" using sh v v12(1) by simp
  then have "v1 = body \<and> v2 @ x = r"
    using v12(2) b by (auto simp: bracket_free_def append_eq_append_conv2)
       (metis append_Cons append_Nil list.inject list.set_intros(1) neq_Nil_conv)+
  then show ?thesis using TOLERANT_PATTERN_shrink [of s x t d v2] m by auto
qed

lemma scan_settled:
  assumes "settled s"
  shows "scan pos (s @ x) = scan pos s @ scan (pos + length s) x"
  using assms
proof (induction pos s rule: scan.induct)
  case (1 pos)
  then show ?case by simp
next
  case (2 pos c cs)
  show ?case
  proof (cases "found pos (c # cs)")
    case None
    then have "found pos ((c # cs) @ x) = None"
      using settled_match [OF "2.prems"] unfolding found_None by (cases "TOLERANT_PATTERN ((c # cs) @ x)") auto
    moreover have "scan (Suc pos) (cs @ x) = scan (Suc pos) cs @ scan (Suc pos + length cs) x"
      using "2.prems" settled_suffix [of "[c]"] by (intro "2.IH"(1) [OF None]) simp
    ultimately show ?thesis using None by simp
  next
    case (Some p)
    then obtain t r where f: "found pos (c # cs) = Some (t, r)" by (cases p) auto
    have s: "c # cs = found_text t @ r" and e: "found_end t = pos + length (found_text t)"
      using found_Some [OF f] by auto
    have "length (c # cs) = length (found_text t) + length r" using s by simp
    moreover have "scan (found_end t) (r @ x) = scan (found_end t) r @ scan (found_end t + length r) x"
      using "2.IH"(2) [OF f refl] "2.prems" s settled_suffix by metis
    ultimately show ?thesis using f found_extend [OF f, of x] e by (simp add: add.assoc)
  qed
qed

section \<open>The last opening bracket\<close>

lemma rfind_from_last:
  "rfind_from s p lo n = r \<Longrightarrow> lo \<le> j \<Longrightarrow> j < lo + n \<Longrightarrow> (case r of None \<Rightarrow> True | Some i \<Rightarrow> i < j) \<Longrightarrow>
   \<not> startswith (drop j s) p"
proof (induction s p lo n arbitrary: r rule: rfind_from.induct)
  case (2 s p lo n)
  show ?case
  proof (cases "startswith (drop (lo + n) s) p")
    case True
    with "2.prems" show ?thesis by auto
  next
    case False
    with 2 show ?thesis by (cases "j = lo + n") auto
  qed
qed simp

lemma rfind_char:
  "rfind s [c] 0 (length s) = None \<Longrightarrow> c \<notin> set s"
  "rfind s [c] 0 (length s) = Some i \<Longrightarrow> s = take i s @ c # drop (Suc i) s \<and> c \<notin> set (drop (Suc i) s) \<and> i < length s"
proof -
  have hit: "startswith (drop j s) [c] \<longleftrightarrow> s ! j = c" if "j < length s" for j
    using that by (simp add: startswith_iff Cons_nth_drop_Suc [symmetric])
  {
    assume r: "rfind s [c] 0 (length s) = None"
    show "c \<notin> set s"
    proof (cases "s = []")
      case False
      then have "rfind_from s [c] 0 (length s) = None"
        using r by (cases s) (auto simp: rfind_def split: if_splits)
      from rfind_from_last [OF this] hit show ?thesis by (auto simp: in_set_conv_nth)
    qed simp
  next
    assume r: "rfind s [c] 0 (length s) = Some i"
    then have f: "rfind_from s [c] 0 (length s) = Some i"
      by (cases s) (auto simp: rfind_def split: if_splits)
    have i: "i < length s" "s ! i = c" using rfind_from_Some [OF f] hit by auto
    have "c \<notin> set (drop (Suc i) s)"
    proof
      assume "c \<in> set (drop (Suc i) s)"
      then obtain j where "j < length s - Suc i" "drop (Suc i) s ! j = c"
        by (auto simp: in_set_conv_nth)
      then have "Suc i + j < length s" "s ! (Suc i + j) = c" by auto
      with rfind_from_last [OF f, of "Suc i + j"] hit show False by auto
    qed
    with i id_take_nth_drop [OF i(1)]
    show "s = take i s @ c # drop (Suc i) s \<and> c \<notin> set (drop (Suc i) s) \<and> i < length s" by auto
  }
qed

lemma settled_closed:
  assumes "s = u @ CHR ''<'' # v" "CHR ''<'' \<notin> set v" "CHR ''>'' \<in> set v" "last s \<noteq> backslash"
  shows "settled s"
proof -
  have "CHR ''>'' \<in> set q" if "s = p @ CHR ''<'' # q" for p q
  proof -
    from that assms(1) have "u @ CHR ''<'' # v = p @ CHR ''<'' # q" by simp
    then have "set v \<subseteq> set q"
      using assms(2) by (auto simp: append_eq_append_conv2 append_eq_Cons_conv Cons_eq_append_conv)
    with assms(3) show ?thesis by blast
  qed
  with assms(4) show ?thesis by (auto simp: settled_def)
qed

lemma MAX_TOKEN_LENGTH_ge: "67 \<le> MAX_TOKEN_LENGTH"
  by (simp add: MAX_TOKEN_LENGTH_def MAX_DISCRIMINATOR_LENGTH_def)

lemma holdback_split:
  assumes last: "s = [] \<or> last s \<noteq> backslash"
    and fits: "\<And>u v. s = u @ CHR ''<'' # v \<Longrightarrow> CHR ''<'' \<notin> set v \<Longrightarrow> CHR ''>'' \<notin> set v \<Longrightarrow>
                 length v + 2 \<le> MAX_TOKEN_LENGTH"
    and n: "n = length s - holdback_chars s"
  shows "settled s \<and> n = length s \<or>
    opens (drop n s) \<and> (take n s = [] \<or> last (take n s) \<noteq> backslash \<or> hd (drop n s) \<noteq> CHR ''<'')"
proof (cases "rfind s ''<'' 0 (length s)")
  case None
  from rfind_char(1) [OF None] have "CHR ''<'' \<notin> set s" .
  then have "settled s" using last by (auto simp: settled_def)
  with None n show ?thesis by (simp add: holdback_chars_def)
next
  case (Some i)
  note i = rfind_char(2) [OF Some]
  define v where "v = drop (Suc i) s"
  have s: "s = take i s @ CHR ''<'' # v" and v: "CHR ''<'' \<notin> set v" and il: "i < length s"
    using i by (auto simp: v_def)
  have d: "drop i s = CHR ''<'' # v" using Cons_nth_drop_Suc [OF il] s v_def il
    by (metis append_take_drop_id same_append_eq)
  show ?thesis
  proof (cases "CHR ''>'' \<in> set v")
    case True
    then have "holdback_chars s = 0" using Some d by (simp add: holdback_chars_def)
    moreover have "settled s" using settled_closed [OF s v True] last il by auto
    ultimately show ?thesis using n by simp
  next
    case False
    have len: "length s = i + Suc (length v)" using il by (simp add: v_def)
    let ?e = "if 0 < i \<and> s ! (i - 1) = backslash then i - 1 else i"
    have "length s - ?e \<le> MAX_TOKEN_LENGTH" using fits [OF s v False] len by auto
    then have "holdback_chars s = length s - ?e" using Some d False by (simp add: holdback_chars_def Let_def)
    then have ne: "n = ?e" using n len by auto
    show ?thesis
    proof (cases "0 < i \<and> s ! (i - 1) = backslash")
      case True
      then have "drop (i - 1) s = backslash # CHR ''<'' # v"
        using Cons_nth_drop_Suc [of "i - 1" s] il d by simp
      then show ?thesis using ne True by (simp add: opens_def)
    next
      case False
      then have "take i s = [] \<or> last (take i s) \<noteq> backslash"
        using il by (cases i) (auto simp: take_Suc_conv_app_nth)
      then show ?thesis using ne False d by (auto simp: opens_def)
    qed
  qed
qed

lemma holdback_substitute:
  fixes g :: "string \<Rightarrow> string \<Rightarrow> string"
  assumes "s = [] \<or> last s \<noteq> backslash"
    and "\<And>u v. s = u @ CHR ''<'' # v \<Longrightarrow> CHR ''<'' \<notin> set v \<Longrightarrow> CHR ''>'' \<notin> set v \<Longrightarrow>
           length v + 2 \<le> MAX_TOKEN_LENGTH"
    and "n = length s - holdback_chars s"
  shows "substitute (s @ x) (\<lambda>t. g (found_text t) (canonical t)) =
    substitute (take n s) (\<lambda>t. g (found_text t) (canonical t)) @
    substitute (drop n s @ x) (\<lambda>t. g (found_text t) (canonical t))"
proof -
  let ?f = "\<lambda>t. g (found_text t) (canonical t)"
  have n: "n \<le> length s" using assms(3) by simp
  have "scan 0 (take n s @ drop n s @ x) = scan 0 (take n s) @ scan n (drop n s @ x)"
    using holdback_split [OF assms]
  proof
    assume "settled s \<and> n = length s"
    then show ?thesis using scan_settled [of s 0 x] by simp
  next
    assume o: "opens (drop n s) \<and> (take n s = [] \<or> last (take n s) \<noteq> backslash \<or> hd (drop n s) \<noteq> CHR ''<'')"
    then have "opens (drop n s @ x)" "hd (drop n s @ x) = hd (drop n s)" by (auto simp: opens_def)
    then show ?thesis using scan_cut [of "drop n s @ x" "take n s" 0] o n by simp
  qed
  moreover have "render ?f (scan n (drop n s @ x)) = render ?f (scan 0 (drop n s @ x))"
    by (rule render_scan_pos) simp
  moreover have "take n s @ drop n s @ x = s @ x" by (simp only: append.assoc [symmetric] append_take_drop_id)
  ultimately show ?thesis by (simp add: substitute_def render_append)
qed

text \<open>
  C6: The streaming holdback is safe. If a text does not end in a backslash and its last opening
  bracket, while still open, is not older than the longest token, then sending the text less the
  characters held back commits to nothing: whatever follows, substituting tokens in the whole is
  substituting them in what was sent and, separately, in what was held back and what followed. (A
  replacement may depend on the occurrence's text and canonical form, not on its offsets.)
\<close>

theorem holdback_safe:
  fixes g :: "string \<Rightarrow> string \<Rightarrow> string"
  assumes "s = [] \<or> last s \<noteq> backslash"
    and "\<And>u v. s = u @ CHR ''<'' # v \<Longrightarrow> CHR ''<'' \<notin> set v \<Longrightarrow> CHR ''>'' \<notin> set v \<Longrightarrow>
           length v + 2 \<le> MAX_TOKEN_LENGTH"
    and "n = length s - holdback_chars s"
  shows "substitute (s @ x) (\<lambda>t. g (found_text t) (canonical t)) =
    substitute (take n s) (\<lambda>t. g (found_text t) (canonical t)) @
    substitute (drop n s @ x) (\<lambda>t. g (found_text t) (canonical t))"
  using assms by (rule holdback_substitute)

theorem holdback_safe_witness:
  "substitute (''hi <PER'' @ ''SON_1> bye'') (\<lambda>t. if canonical t = ''<PERSON_1>'' then ''Bob'' else found_text t) =
   substitute ''hi '' (\<lambda>t. if canonical t = ''<PERSON_1>'' then ''Bob'' else found_text t) @
   substitute (''<PER'' @ ''SON_1> bye'') (\<lambda>t. if canonical t = ''<PERSON_1>'' then ''Bob'' else found_text t)"
proof -
  have fit: "length v + 2 \<le> MAX_TOKEN_LENGTH" if "''hi <PER'' = u @ CHR ''<'' # v" for u v :: string
  proof -
    have "length v \<le> 7" using arg_cong [OF that, of length] by simp
    then show ?thesis using MAX_TOKEN_LENGTH_ge by simp
  qed
  have "rfind ''hi <PER'' ''<'' 0 (length ''hi <PER'') = Some 3" by code_simp
  then have n: "3 = length ''hi <PER'' - holdback_chars ''hi <PER''"
    using MAX_TOKEN_LENGTH_ge by (simp add: holdback_chars_def)
  have l: "''hi <PER'' = [] \<or> last ''hi <PER'' \<noteq> backslash" by simp
  have t: "take 3 ''hi <PER'' = ''hi ''" "drop 3 ''hi <PER'' = ''<PER''" by simp_all
  show ?thesis
    using holdback_safe [where s = "''hi <PER''" and x = "''SON_1> bye''" and n = 3
      and g = "\<lambda>t c. if c = ''<PERSON_1>'' then ''Bob'' else t", OF l fit n] by (simp only: t)
qed

end
