(* ===== verification/Ciphers.thy ===== *)
theory Ciphers
  imports Pii_Types
begin

text \<open>
  \<open>litellm/pii/store/cipher.py\<close>: the ciphers that seal stored values, with the pieces of the
  Python library they call (UTF-8, URL-safe base64, \<open>secrets.token_hex\<close>).

  A \<open>bytes\<close> value is a list of \<open>char\<close>, one byte each. What the operating system and the
  \<open>cryptography\<close> package answer is a parameter: \<open>urandom k n\<close> is the answer to the k-th draw
  of \<open>n\<close> random bytes, \<open>aes_encrypt\<close> and \<open>aes_decrypt\<close> are \<open>AESGCM(key).encrypt\<close> and
  \<open>.decrypt\<close> (the latter may raise, and then answers the exception's class name), \<open>sha256\<close> the
  digest. An operation that draws randomness takes the number of draws made so far and answers
  the new one.
\<close>

type_synonym bytes = "char list"
type_synonym draws = nat
type_synonym urandom = "draws \<Rightarrow> nat \<Rightarrow> bytes"
type_synonym aes_encrypt = "bytes \<Rightarrow> bytes \<Rightarrow> bytes \<Rightarrow> bytes option \<Rightarrow> bytes"
type_synonym aes_decrypt = "bytes \<Rightarrow> bytes \<Rightarrow> bytes \<Rightarrow> bytes option \<Rightarrow> string + bytes"

section \<open>UTF-8\<close>

definition utf8_char :: "char \<Rightarrow> bytes" where
  "utf8_char c = (let n = (of_char c :: nat) in
     if n < 128 then [c] else [char_of (192 + n div 64), char_of (128 + n mod 64)])"

definition utf8_encode :: "string \<Rightarrow> bytes" where
  "utf8_encode s = concat (map utf8_char s)"

text \<open>
  \<open>None\<close> where Python raises \<open>UnicodeDecodeError\<close>. The model's code points end at 255, so a
  longer sequence counts as undecodable here.
\<close>

fun utf8_decode :: "bytes \<Rightarrow> string option" where
  "utf8_decode [] = Some []"
| "utf8_decode (b # bs) =
     (let n = (of_char b :: nat) in
      if n < 128 then map_option (Cons b) (utf8_decode bs)
      else (case bs of
          [] \<Rightarrow> None
        | c # cs \<Rightarrow>
            (let m = (of_char c :: nat) in
             if (n = 194 \<or> n = 195) \<and> 128 \<le> m \<and> m < 192
             then map_option (Cons (char_of ((n - 192) * 64 + (m - 128)))) (utf8_decode cs)
             else None)))"

section \<open>URL-safe base64\<close>

text \<open>A-Z, a-z, 0-9, the minus sign and the underscore, in this order.\<close>

definition b64_char :: "nat \<Rightarrow> char" where
  "b64_char n =
     (if n < 26 then char_of (n + 65) else if n < 52 then char_of (n + 71)
      else if n < 62 then char_of (n - 4) else if n = 62 then CHR ''-'' else CHR ''_'')"

text \<open>Decoding accepts the standard alphabet's two characters beside the URL-safe ones.\<close>

definition b64_value :: "char \<Rightarrow> nat option" where
  "b64_value c =
     (if is_upper c then Some (of_char c - 65)
      else if is_lower c then Some (of_char c - 71)
      else if is_digit c then Some (of_char c + 4)
      else if c = CHR ''-'' \<or> c = CHR ''+'' then Some 62
      else if c = CHR ''_'' \<or> c = CHR ''/'' then Some 63
      else None)"

fun urlsafe_b64encode :: "bytes \<Rightarrow> string" where
  "urlsafe_b64encode [] = []"
| "urlsafe_b64encode [x] =
     (let a = of_char x in [b64_char (a div 4), b64_char (a mod 4 * 16), CHR ''='', CHR ''=''])"
| "urlsafe_b64encode [x, y] =
     (let a = of_char x; b = of_char y in
      [b64_char (a div 4), b64_char (a mod 4 * 16 + b div 16), b64_char (b mod 16 * 4), CHR ''=''])"
| "urlsafe_b64encode (x # y # z # r) =
     (let a = of_char x; b = of_char y; c = of_char z in
      b64_char (a div 4) # b64_char (a mod 4 * 16 + b div 16) # b64_char (b mod 16 * 4 + c div 64)
      # b64_char (c mod 64) # urlsafe_b64encode r)"

text \<open>
  \<open>binascii.a2b_base64\<close>, not strict: the position in the quad, the bits left over, the pads
  seen. Characters outside the alphabet are skipped, a complete pad ends the input, and a quad
  that is not complete raises \<open>binascii.Error\<close>.
\<close>

fun b64_loop :: "nat \<Rightarrow> nat \<Rightarrow> nat \<Rightarrow> string \<Rightarrow> string + bytes" where
  "b64_loop q l p [] = (if q = 0 then Inr [] else Inl ''Error'')"
| "b64_loop q l p (c # cs) =
     (if c = CHR ''='' then
        (if 2 \<le> q \<and> 4 \<le> q + Suc p then Inr []
         else b64_loop q l (if 2 \<le> q then Suc p else p) cs)
      else (case b64_value c of
          None \<Rightarrow> b64_loop q l p cs
        | Some v \<Rightarrow>
            if q = 0 then b64_loop 1 v 0 cs
            else if q = 1 then map_sum id (Cons (char_of (l * 4 + v div 16))) (b64_loop 2 (v mod 16) 0 cs)
            else if q = 2 then map_sum id (Cons (char_of (l * 16 + v div 4))) (b64_loop 3 (v mod 4) 0 cs)
            else map_sum id (Cons (char_of (l * 64 + v))) (b64_loop 0 0 0 cs)))"

text \<open>A string with a character that is not ASCII raises \<open>ValueError\<close> before it is decoded.\<close>

definition urlsafe_b64decode :: "string \<Rightarrow> string + bytes" where
  "urlsafe_b64decode s =
     (if list_all (\<lambda>c. (of_char c :: nat) < 128) s then b64_loop 0 0 0 s else Inl ''ValueError'')"

section \<open>\<open>secrets.token_hex\<close>\<close>

definition hex_digit :: "nat \<Rightarrow> char" where
  "hex_digit n = ''0123456789abcdef'' ! n"

definition hex :: "bytes \<Rightarrow> string" where
  "hex bs = concat (map (\<lambda>b. [hex_digit (of_char b div 16), hex_digit (of_char b mod 16)]) bs)"

definition token_hex :: "urandom \<Rightarrow> draws \<Rightarrow> nat \<Rightarrow> string" where
  "token_hex urandom k n = hex (urandom k n)"

section \<open>The ciphers\<close>

definition PII_ENCRYPTION_KEY_ENV :: string where
  "PII_ENCRYPTION_KEY_ENV = ''LITELLM_PII_ENCRYPTION_KEY''"

definition AES_GCM_PREFIX :: string where
  "AES_GCM_PREFIX = ''v1:gcm:''"

definition NONCE_BYTES :: nat where "NONCE_BYTES = 12"

definition KEY_BYTES :: nat where "KEY_BYTES = 32"

record ValueCipher =
  seal :: "string \<Rightarrow> draws \<Rightarrow> (pii_error + string) \<times> draws"
  unseal :: "string \<Rightarrow> pii_error + string"

definition NullCipher :: ValueCipher where
  "NullCipher = \<lparr>seal = (\<lambda>plaintext k. (Inr plaintext, k)), unseal = (\<lambda>sealed. Inr sealed)\<rparr>"

definition aesgcm_seal ::
  "urandom \<Rightarrow> aes_encrypt \<Rightarrow> bytes \<Rightarrow> string \<Rightarrow> draws \<Rightarrow> (pii_error + string) \<times> draws" where
  "aesgcm_seal urandom aes_encrypt key plaintext k =
     (if length key \<noteq> KEY_BYTES then
        (Inl (KeyUnavailable (''key is '' @ show_nat (length key) @ '' bytes, expected '' @ show_nat KEY_BYTES)), k)
      else
        (let nonce = urandom k NONCE_BYTES;
             blob = aes_encrypt key nonce (utf8_encode plaintext) None
         in (Inr (AES_GCM_PREFIX @ urlsafe_b64encode (nonce @ blob)), Suc k)))"

definition aesgcm_unseal :: "aes_decrypt \<Rightarrow> bytes \<Rightarrow> string \<Rightarrow> pii_error + string" where
  "aesgcm_unseal aes_decrypt key sealed =
     (if \<not> startswith sealed AES_GCM_PREFIX then Inl (DecodeFailed ''missing AES-GCM prefix'')
      else
        (let failed = (\<lambda>exc. Inl (DecodeFailed (''unseal failed ('' @ exc @ '')''))) in
         case urlsafe_b64decode (drop (length AES_GCM_PREFIX) sealed) of
           Inl exc \<Rightarrow> failed exc
         | Inr raw \<Rightarrow>
             (case aes_decrypt key (take NONCE_BYTES raw) (drop NONCE_BYTES raw) None of
                Inl exc \<Rightarrow> failed exc
              | Inr plain \<Rightarrow>
                  (case utf8_decode plain of None \<Rightarrow> failed ''UnicodeDecodeError'' | Some v \<Rightarrow> Inr v))))"

definition AesGcmCipher :: "urandom \<Rightarrow> aes_encrypt \<Rightarrow> aes_decrypt \<Rightarrow> bytes \<Rightarrow> ValueCipher" where
  "AesGcmCipher urandom aes_encrypt aes_decrypt key =
     \<lparr>seal = aesgcm_seal urandom aes_encrypt key, unseal = aesgcm_unseal aes_decrypt key\<rparr>"

definition from_secret ::
  "(bytes \<Rightarrow> bytes) \<Rightarrow> urandom \<Rightarrow> aes_encrypt \<Rightarrow> aes_decrypt \<Rightarrow> string \<Rightarrow> ValueCipher" where
  "from_secret sha256 urandom aes_encrypt aes_decrypt secret =
     AesGcmCipher urandom aes_encrypt aes_decrypt (sha256 (utf8_encode secret))"

text \<open>\<open>os.getenv\<close> is a parameter; an unset and an empty secret both select the null cipher.\<close>

definition cipher_from_env ::
  "(string \<Rightarrow> string option) \<Rightarrow> (bytes \<Rightarrow> bytes) \<Rightarrow> urandom \<Rightarrow> aes_encrypt \<Rightarrow> aes_decrypt \<Rightarrow> ValueCipher" where
  "cipher_from_env getenv sha256 urandom aes_encrypt aes_decrypt =
     (case getenv PII_ENCRYPTION_KEY_ENV of
        None \<Rightarrow> NullCipher
      | Some secret \<Rightarrow>
          if secret = [] then NullCipher else from_secret sha256 urandom aes_encrypt aes_decrypt secret)"

section \<open>Lemmas: encodings\<close>

lemmas of_char_lt_256 [simp] = nat_of_char_less_256

lemma of_char_of_byte: "m < 256 \<Longrightarrow> (of_char (char_of m :: char) :: nat) = m"
  by (simp only: of_char_of) simp

lemma utf8_decode_char: "utf8_decode (utf8_char c @ bs) = map_option (Cons c) (utf8_decode bs)"
proof (cases "(of_char c :: nat) < 128")
  case True
  then show ?thesis by (simp add: utf8_char_def)
next
  case False
  define n where "n = (of_char c :: nat)"
  have n: "128 \<le> n" "n < 256" using False by (simp_all add: n_def)
  define h m where "h = 192 + n div 64" and "m = 128 + n mod 64"
  have h: "h = 194 \<or> h = 195" and m: "128 \<le> m" "m < 192" unfolding h_def m_def using n by (linarith, simp_all)
  have e: "utf8_char c = [char_of h, char_of m]" using False by (simp add: utf8_char_def n_def h_def m_def Let_def)
  have o: "(of_char (char_of h :: char) :: nat) = h" "(of_char (char_of m :: char) :: nat) = m"
    by (rule of_char_of_byte, use h m in linarith)+
  have "(h - 192) * 64 + (m - 128) = n" unfolding h_def m_def by simp
  then have "char_of ((h - 192) * 64 + (m - 128)) = c" by (simp add: n_def)
  moreover have "\<not> h < 128" using h by auto
  ultimately show ?thesis unfolding e append.simps utf8_decode.simps Let_def o list.case using h m
    by (simp only: if_False if_True simp_thms)
qed

lemma utf8_roundtrip [simp]: "utf8_decode (utf8_encode s) = Some s"
  by (induction s) (simp_all add: utf8_encode_def utf8_decode_char)

lemma b64_char_cases:
  assumes "n < 64"
  obtains "b64_char n = char_of (n + 65)" "n < 26"
  | "b64_char n = char_of (n + 71)" "26 \<le> n" "n < 52"
  | "b64_char n = char_of (n - 4)" "52 \<le> n" "n < 62"
  | "b64_char n = CHR ''-''" "n = 62"
  | "b64_char n = CHR ''_''" "n = 63"
  using assms by (fastforce simp: b64_char_def split: if_splits)

lemma b64_value_char: "n < 64 \<Longrightarrow> b64_value (b64_char n) = Some n"
  by (erule b64_char_cases)
     (simp_all add: b64_value_def is_upper_def is_lower_def is_digit_def of_char_of_byte Let_def, auto)

lemma b64_value_pad: "b64_value (CHR ''='') = None"
  by (simp add: b64_value_def is_upper_def is_lower_def is_digit_def)

lemma b64_char_class:
  assumes "n < 64"
  shows "b64_char n \<noteq> CHR ''=''" "(of_char (b64_char n) :: nat) < 128"
proof -
  show "b64_char n \<noteq> CHR ''=''" using b64_value_char [OF assms] b64_value_pad by auto
  show "(of_char (b64_char n) :: nat) < 128" using assms by (auto elim!: b64_char_cases simp: of_char_of_byte)
qed

text \<open>The sextets of three bytes, and the bytes they give back.\<close>

lemma sextets:
  assumes "(a::nat) < 256" "b < 256" "c < 256"
  shows "a div 4 < 64" "a mod 4 * 16 + b div 16 < 64" "b mod 16 * 4 + c div 64 < 64" "c mod 64 < 64"
    "a mod 4 * 16 < 64" "b mod 16 * 4 < 64"
    "a div 4 * 4 + (a mod 4 * 16 + b div 16) div 16 = a"
    "(a mod 4 * 16 + b div 16) mod 16 * 16 + (b mod 16 * 4 + c div 64) div 4 = b"
    "(b mod 16 * 4 + c div 64) mod 4 * 64 + c mod 64 = c"
  using assms by auto

lemma byte_sextets [simp]:
  "(of_char x :: nat) div 4 < 64" "(of_char x :: nat) mod 4 * 16 + of_char y div 16 < 64"
  "(of_char y :: nat) mod 16 * 4 + of_char z div 64 < 64" "(of_char x :: nat) mod 4 * 16 < 64"
  "(of_char y :: nat) mod 16 * 4 < 64"
  using sextets [of "of_char x" "of_char y" "of_char z"] sextets [of "of_char x" "of_char y" 0] by simp_all

lemma b64_loop_char:
  assumes "v < 64"
  shows "b64_loop 0 0 0 (b64_char v # s) = b64_loop (Suc 0) v 0 s"
    "b64_loop (Suc 0) l 0 (b64_char v # s) = map_sum id (Cons (char_of (l * 4 + v div 16))) (b64_loop 2 (v mod 16) 0 s)"
    "b64_loop 2 l 0 (b64_char v # s) = map_sum id (Cons (char_of (l * 16 + v div 4))) (b64_loop 3 (v mod 4) 0 s)"
    "b64_loop 3 l 0 (b64_char v # s) = map_sum id (Cons (char_of (l * 64 + v))) (b64_loop 0 0 0 s)"
  using assms by (simp_all add: b64_value_char b64_char_class)

lemma b64_loop_pad: "b64_loop 2 l 0 ''=='' = Inr []" "b64_loop 3 l 0 ''='' = Inr []"
  by simp_all

lemma b64_loop_encode: "b64_loop 0 0 0 (urlsafe_b64encode bs) = Inr bs"
proof (induction bs rule: urlsafe_b64encode.induct)
  case 1
  then show ?case by simp
next
  case (2 x)
  have "(of_char x :: nat) div 4 * 4 + of_char x mod 4 * 16 div 16 = of_char x" by simp
  then show ?case by (simp add: Let_def b64_loop_char b64_loop_pad del: b64_loop.simps)
next
  case (3 x y)
  note sx = sextets [of "of_char x" "of_char y" 0]
  then show ?case by (simp add: Let_def b64_loop_char b64_loop_pad del: b64_loop.simps)
next
  case (4 x y z r)
  note sx = sextets [of "of_char x" "of_char y" "of_char z"]
  then show ?case using 4 by (simp add: Let_def b64_loop_char del: b64_loop.simps)
qed

lemma urlsafe_b64encode_ascii: "list_all (\<lambda>c. (of_char c :: nat) < 128) (urlsafe_b64encode bs)"
  by (induction bs rule: urlsafe_b64encode.induct) (auto simp: Let_def b64_char_class(2))

lemma b64_roundtrip [simp]: "urlsafe_b64decode (urlsafe_b64encode bs) = Inr bs"
  by (simp add: urlsafe_b64decode_def urlsafe_b64encode_ascii b64_loop_encode)

section \<open>The contract of a cipher\<close>

locale value_cipher =
  fixes seal :: "string \<Rightarrow> draws \<Rightarrow> (pii_error + string) \<times> draws"
    and unseal :: "string \<Rightarrow> pii_error + string"
  assumes unseal_seal: "seal v k = (Inr sealed, k') \<Longrightarrow> unseal sealed = Inr v"
    and seal_draws: "seal v k = (r, k') \<Longrightarrow> k \<le> k'"
begin

lemma seal_inject:
  "seal v k = (Inr sealed, k1) \<Longrightarrow> seal v' j = (Inr sealed, j1) \<Longrightarrow> v = v'"
  by (metis sum.inject(2) unseal_seal)

end

interpretation null_cipher: value_cipher "seal NullCipher" "unseal NullCipher"
  by unfold_locales (auto simp: NullCipher_def)

text \<open>What the code relies on of \<open>AESGCM\<close> and \<open>os.urandom\<close>.\<close>

definition aead_inverse :: "aes_encrypt \<Rightarrow> aes_decrypt \<Rightarrow> bool" where
  "aead_inverse enc dec \<longleftrightarrow> (\<forall>key nonce plain aad. dec key nonce (enc key nonce plain aad) aad = Inr plain)"

definition draws_sized :: "urandom \<Rightarrow> bool" where
  "draws_sized urandom \<longleftrightarrow> (\<forall>k n. length (urandom k n) = n)"

lemma aesgcm_unseal_seal:
  assumes "aead_inverse enc dec" "draws_sized urandom"
    and "aesgcm_seal urandom enc key v k = (Inr sealed, k')"
  shows "aesgcm_unseal dec key sealed = Inr v"
  using assms
  by (auto simp: aesgcm_seal_def aesgcm_unseal_def aead_inverse_def draws_sized_def Let_def split: if_splits)

lemma aesgcm_value_cipher:
  assumes "aead_inverse enc dec" "draws_sized urandom"
  shows "value_cipher (seal (AesGcmCipher urandom enc dec key)) (unseal (AesGcmCipher urandom enc dec key))"
  using aesgcm_unseal_seal [OF assms]
  by unfold_locales (auto simp: AesGcmCipher_def aesgcm_seal_def Let_def split: if_splits)

end
