(* ===== verification/Codecs.thy ===== *)
theory Codecs
  imports Grammar_Props Grammar_Holdback Ciphers
begin

text \<open>
  The codecs of \<open>litellm/pii/codec/\<close> (\<open>base.py\<close>, \<open>placeholder.py\<close>, \<open>handle.py\<close>,
  \<open>encrypted.py\<close>, \<open>action_aware.py\<close>). The protocol \<open>PiiCodec\<close> is a record of operations, each
  codec a value of it; all of them use the one grammar of the code. A mint may draw randomness, so it
  takes and answers the number of draws.
\<close>

record PiiCodec =
  codec_id :: string
  codec_mint :: "string \<Rightarrow> nat \<Rightarrow> string \<Rightarrow> draws \<Rightarrow> (pii_error + string) \<times> draws"
  codec_recover :: "string \<Rightarrow> (pii_error + string) option"

section \<open>Placeholder and handle codecs\<close>

definition PlaceholderCodec :: PiiCodec where
  "PlaceholderCodec = \<lparr>codec_id = ''placeholder'',
     codec_mint = (\<lambda>ety ordinal value k. (Inr (grammar_mint ety ORDINAL (show_nat ordinal)), k)),
     codec_recover = (\<lambda>token. None)\<rparr>"

definition HANDLE_BYTES :: nat where "HANDLE_BYTES = 8"

definition HandleCodec :: "urandom \<Rightarrow> PiiCodec" where
  "HandleCodec urandom = \<lparr>codec_id = ''handle'',
     codec_mint = (\<lambda>ety ordinal value k. (Inr (grammar_mint ety HANDLE (token_hex urandom k HANDLE_BYTES)), Suc k)),
     codec_recover = (\<lambda>token. None)\<rparr>"

section \<open>Encrypted codec\<close>

definition ENCRYPTED_MARKER :: string where "ENCRYPTED_MARKER = ''e1.''"

definition strip_padding :: "string \<Rightarrow> string" where
  "strip_padding encoded = rev (dropWhile (\<lambda>c. c = CHR ''='') (rev encoded))"

definition restore_padding :: "string \<Rightarrow> string" where
  "restore_padding encoded = encoded @ replicate (nat (- int (length encoded) mod 4)) (CHR ''='')"

definition encrypted_mint ::
  "ValueCipher \<Rightarrow> string \<Rightarrow> nat \<Rightarrow> string \<Rightarrow> draws \<Rightarrow> (pii_error + string) \<times> draws" where
  "encrypted_mint cipher ety ordinal value k =
     (case seal cipher value k of
        (Inl err, k') \<Rightarrow> (Inl err, k')
      | (Inr sealed, k') \<Rightarrow>
          (let packed = strip_padding (urlsafe_b64encode (utf8_encode sealed))
           in (Inr (grammar_mint ety HANDLE (ENCRYPTED_MARKER @ packed)), k')))"

definition encrypted_recover :: "ValueCipher \<Rightarrow> string \<Rightarrow> (pii_error + string) option" where
  "encrypted_recover cipher token =
     (case parse token of
        None \<Rightarrow> None
      | Some parsed \<Rightarrow>
          if parsed_kind parsed \<noteq> HANDLE then None
          else if \<not> startswith (discriminator parsed) ENCRYPTED_MARKER then None
          else
            (let payload = drop (length ENCRYPTED_MARKER) (discriminator parsed);
                 failed = (\<lambda>exc. Some (Inl (DecodeFailed (''malformed encrypted token ('' @ exc @ '')''))))
             in case urlsafe_b64decode (restore_padding payload) of
                  Inl exc \<Rightarrow> failed exc
                | Inr raw \<Rightarrow>
                    (case utf8_decode raw of
                       None \<Rightarrow> failed ''UnicodeDecodeError''
                     | Some sealed \<Rightarrow> Some (unseal cipher sealed))))"

definition EncryptedCodec :: "ValueCipher \<Rightarrow> PiiCodec" where
  "EncryptedCodec cipher = \<lparr>codec_id = ''encrypted'',
     codec_mint = encrypted_mint cipher, codec_recover = encrypted_recover cipher\<rparr>"

section \<open>Action-aware codec\<close>

datatype SpanAction = BLOCK | MASK | ENCODE

fun SpanAction_value :: "SpanAction \<Rightarrow> string" where
  "SpanAction_value BLOCK = ''BLOCK''"
| "SpanAction_value MASK = ''MASK''"
| "SpanAction_value ENCODE = ''ENCODE''"

definition action_for :: "(string, SpanAction) dict \<Rightarrow> SpanAction \<Rightarrow> string \<Rightarrow> SpanAction" where
  "action_for actions default_action ety =
     (case map_of actions ety of None \<Rightarrow> default_action | Some a \<Rightarrow> a)"

definition ActionAwareCodec ::
  "PiiCodec \<Rightarrow> (string, SpanAction) dict \<Rightarrow> SpanAction \<Rightarrow> PiiCodec" where
  "ActionAwareCodec inner actions default_action =
     \<lparr>codec_id = codec_id inner,
      codec_mint = (\<lambda>ety ordinal value k.
        if action_for actions default_action ety = MASK then (Inr (mint_masked ety), k)
        else codec_mint inner ety ordinal value k),
      codec_recover = codec_recover inner\<rparr>"

definition is_reversible :: "(string, SpanAction) dict \<Rightarrow> SpanAction \<Rightarrow> PiiSpan \<Rightarrow> bool" where
  "is_reversible actions default_action sp = (action_for actions default_action (entity_type sp) \<noteq> MASK)"

definition blocked_entities :: "PiiSpan list \<Rightarrow> (string, SpanAction) dict \<Rightarrow> string list" where
  "blocked_entities spans actions =
     dedupe (map entity_type (filter (\<lambda>sp. map_of actions (entity_type sp) = Some BLOCK) spans))"

section \<open>What the transform relies on\<close>

text \<open>
  The contract between a codec and the transform: for the entity types it encodes reversibly
  (\<open>reversible\<close>), a token is one the grammar mints, and two mints of different values never answer
  the same token when the later one comes after the earlier one in draws and, for one entity type,
  in ordinals; for the others it answers the mask and draws nothing.
\<close>

locale token_codec =
  fixes mint :: "string \<Rightarrow> nat \<Rightarrow> string \<Rightarrow> draws \<Rightarrow> (pii_error + string) \<times> draws"
    and reversible :: "string \<Rightarrow> bool"
  assumes minted: "reversible e \<Longrightarrow> mint e n v k = (Inr t, k') \<Longrightarrow>
      k \<le> k' \<and> (\<exists>kd d. valid_disc kd d \<and> t = grammar_mint e kd d)"
    and fresh: "reversible e \<Longrightarrow> reversible e' \<Longrightarrow>
      mint e n v k = (Inr t, k1) \<Longrightarrow> mint e' n' v' j = (Inr t', j1) \<Longrightarrow> k1 \<le> j \<Longrightarrow>
      (e = e' \<longrightarrow> n < n') \<Longrightarrow> (e, v) \<noteq> (e', v') \<Longrightarrow>
      e \<in> set ENTITY_VOCABULARY \<Longrightarrow> e' \<in> set ENTITY_VOCABULARY \<Longrightarrow> t \<noteq> t'"
    and masked: "\<not> reversible e \<Longrightarrow> mint e n v k = (Inr (mint_masked e), k)"
    and draws_mono: "mint e n v k = (r, k') \<Longrightarrow> k \<le> k'"

lemma grammar_mint_inject:
  assumes "e \<in> set ENTITY_VOCABULARY" "e' \<in> set ENTITY_VOCABULARY" "valid_disc k d" "valid_disc k' d'"
  shows "grammar_mint e k d = grammar_mint e' k' d' \<longleftrightarrow> e = e' \<and> k = k' \<and> d = d'"
proof
  assume eq: "grammar_mint e k d = grammar_mint e' k' d'"
  have p: "parse (grammar_mint e k d) = Some \<lparr>parsed_entity = e, parsed_kind = k, discriminator = d\<rparr>"
    "parse (grammar_mint e' k' d') = Some \<lparr>parsed_entity = e', parsed_kind = k', discriminator = d'\<rparr>"
    using assms by (simp_all add: parse_iff)
  from trans [OF p(1) [symmetric, unfolded eq] p(2)] show "e = e' \<and> k = k' \<and> d = d'" by simp
qed simp

lemma valid_show_nat: "valid_disc ORDINAL (show_nat n)"
  using show_nat_digits by (simp add: valid_disc_def)

lemma hex_digit_handle: "n < 16 \<Longrightarrow> handle_char (hex_digit n)"
proof -
  have "list_all (\<lambda>n. handle_char (hex_digit n)) [0..<16]" by code_simp
  then show "n < 16 \<Longrightarrow> handle_char (hex_digit n)" by (simp add: list_all_iff)
qed

lemma byte_nibble [simp]: "(of_char b :: nat) div 16 < 16"
  using of_char_lt_256 [of b] by linarith

lemma valid_hex: "bs \<noteq> [] \<Longrightarrow> valid_disc HANDLE (hex bs)"
  by (cases bs) (auto simp: valid_disc_def hex_def intro!: hex_digit_handle)

interpretation placeholder: token_codec "codec_mint PlaceholderCodec" "\<lambda>_. True"
proof
  fix e n v k t k' assume "codec_mint PlaceholderCodec e n v k = (Inr t, k')"
  then show "k \<le> k' \<and> (\<exists>kd d. valid_disc kd d \<and> t = grammar_mint e kd d)"
    using valid_show_nat by (auto simp: PlaceholderCodec_def)
next
  fix e e' n v k t k1 n' v' j t' j1
  assume "codec_mint PlaceholderCodec e n v k = (Inr t, k1)" "codec_mint PlaceholderCodec e' n' v' j = (Inr t', j1)"
    and lt: "e = e' \<longrightarrow> n < n'" and v: "e \<in> set ENTITY_VOCABULARY" "e' \<in> set ENTITY_VOCABULARY"
  then have "t = grammar_mint e ORDINAL (show_nat n)" "t' = grammar_mint e' ORDINAL (show_nat n')"
    by (auto simp: PlaceholderCodec_def)
  then show "t \<noteq> t'" using lt grammar_mint_inject [OF v valid_show_nat valid_show_nat]
    by (auto dest: show_nat_inj)
qed (auto simp: PlaceholderCodec_def)

text \<open>A codec that masks some entities keeps the contract of the codec it wraps.\<close>

lemma action_aware_token_codec:
  assumes "token_codec (codec_mint inner) (\<lambda>_. True)"
  shows "token_codec (codec_mint (ActionAwareCodec inner actions dflt)) (\<lambda>e. action_for actions dflt e \<noteq> MASK)"
proof -
  note laws = token_codec.minted [OF assms] token_codec.fresh [OF assms] token_codec.draws_mono [OF assms]
  show ?thesis
  proof
    fix e e' n v k t k1 n' v' j t' j1
    assume "action_for actions dflt e \<noteq> MASK" "action_for actions dflt e' \<noteq> MASK"
      "codec_mint (ActionAwareCodec inner actions dflt) e n v k = (Inr t, k1)"
      "codec_mint (ActionAwareCodec inner actions dflt) e' n' v' j = (Inr t', j1)"
      "k1 \<le> j" "e = e' \<longrightarrow> n < n'" "(e, v) \<noteq> (e', v')"
      "e \<in> set ENTITY_VOCABULARY" "e' \<in> set ENTITY_VOCABULARY"
    moreover from this have "codec_mint inner e n v k = (Inr t, k1)" "codec_mint inner e' n' v' j = (Inr t', j1)"
      by (simp_all add: ActionAwareCodec_def)
    ultimately show "t \<noteq> t'" by (intro laws(2) [OF TrueI TrueI])
  qed (use laws(1,3) in \<open>force simp: ActionAwareCodec_def split: if_splits\<close>)+
qed

interpretation aware_placeholder:
  token_codec "codec_mint (ActionAwareCodec PlaceholderCodec actions dflt)"
    "\<lambda>e. action_for actions dflt e \<noteq> MASK"
  for actions dflt
  by (rule action_aware_token_codec) unfold_locales

section \<open>Handles\<close>

lemma hex_digit_inj: "a < 16 \<Longrightarrow> b < 16 \<Longrightarrow> hex_digit a = hex_digit b \<Longrightarrow> a = b"
proof -
  have "distinct ''0123456789abcdef''" by simp
  then show "a < 16 \<Longrightarrow> b < 16 \<Longrightarrow> hex_digit a = hex_digit b \<Longrightarrow> a = b"
    unfolding hex_digit_def by (subst (asm) nth_eq_iff_index_eq) auto
qed

lemma hex_inj: "hex a = hex b \<Longrightarrow> a = b"
proof (induction a arbitrary: b)
  case Nil
  then show ?case by (cases b) (auto simp: hex_def)
next
  case (Cons x xs)
  then obtain y ys where b: "b = y # ys" by (cases b) (auto simp: hex_def)
  from Cons.prems have h: "hex_digit (of_char x div 16) = hex_digit (of_char y div 16)"
    "hex_digit (of_char x mod 16) = hex_digit (of_char y mod 16)" "hex xs = hex ys"
    by (auto simp: b hex_def)
  have "(of_char x :: nat) div 16 = of_char y div 16" "(of_char x :: nat) mod 16 = of_char y mod 16"
    using h(1,2) by (auto intro: hex_digit_inj)
  then have "(of_char x :: nat) = of_char y" by (metis div_mult_mod_eq)
  then have "x = y" by simp
  with Cons.IH h(3) b show ?case by simp
qed

text \<open>
  Handles are as many as there are random byte strings, so they cannot differ for ever: what a batch needs is that they
  differ up to the draw \<open>bound\<close> its encoding ends at. \<open>limited\<close> is the codec that stops there.
\<close>

definition draws_distinct :: "urandom \<Rightarrow> draws \<Rightarrow> bool" where
  "draws_distinct urandom bound \<longleftrightarrow> inj_on (\<lambda>k. urandom k HANDLE_BYTES) {..<bound}"

definition limited :: "draws \<Rightarrow> PiiCodec \<Rightarrow> PiiCodec" where
  "limited bound codec = codec\<lparr>codec_mint := (\<lambda>e n v k. if k < bound then codec_mint codec e n v k else (Inl (TokenSpaceExhausted e), k))\<rparr>"

lemma handle_token_codec:
  assumes "draws_sized urandom" "draws_distinct urandom bound"
  shows "token_codec (codec_mint (limited bound (HandleCodec urandom))) (\<lambda>_. True)"
proof
  have v: "valid_disc HANDLE (token_hex urandom k HANDLE_BYTES)" for k
  proof -
    have "length (urandom k HANDLE_BYTES) = 8" using assms(1) by (simp add: draws_sized_def HANDLE_BYTES_def)
    then show ?thesis unfolding token_hex_def by (intro valid_hex) auto
  qed
  have mint: "k < bound \<and> k' = Suc k \<and> t = grammar_mint e HANDLE (token_hex urandom k HANDLE_BYTES)"
    if "codec_mint (limited bound (HandleCodec urandom)) e n vl k = (Inr t, k')" for e n vl k t k'
    using that by (simp add: limited_def HandleCodec_def split: if_splits)
  {
    fix e n vl k t k' assume "codec_mint (limited bound (HandleCodec urandom)) e n vl k = (Inr t, k')"
    then show "k \<le> k' \<and> (\<exists>kd d. valid_disc kd d \<and> t = grammar_mint e kd d)" using v mint by fastforce
  next
    fix e e' n vl k t k1 n' vl' j t' j1
    assume "codec_mint (limited bound (HandleCodec urandom)) e n vl k = (Inr t, k1)"
      "codec_mint (limited bound (HandleCodec urandom)) e' n' vl' j = (Inr t', j1)"
      and lt: "k1 \<le> j" and voc: "e \<in> set ENTITY_VOCABULARY" "e' \<in> set ENTITY_VOCABULARY"
    note m = this(1,2) [THEN mint]
    have "token_hex urandom k HANDLE_BYTES \<noteq> token_hex urandom j HANDLE_BYTES"
    proof
      assume "token_hex urandom k HANDLE_BYTES = token_hex urandom j HANDLE_BYTES"
      then have "urandom k HANDLE_BYTES = urandom j HANDLE_BYTES" unfolding token_hex_def by (rule hex_inj)
      with assms(2) m have "k = j" unfolding draws_distinct_def inj_on_def by blast
      with m lt show False by simp
    qed
    then show "t \<noteq> t'" using m grammar_mint_inject [OF voc v v] by simp
  }
qed (auto simp: limited_def HandleCodec_def split: if_splits)

section \<open>Encrypted tokens\<close>

lemma b64_char_handle: "n < 64 \<Longrightarrow> handle_char (b64_char n)"
  by (erule b64_char_cases)
     (auto simp: handle_char_def is_upper_def is_lower_def is_digit_def of_char_of_byte Let_def)

definition pads_for :: "string \<Rightarrow> nat" where
  "pads_for core = nat (- int (length core) mod 4)"

lemma pads_for_quad: "pads_for (a # b # c # d # core) = pads_for core"
proof -
  have "- int (length (a # b # c # d # core)) = - int (length core) + (- 1) * 4" by simp
  then show ?thesis unfolding pads_for_def by (simp only: mod_mult_self1)
qed

lemma b64_core:
  "\<exists>core. urlsafe_b64encode bs = core @ replicate (pads_for core) (CHR ''='') \<and>
    (\<forall>c \<in> set core. c \<noteq> CHR ''='' \<and> handle_char c)"
proof (induction bs rule: urlsafe_b64encode.induct)
  case 1
  then show ?case by (simp add: pads_for_def)
next
  case (2 x)
  let ?c = "[b64_char (of_char x div 4), b64_char (of_char x mod 4 * 16)]"
  have "pads_for ?c = 2" by (simp add: pads_for_def)
  then show ?case by (intro exI [of _ ?c]) (simp add: Let_def b64_char_class b64_char_handle numeral_2_eq_2)
next
  case (3 x y)
  let ?c = "[b64_char (of_char x div 4), b64_char (of_char x mod 4 * 16 + of_char y div 16), b64_char (of_char y mod 16 * 4)]"
  have "pads_for ?c = 1" by (simp add: pads_for_def)
  then show ?case by (intro exI [of _ ?c]) (simp add: Let_def b64_char_class b64_char_handle)
next
  case (4 x y z r)
  then obtain core where core: "urlsafe_b64encode r = core @ replicate (pads_for core) (CHR ''='')"
    "\<forall>c \<in> set core. c \<noteq> CHR ''='' \<and> handle_char c" by blast
  let ?c = "b64_char (of_char x div 4) # b64_char (of_char x mod 4 * 16 + of_char y div 16)
    # b64_char (of_char y mod 16 * 4 + of_char z div 64) # b64_char (of_char z mod 64) # core"
  show ?case
    using core by (intro exI [of _ ?c]) (simp add: Let_def b64_char_class b64_char_handle pads_for_quad)
qed

lemma strip_core:
  "\<forall>c \<in> set core. c \<noteq> CHR ''='' \<Longrightarrow> strip_padding (core @ replicate n (CHR ''='')) = core"
  by (cases core rule: rev_cases) (auto simp: strip_padding_def dropWhile_append)

lemma b64_stripped:
  obtains core where "urlsafe_b64encode bs = core @ replicate (pads_for core) (CHR ''='')"
    "strip_padding (urlsafe_b64encode bs) = core" "\<forall>c \<in> set core. handle_char c"
proof -
  obtain core where c: "urlsafe_b64encode bs = core @ replicate (pads_for core) (CHR ''='')"
    "\<forall>c \<in> set core. c \<noteq> CHR ''='' \<and> handle_char c" using b64_core by blast
  have "strip_padding (urlsafe_b64encode bs) = core" unfolding c(1) using c(2) by (intro strip_core) blast
  then show thesis using that c by blast
qed

lemma restore_strip:
  "restore_padding (strip_padding (urlsafe_b64encode bs)) = urlsafe_b64encode bs"
proof -
  obtain core where c: "urlsafe_b64encode bs = core @ replicate (pads_for core) (CHR ''='')"
    "strip_padding (urlsafe_b64encode bs) = core" by (rule b64_stripped)
  show ?thesis unfolding c(2) using c(1) by (simp only: restore_padding_def pads_for_def)
qed

lemma marker_handle: "\<forall>c \<in> set ENCRYPTED_MARKER. handle_char c"
  by (simp add: ENCRYPTED_MARKER_def handle_char_def is_lower_def is_digit_def)

lemma valid_packed: "valid_disc HANDLE (ENCRYPTED_MARKER @ strip_padding (urlsafe_b64encode bs))"
proof -
  obtain core where "strip_padding (urlsafe_b64encode bs) = core" "\<forall>c \<in> set core. handle_char c"
    by (rule b64_stripped)
  then show ?thesis using marker_handle by (auto simp: valid_disc_def ENCRYPTED_MARKER_def)
qed

lemma encrypted_recover_minted:
  assumes "value_cipher (seal c) (unseal c)" "e \<in> set ENTITY_VOCABULARY"
    and m: "encrypted_mint c e n v k = (Inr t, k')"
  shows "encrypted_recover c t = Some (Inr v)"
proof -
  from m obtain sealed where s: "seal c v k = (Inr sealed, k')"
    and t: "t = grammar_mint e HANDLE (ENCRYPTED_MARKER @ strip_padding (urlsafe_b64encode (utf8_encode sealed)))"
    by (auto simp: encrypted_mint_def Let_def split: prod.splits sum.splits)
  have p: "parse t = Some \<lparr>parsed_entity = e, parsed_kind = HANDLE,
      discriminator = ENCRYPTED_MARKER @ strip_padding (urlsafe_b64encode (utf8_encode sealed))\<rparr>"
    unfolding parse_iff by (simp add: t assms(2) valid_packed)
  have "unseal c sealed = Inr v" by (rule value_cipher.unseal_seal [OF assms(1) s])
  then show ?thesis unfolding encrypted_recover_def p by (simp add: restore_strip)
qed

text \<open>A different value is a different token, because the token gives its value back.\<close>

lemma encrypted_token_codec:
  assumes "value_cipher (seal c) (unseal c)"
  shows "token_codec (codec_mint (EncryptedCodec c)) (\<lambda>_. True)"
proof
  fix e n v k t k' assume "codec_mint (EncryptedCodec c) e n v k = (Inr t, k')"
  then show "k \<le> k' \<and> (\<exists>kd d. valid_disc kd d \<and> t = grammar_mint e kd d)"
    using valid_packed value_cipher.seal_draws [OF assms]
    by (fastforce simp: EncryptedCodec_def encrypted_mint_def Let_def split: prod.splits sum.splits)
next
  fix e e' n v k t k1 n' v' j t' j1
  assume m: "codec_mint (EncryptedCodec c) e n v k = (Inr t, k1)" "codec_mint (EncryptedCodec c) e' n' v' j = (Inr t', j1)"
    and ne: "(e, v) \<noteq> (e', v')" and voc: "e \<in> set ENTITY_VOCABULARY" "e' \<in> set ENTITY_VOCABULARY"
  show "t \<noteq> t'"
  proof (cases "v = v'")
    case True
    obtain d d' where "valid_disc HANDLE d" "t = grammar_mint e HANDLE d" "valid_disc HANDLE d'" "t' = grammar_mint e' HANDLE d'"
      using m valid_packed
      by (auto simp: EncryptedCodec_def encrypted_mint_def Let_def split: prod.splits sum.splits)
    with True ne voc grammar_mint_inject show ?thesis by auto
  next
    case False
    from m have "encrypted_mint c e n v k = (Inr t, k1)" "encrypted_mint c e' n' v' j = (Inr t', j1)"
      by (simp_all add: EncryptedCodec_def)
    with voc have "encrypted_recover c t = Some (Inr v)" "encrypted_recover c t' = Some (Inr v')"
      by (auto intro: encrypted_recover_minted [OF assms])
    with False show ?thesis by auto
  qed
qed (use value_cipher.seal_draws [OF assms] in
     \<open>auto simp: EncryptedCodec_def encrypted_mint_def Let_def split: prod.splits sum.splits\<close>)

text \<open>
  C8: A self-contained token recovers its value with no store: whatever the encrypted codec mints
  for a vocabulary entity under an AES-GCM key, its \<open>recover\<close> answers the original value, given
  that \<open>decrypt\<close> inverts \<open>encrypt\<close> and a draw has the length asked for. This covers the UTF-8
  encoding, both base64 layers, the stripped padding, the token grammar and the nonce split.
\<close>

theorem encrypted_codec_roundtrip:
  assumes "aead_inverse enc dec" "draws_sized urandom" "e \<in> set ENTITY_VOCABULARY"
    and "codec_mint (EncryptedCodec (AesGcmCipher urandom enc dec key)) e n v k = (Inr t, k')"
  shows "codec_recover (EncryptedCodec (AesGcmCipher urandom enc dec key)) t = Some (Inr v)"
  using encrypted_recover_minted [OF aesgcm_value_cipher [OF assms(1,2)] assms(3)] assms(4)
  by (simp add: EncryptedCodec_def)

theorem encrypted_codec_roundtrip_witness:
  "let c = EncryptedCodec (AesGcmCipher (\<lambda>k n. replicate n (CHR ''n'')) (\<lambda>key nonce p aad. rev p)
        (\<lambda>key nonce b aad. Inr (rev b)) (replicate 32 (CHR ''k'')))
   in codec_recover c (projr (fst (codec_mint c ''PERSON'' 1 ''Zo'' 0))) = Some (Inr ''Zo'')"
proof -
  let ?e = "\<lambda>key nonce p aad. rev p :: bytes" and ?d = "\<lambda>key nonce b aad. Inr (rev b) :: string + bytes"
    and ?u = "\<lambda>k n. replicate n (CHR ''n'')" and ?k = "replicate 32 (CHR ''k'')"
  let ?c = "EncryptedCodec (AesGcmCipher ?u ?e ?d ?k)"
  have "isl (fst (codec_mint ?c ''PERSON'' 1 ''Zo'' 0)) = False"
    by (simp add: EncryptedCodec_def encrypted_mint_def AesGcmCipher_def aesgcm_seal_def KEY_BYTES_def Let_def)
  then obtain t k' where m: "codec_mint ?c ''PERSON'' 1 ''Zo'' 0 = (Inr t, k')"
    by (cases "codec_mint ?c ''PERSON'' 1 ''Zo'' 0"; cases "fst (codec_mint ?c ''PERSON'' 1 ''Zo'' 0)") auto
  have "aead_inverse ?e ?d" "draws_sized ?u" "''PERSON'' \<in> set ENTITY_VOCABULARY"
    by (simp add: aead_inverse_def, simp add: draws_sized_def, code_simp)
  from encrypted_codec_roundtrip [OF this m] m show ?thesis by (simp add: Let_def)
qed

end
