(* ===== verification/Transform.thy ===== *)
theory Transform
  imports Codecs "HOL-Library.Multiset"
begin

text \<open>
  \<open>litellm/pii/codec/transform.py\<close>: encoding a batch of texts against one token space, and
  decoding a text in one pass. The dicts of the source are association lists, updated in place as a
  Python dict is; the state of the fold carries the number of random draws beside it.
\<close>

definition MINT_ATTEMPT_LIMIT :: nat where "MINT_ATTEMPT_LIMIT = 64"

record Placement =
  text_index :: nat
  placed_span :: PiiSpan
  placed_token :: string

record BatchDraft =
  draft_texts :: "string list"
  draft_tokens :: "IssuedToken list"
  draft_mapping :: "(string, string) dict"
  draft_placements :: "Placement list"

record EncodedDraft =
  encoded_text :: string
  encoded_tokens :: "IssuedToken list"
  encoded_mapping :: "(string, string) dict"

record Minted =
  minted_token :: string
  minted_ordinal :: nat

record Assignment =
  by_value :: "((string \<times> string), string) dict"
  ordinals :: "(string, nat) dict"
  placements :: "Placement list"
  assign_error :: "pii_error option"

text \<open>The loop of \<open>_mint_unused\<close>, with the attempts that are left.\<close>

fun mint_attempts ::
  "PiiCodec \<Rightarrow> string \<Rightarrow> nat \<Rightarrow> string \<Rightarrow> string list \<Rightarrow> nat \<Rightarrow> draws \<Rightarrow> (pii_error + Minted) \<times> draws" where
  "mint_attempts codec ety ordinal value avoid 0 k = (Inl (TokenSpaceExhausted ety), k)"
| "mint_attempts codec ety ordinal value avoid (Suc left) k =
     (case codec_mint codec ety ordinal value k of
        (Inl err, k') \<Rightarrow> (Inl err, k')
      | (Inr candidate, k') \<Rightarrow>
          if candidate \<notin> set avoid
          then (Inr \<lparr>minted_token = candidate, minted_ordinal = ordinal\<rparr>, k')
          else mint_attempts codec ety (Suc ordinal) value avoid left k')"

definition mint_unused ::
  "PiiCodec \<Rightarrow> string \<Rightarrow> nat \<Rightarrow> string \<Rightarrow> string list \<Rightarrow> draws \<Rightarrow> (pii_error + Minted) \<times> draws" where
  "mint_unused codec ety ordinal value avoid k =
     mint_attempts codec ety ordinal value avoid MINT_ATTEMPT_LIMIT k"

text \<open>An index past the texts raises \<open>IndexError\<close> in the source, which ends the batch.\<close>

definition assign ::
  "string list \<Rightarrow> PiiCodec \<Rightarrow> string list \<Rightarrow> nat \<times> PiiSpan \<Rightarrow> Assignment \<times> draws \<Rightarrow> Assignment \<times> draws" where
  "assign texts codec avoid located st =
     (case (st, located) of ((state, k), (index, sp)) \<Rightarrow>
      if assign_error state \<noteq> None then (state, k)
      else if length texts \<le> index then (state\<lparr>assign_error := Some (Raised ''IndexError'')\<rparr>, k)
      else
        (let value = text_from sp (texts ! index);
             identity = (entity_type sp, value)
         in case map_of (by_value state) identity of
              Some existing \<Rightarrow>
                (state\<lparr>placements := placements state @
                   [\<lparr>text_index = index, placed_span = sp, placed_token = existing\<rparr>]\<rparr>, k)
            | None \<Rightarrow>
                (let ordinal = (case map_of (ordinals state) (entity_type sp) of None \<Rightarrow> 0 | Some n \<Rightarrow> n) + 1
                 in case mint_unused codec (entity_type sp) ordinal value avoid k of
                      (Inl err, k') \<Rightarrow> (state\<lparr>assign_error := Some err\<rparr>, k')
                    | (Inr minted, k') \<Rightarrow>
                        (\<lparr>by_value = AList.update identity (minted_token minted) (by_value state),
                          ordinals = AList.update (entity_type sp) (minted_ordinal minted) (ordinals state),
                          placements = placements state @
                            [\<lparr>text_index = index, placed_span = sp, placed_token = minted_token minted\<rparr>],
                          assign_error = None\<rparr>, k'))))"

definition splice_one :: "Placement \<Rightarrow> string \<Rightarrow> string" where
  "splice_one p t = py_slice t 0 (span_start (placed_span p)) @ placed_token p
     @ py_slice t (span_end (placed_span p)) (int (length t))"

definition splice :: "string \<Rightarrow> Placement list \<Rightarrow> string" where
  "splice source ps = fold splice_one (py_sorted_rev (\<lambda>p. span_start (placed_span p)) ps) source"

definition locate :: "PiiSpan list list \<Rightarrow> (nat \<times> PiiSpan) list" where
  "locate spans_by_text =
     concat (map (\<lambda>(i, spans). map (Pair i) (py_sorted span_start spans)) (enumerate 0 spans_by_text))"

definition empty_assignment :: Assignment where
  "empty_assignment = \<lparr>by_value = [], ordinals = [], placements = [], assign_error = None\<rparr>"

definition encode_batch ::
  "string list \<Rightarrow> PiiSpan list list \<Rightarrow> PiiCodec \<Rightarrow> (PiiSpan \<Rightarrow> bool) option \<Rightarrow> draws
   \<Rightarrow> (pii_error + BatchDraft) \<times> draws" where
  "encode_batch texts spans_by_text codec is_rev k =
     (let located = locate spans_by_text in
      if located = [] then
        (Inr \<lparr>draft_texts = texts, draft_tokens = [], draft_mapping = [], draft_placements = []\<rparr>, k)
      else
        (let avoid = canonical_tokens texts in
         case fold (assign texts codec avoid) located (empty_assignment, k) of
           (assigned, k') \<Rightarrow>
             (case assign_error assigned of
                Some err \<Rightarrow> (Inl err, k')
              | None \<Rightarrow>
                  (let encoded = map (\<lambda>(i, t). splice t (filter (\<lambda>p. text_index p = i) (placements assigned)))
                                   (enumerate 0 texts);
                       tokens = map (\<lambda>p. \<lparr>issued_token = placed_token p,
                                  issued_entity = entity_type (placed_span p), issued_codec = codec_id codec\<rparr>)
                                   (placements assigned);
                       reversible = (case is_rev of None \<Rightarrow> (\<lambda>sp. True) | Some f \<Rightarrow> f);
                       mapping = dict_of (map (\<lambda>p. (placed_token p, text_from (placed_span p) (texts ! text_index p)))
                                   (filter (\<lambda>p. reversible (placed_span p)) (placements assigned)))
                   in (Inr \<lparr>draft_texts = encoded, draft_tokens = tokens, draft_mapping = mapping,
                           draft_placements = placements assigned\<rparr>, k')))))"

definition encode_text ::
  "string \<Rightarrow> PiiSpan list \<Rightarrow> PiiCodec \<Rightarrow> draws \<Rightarrow> (pii_error + EncodedDraft) \<times> draws" where
  "encode_text t spans codec k =
     (case encode_batch [t] [spans] codec None k of
        (Inl err, k') \<Rightarrow> (Inl err, k')
      | (Inr batch, k') \<Rightarrow>
          (Inr \<lparr>encoded_text = draft_texts batch ! 0, encoded_tokens = draft_tokens batch,
                encoded_mapping = draft_mapping batch\<rparr>, k'))"

definition decode_text :: "string \<Rightarrow> (string, string) dict \<Rightarrow> string" where
  "decode_text t resolved =
     (if resolved = [] then t
      else substitute t (\<lambda>found. case map_of resolved (canonical found) of
             None \<Rightarrow> found_text found | Some v \<Rightarrow> v))"

section \<open>Well-formed input\<close>

text \<open>
  What a detection answers (see \<open>Spans\<close>): spans of the vocabulary, inside the text, in order and
  disjoint.
\<close>

definition spans_ok :: "string \<Rightarrow> PiiSpan list \<Rightarrow> bool" where
  "spans_ok t spans \<longleftrightarrow>
     (\<forall>sp \<in> set spans. span_in sp (length t) \<and> entity_type sp \<in> set ENTITY_VOCABULARY)
     \<and> sorted_wrt (\<lambda>a b. span_end a \<le> span_start b) spans"

text \<open>No span starts right after a backslash.\<close>

definition unescaped :: "string \<Rightarrow> PiiSpan list \<Rightarrow> bool" where
  "unescaped t spans \<longleftrightarrow>
     (\<forall>sp \<in> set spans. 0 < span_start sp \<longrightarrow> t ! (nat (span_start sp) - 1) \<noteq> backslash)"

text \<open>
  The reference for encoding and decoding: every span of a text replaced by a string of its own,
  in one left to right pass.
\<close>

fun replace_spans :: "(PiiSpan \<Rightarrow> string) \<Rightarrow> string \<Rightarrow> nat \<Rightarrow> PiiSpan list \<Rightarrow> string" where
  "replace_spans f s pos [] = drop pos s"
| "replace_spans f s pos (sp # sps) =
     take (nat (span_start sp) - pos) (drop pos s) @ f sp @ replace_spans f s (nat (span_end sp)) sps"

lemma replace_spans_cong:
  "(\<And>sp. sp \<in> set sps \<Longrightarrow> f sp = g sp) \<Longrightarrow> replace_spans f s pos sps = replace_spans g s pos sps"
  by (induction sps arbitrary: pos) auto

lemma replace_spans_id:
  assumes "spans_ok s sps" "\<forall>sp \<in> set sps. pos \<le> nat (span_start sp)"
  shows "replace_spans (\<lambda>sp. text_from sp s) s pos sps = drop pos s"
  using assms
proof (induction sps arbitrary: pos)
  case (Cons sp sps)
  let ?a = "nat (span_start sp)" and ?b = "nat (span_end sp)"
  have in_s: "span_in sp (length s)" and "spans_ok s sps" "\<forall>x \<in> set sps. ?b \<le> nat (span_start x)"
    using Cons.prems by (auto simp: spans_ok_def intro: nat_mono)
  then have "replace_spans (\<lambda>sp. text_from sp s) s ?b sps = drop ?b s" by (intro Cons.IH)
  moreover have "text_from sp s = take (?b - ?a) (drop ?a s)" by (rule text_from_in [OF in_s])
  moreover have le: "pos \<le> ?a" "?a \<le> ?b" using Cons.prems in_s by (auto simp: span_in_def)
  moreover have "drop ?b s = drop (?b - ?a) (drop ?a s)" using le by simp
  moreover have "drop ?a s = drop (?a - pos) (drop pos s)" using le by simp
  ultimately show ?case by (metis append_take_drop_id replace_spans.simps(2))
qed simp

section \<open>Splicing from the right is replacing from the left\<close>

lemma py_sorted_rev_rev:
  assumes "sorted_wrt (\<lambda>a b. f a < f b) xs"
  shows "py_sorted_rev f xs = rev xs"
proof -
  have "sorted_wrt (\<lambda>a b. f a \<le> f b) xs" using assms by (rule sorted_wrt_mono_rel [rotated]) simp
  then have s: "sorted (map f xs)" by (simp add: sorted_wrt_map)
  have "distinct (map f xs)"
    using assms by (metis sorted_wrt_map strict_sorted_iff)
  then have "inj_on f (set (rev xs))" by (simp add: distinct_map)
  then have "sort_key f (rev xs) = xs" using s by (intro sort_key_inj_key_eq) simp_all
  then show ?thesis by (simp add: py_sorted_rev_def)
qed

lemma foldr_splice:
  assumes "spans_ok s (map placed_span ps)" "\<forall>p \<in> set ps. pos \<le> nat (span_start (placed_span p))" "pos \<le> length s"
    and "\<forall>p \<in> set ps. placed_token p = f (placed_span p)"
  shows "foldr splice_one ps s = take pos s @ replace_spans f s pos (map placed_span ps)"
  using assms
proof (induction ps arbitrary: pos)
  case (Cons p ps)
  let ?sp = "placed_span p"
  let ?a = "nat (span_start ?sp)" and ?b = "nat (span_end ?sp)"
  have in_s: "span_in ?sp (length s)" and ok: "spans_ok s (map placed_span ps)"
    and ge: "\<forall>x \<in> set ps. ?b \<le> nat (span_start (placed_span x))"
    using Cons.prems by (auto simp: spans_ok_def intro: nat_mono)
  have le: "pos \<le> ?a" "?a \<le> ?b" "?b \<le> length s" "0 \<le> span_start ?sp" "0 \<le> span_end ?sp"
    using Cons.prems in_s by (auto simp: span_in_def)
  define rest where "rest = replace_spans f s ?b (map placed_span ps)"
  have ih: "foldr splice_one ps s = take ?b s @ rest"
    unfolding rest_def using Cons.prems(4) by (intro Cons.IH [OF ok ge le(3)]) simp
  have "splice_one p (take ?b s @ rest) = take ?a s @ f ?sp @ rest"
    unfolding splice_one_def py_slice_prefix [OF le(4)] py_slice_suffix [OF le(5)] using le Cons.prems(4) by simp
  moreover have "take ?a s = take pos s @ take (?a - pos) (drop pos s)"
    using le by (metis le_add_diff_inverse take_add)
  ultimately show ?case using ih by (simp add: rest_def)
qed simp

lemma splice_replace:
  assumes ok: "spans_ok s (map placed_span ps)" and f: "\<forall>p \<in> set ps. placed_token p = f (placed_span p)"
  shows "splice s ps = replace_spans f s 0 (map placed_span ps)"
proof -
  have "sorted_wrt (\<lambda>a b. span_end (placed_span a) \<le> span_start (placed_span b)) ps"
    using ok by (simp add: spans_ok_def sorted_wrt_map)
  then have "sorted_wrt (\<lambda>a b. span_start (placed_span a) < span_start (placed_span b)) ps"
    by (rule sorted_wrt_mono_rel [rotated]) (use ok in \<open>auto simp: spans_ok_def span_in_def\<close>)
  then have "splice s ps = foldr splice_one ps s"
    by (simp add: splice_def py_sorted_rev_rev foldr_conv_fold)
  then show ?thesis using foldr_splice [OF ok _ _ f, of 0] by simp
qed

end
