(* ===== verification/Transform_Props.thy ===== *)
theory Transform_Props
  imports Transform
begin

text \<open>
  Correctness of the transform: every span is replaced by the token of its value, equal values share
  a token and different ones never do, and decoding gives the text back, whatever token-like prose it
  already had.
\<close>

section \<open>Decoding a text of tokens\<close>

text \<open>
  A prefix that holds nothing to be decoded, and cannot form anything with what follows: the empty
  text, or a text that ends in a mask.
\<close>

definition inert :: "string set \<Rightarrow> string \<Rightarrow> bool" where
  "inert avoid pre \<longleftrightarrow> (pre = [] \<or> last pre \<noteq> backslash) \<and>
     (\<forall>b c. occurs c (pre @ b) \<longrightarrow> c \<in> avoid \<or> occurs c b)"

lemma inert_Nil [simp]: "inert avoid []"
  by (simp add: inert_def)

lemma last_mint_masked: "last (mint_masked e) = CHR ''>''" "mint_masked e \<noteq> []"
  by (simp_all add: mint_masked_def)

lemma inert_mask:
  assumes "inert avoid pre" "e \<in> set ENTITY_VOCABULARY" "\<forall>c. occurs c g \<longrightarrow> c \<in> avoid"
  shows "inert avoid (pre @ g @ mint_masked e)"
proof -
  have "c \<in> avoid \<or> occurs c b" if o: "occurs c ((pre @ g @ mint_masked e) @ b)" for b c
  proof -
    from o have "c \<in> avoid \<or> occurs c (g @ mint_masked e @ b)"
      using assms(1) by (simp add: inert_def)
    then show ?thesis using occurs_masked [OF assms(2)] assms(3) by blast
  qed
  then show ?thesis by (simp add: inert_def last_mint_masked)
qed

text \<open>The replacement \<open>decode_text\<close> makes, and the part of a text it leaves alone.\<close>

definition restored :: "(string, string) dict \<Rightarrow> FoundToken \<Rightarrow> string" where
  "restored m t = (case map_of m (canonical t) of None \<Rightarrow> found_text t | Some v \<Rightarrow> v)"

lemma render_restored_id:
  assumes "\<forall>c. occurs c s \<longrightarrow> map_of m c = None"
  shows "render (restored m) (scan pos s) = s"
proof (rule render_scan_id)
  fix t assume "t \<in> set (tokens_in (scan pos s))"
  then have "occurs (canonical t) s" using canonicals_iff_occurs [of "canonical t" pos s] by blast
  with assms show "restored m t = found_text t" by (simp add: restored_def)
qed

lemma decode_render: "decode_text t m = render (restored m) (scan 0 t)"
proof (cases "m = []")
  case True
  then show ?thesis using render_restored_id [of t m 0] by (simp add: decode_text_def)
next
  case False
  then show ?thesis by (simp add: decode_text_def substitute_def restored_def [abs_def])
qed

lemma opens_minted: "opens (grammar_mint e k d @ s)" "hd (grammar_mint e k d @ s) = CHR ''<''"
  by (auto simp: opens_def grammar_mint_def split: TokenKind.splits)

lemma last_take_unescaped:
  assumes "unescaped s (sp # sps)" "span_in sp (length s)" "pos \<le> nat (span_start sp)"
  shows "take (nat (span_start sp) - pos) (drop pos s) = [] \<or>
    last (take (nat (span_start sp) - pos) (drop pos s)) \<noteq> backslash"
proof (cases "pos = nat (span_start sp)")
  case False
  let ?a = "nat (span_start sp)" and ?g = "take (nat (span_start sp) - pos) (drop pos s)"
  have a: "pos < ?a" "?a \<le> length s" using assms False by (auto simp: span_in_def)
  then have g: "length ?g = ?a - pos" "?g \<noteq> []" by auto
  then have "last ?g = ?g ! (?a - pos - 1)" by (simp add: last_conv_nth)
  also have "\<dots> = s ! (?a - 1)" using a by simp
  finally show ?thesis using assms(1) a by (simp add: unescaped_def)
qed simp

lemma decode_tokens:
  assumes "spans_ok s sps" "unescaped s sps" "inert avoid pre"
    and avoid: "\<forall>c. occurs c s \<longrightarrow> c \<in> avoid" "\<forall>c \<in> avoid. map_of m c = None"
    and tok: "\<forall>sp \<in> set sps. if rv (entity_type sp)
        then (\<exists>k d. valid_disc k d \<and> f sp = grammar_mint (entity_type sp) k d) \<and> map_of m (f sp) = Some (g sp)
        else f sp = mint_masked (entity_type sp)"
    and "\<forall>sp \<in> set sps. pos \<le> nat (span_start sp)"
  shows "render (restored m) (scan p (pre @ replace_spans f s pos sps)) =
    pre @ replace_spans (\<lambda>sp. if rv (entity_type sp) then g sp else mint_masked (entity_type sp)) s pos sps"
  using assms
proof (induction sps arbitrary: pre pos p)
  case Nil
  have "occurs c (drop pos s) \<Longrightarrow> occurs c s" for c using occurs_embed [of c "drop pos s" "take pos s" "[]"] by simp
  then have "\<forall>c. occurs c (pre @ drop pos s) \<longrightarrow> map_of m c = None"
    using Nil.prems(3-5) unfolding inert_def by blast
  then show ?case by (simp add: render_restored_id)
next
  case (Cons sp sps)
  let ?gap = "take (nat (span_start sp) - pos) (drop pos s)" and ?b = "nat (span_end sp)"
  let ?h = "\<lambda>sp. if rv (entity_type sp) then g sp else mint_masked (entity_type sp)"
  have in_s: "span_in sp (length s)" and voc: "entity_type sp \<in> set ENTITY_VOCABULARY"
    and rest: "spans_ok s sps" "unescaped s sps" "\<forall>x \<in> set sps. ?b \<le> nat (span_start x)"
    using Cons.prems(1,2) by (auto simp: spans_ok_def unescaped_def intro: nat_mono)
  have "occurs c ?gap \<Longrightarrow> occurs c s" for c
    using occurs_embed [of c ?gap "take pos s" "drop (nat (span_start sp) - pos) (drop pos s)"]
    by (simp only: append_take_drop_id)
  then have gap: "\<forall>c. occurs c ?gap \<longrightarrow> c \<in> avoid" using Cons.prems(4) by blast
  have ih: "render (restored m) (scan p' (pre' @ replace_spans f s ?b sps)) = pre' @ replace_spans ?h s ?b sps"
    if "inert avoid pre'" for pre' p'
    using Cons.prems(6) by (intro Cons.IH rest that Cons.prems(4,5)) simp
  show ?case
  proof (cases "rv (entity_type sp)")
    case False
    have "inert avoid (pre @ ?gap @ mint_masked (entity_type sp))"
      by (rule inert_mask [OF Cons.prems(3) voc gap])
    from ih [OF this] False Cons.prems(6) show ?thesis by simp
  next
    case True
    with Cons.prems(6) obtain k d where t: "valid_disc k d" "f sp = grammar_mint (entity_type sp) k d"
      "map_of m (f sp) = Some (g sp)" by auto
    let ?u = "pre @ ?gap" and ?x = "f sp @ replace_spans f s ?b sps"
    have "?u = [] \<or> last ?u \<noteq> backslash"
      using last_take_unescaped [OF Cons.prems(2) in_s] Cons.prems(3,7) by (auto simp: inert_def last_append)
    then have cut: "scan p (?u @ ?x) = scan p ?u @ scan (p + length ?u) ?x"
      using opens_minted [of "entity_type sp" k d "replace_spans f s ?b sps"] t(2) by (intro scan_cut) simp_all
    have "render (restored m) (scan p ?u) = ?u"
      using Cons.prems(3,5) gap by (intro render_restored_id) (auto simp: inert_def)
    moreover have "render (restored m) (scan q ?x) = g sp @ replace_spans ?h s ?b sps" for q
      using ih [of "[]"] t by (simp add: scan_minted [OF voc t(1)] restored_def del: scan.simps)
    ultimately show ?thesis using cut True by (simp add: render_append)
  qed
qed

section \<open>The assignment of tokens\<close>

definition ordinal_of :: "Assignment \<Rightarrow> string \<Rightarrow> nat" where
  "ordinal_of st e = (case map_of (ordinals st) e of None \<Rightarrow> 0 | Some n \<Rightarrow> n)"

definition value_of :: "string list \<Rightarrow> Placement \<Rightarrow> string" where
  "value_of texts p = text_from (placed_span p) (texts ! text_index p)"

text \<open>The spans of a batch, text by text.\<close>

lemma filter_locate:
  "filter (\<lambda>x. fst x = n + i) (concat (map (\<lambda>(i, spans). map (Pair i) (py_sorted span_start spans)) (enumerate n sbt)))
    = (if i < length sbt then map (Pair (n + i)) (py_sorted span_start (sbt ! i)) else [])"
proof (induction sbt arbitrary: n i)
  case (Cons x sbt)
  show ?case
  proof (cases i)
    case 0
    have "filter (\<lambda>x. fst x = n) (concat (map (\<lambda>(i, spans). map (Pair i) (py_sorted span_start spans)) (enumerate (Suc n) sbt))) = []"
      by (auto simp: filter_empty_conv in_set_enumerate_eq)
    with 0 show ?thesis by (simp add: filter_map comp_def)
  next
    case (Suc j)
    have "filter (\<lambda>x. fst x = n + i) (map (Pair n) (py_sorted span_start x)) = []"
      by (auto simp: filter_empty_conv Suc)
    with Suc Cons.IH [of "Suc n" j] show ?thesis by simp
  qed
qed simp

lemma filter_locate_0:
  "i < length sbt \<Longrightarrow> filter (\<lambda>x. fst x = i) (locate sbt) = map (Pair i) (py_sorted span_start (sbt ! i))"
  using filter_locate [of 0 i sbt] by (simp add: locate_def)

lemma set_locate: "set (locate sbt) = {(i, sp). i < length sbt \<and> sp \<in> set (sbt ! i)}"
  by (force simp: locate_def in_set_enumerate_eq)

lemma spans_ok_sorted: "spans_ok t spans \<Longrightarrow> py_sorted span_start spans = spans"
proof -
  assume ok: "spans_ok t spans"
  then have "sorted_wrt (\<lambda>a b. span_end a \<le> span_start b) spans" by (simp add: spans_ok_def)
  then have "sorted_wrt (\<lambda>a b. span_start a \<le> span_start b) spans"
    by (rule sorted_wrt_mono_rel [rotated]) (use ok in \<open>auto simp: spans_ok_def span_in_def\<close>)
  then show ?thesis by (simp add: py_sorted_def sort_key_id_if_sorted sorted_wrt_map)
qed

lemma assign_failed: "assign_error st \<noteq> None \<Longrightarrow> fold (assign texts codec avoid) xs (st, k) = (st, k)"
  by (induction xs) (auto simp: assign_def)

locale batch_codec = token_codec "codec_mint codec" reversible
  for codec :: PiiCodec and reversible :: "string \<Rightarrow> bool"
begin

lemma mint_attempts_Inr:
  assumes "mint_attempts codec e n v avoid left k = (Inr r, k')" "reversible e"
  shows "\<exists>j. k \<le> j \<and> n \<le> minted_ordinal r \<and> codec_mint codec e (minted_ordinal r) v j = (Inr (minted_token r), k')
    \<and> minted_token r \<notin> set avoid"
  using assms(1)
proof (induction left arbitrary: n k)
  case (Suc left)
  then obtain c k1 where c: "codec_mint codec e n v k = (Inr c, k1)"
    by (auto split: prod.splits sum.splits)
  show ?case
  proof (cases "c \<in> set avoid")
    case True
    with Suc.prems c have "mint_attempts codec e (Suc n) v avoid left k1 = (Inr r, k')" by simp
    from Suc.IH [OF this] draws_mono [OF c] show ?thesis by (meson Suc_leD order_trans)
  next
    case False
    with Suc.prems c show ?thesis by auto
  qed
qed simp

lemma mint_attempts_draws:
  "mint_attempts codec e n v avoid left k = (r, k') \<Longrightarrow> k \<le> k'"
proof (induction left arbitrary: n k)
  case (Suc left)
  then show ?case
    by (auto split: prod.splits sum.splits if_splits dest: draws_mono) (meson draws_mono order_trans)
qed simp

lemma mint_attempts_masked:
  assumes "\<not> reversible e" "mint_attempts codec e n v avoid left k = (Inr r, k')"
  shows "minted_token r = mint_masked e"
  using assms(2) by (induction left arbitrary: n k) (auto simp: masked [OF assms(1)] split: if_splits)

text \<open>
  The invariant of the fold: the placements hold the tokens their values have; a reversible token was
  minted with the ordinals and draws spent so far and is not in the source; a mask is a mask; and a
  reversible token stands for one value only.
\<close>

definition assigned_ok :: "string list \<Rightarrow> string list \<Rightarrow> Assignment \<Rightarrow> draws \<Rightarrow> bool" where
  "assigned_ok texts avoid st k \<longleftrightarrow>
     (\<forall>p \<in> set (placements st). map_of (by_value st) (entity_type (placed_span p), value_of texts p) = Some (placed_token p))
   \<and> (\<forall>e v t. map_of (by_value st) (e, v) = Some t \<longrightarrow> e \<in> set ENTITY_VOCABULARY \<and>
       (if reversible e
        then t \<notin> set avoid \<and> (\<exists>n j j'. codec_mint codec e n v j = (Inr t, j') \<and> j' \<le> k \<and> n \<le> ordinal_of st e)
        else t = mint_masked e))
   \<and> (\<forall>e v e' v' t. map_of (by_value st) (e, v) = Some t \<longrightarrow> map_of (by_value st) (e', v') = Some t \<longrightarrow>
       reversible e \<longrightarrow> reversible e' \<longrightarrow> (e, v) = (e', v'))"

lemma assigned_ok_empty: "assigned_ok texts avoid empty_assignment k"
  by (simp add: assigned_ok_def empty_assignment_def)

lemma assigned_ok_step:
  assumes ok: "assigned_ok texts avoid st k"
    and new: "map_of (by_value st) (e, v) = None"
    and voc: "e \<in> set ENTITY_VOCABULARY"
    and e: "e = entity_type sp" and v: "v = text_from sp (texts ! i)"
    and m: "mint_unused codec e (ordinal_of st e + 1) v avoid k = (Inr r, k')"
  shows "assigned_ok texts avoid
    \<lparr>by_value = AList.update (e, v) (minted_token r) (by_value st),
     ordinals = AList.update e (minted_ordinal r) (ordinals st),
     placements = placements st @ [\<lparr>text_index = i, placed_span = sp, placed_token = minted_token r\<rparr>],
     assign_error = None\<rparr> k'" (is "assigned_ok texts avoid ?st k'")
proof -
  have k: "k \<le> k'" using mint_attempts_draws m by (simp add: mint_unused_def)
  have mi: "\<exists>j. k \<le> j \<and> ordinal_of st e < minted_ordinal r \<and>
      codec_mint codec e (minted_ordinal r) v j = (Inr (minted_token r), k') \<and> minted_token r \<notin> set avoid"
    if "reversible e" using mint_attempts_Inr [OF _ that] m by (fastforce simp: mint_unused_def)
  have ma: "minted_token r = mint_masked e" if "\<not> reversible e"
    using mint_attempts_masked [OF that] m by (simp add: mint_unused_def)
  have bv: "map_of (by_value ?st) = (map_of (by_value st))((e, v) \<mapsto> minted_token r)" by (simp add: update_conv')
  have od: "ordinal_of ?st x = (if x = e then minted_ordinal r else ordinal_of st x)" for x
    by (simp add: ordinal_of_def update_conv')
  have fresh_tok: "t \<noteq> minted_token r"
    if "map_of (by_value st) (e', v') = Some t" "reversible e'" "reversible e" for e' v' t
  proof -
    from ok that obtain n j j' where old: "codec_mint codec e' n v' j = (Inr t, j')" "j' \<le> k" "n \<le> ordinal_of st e'"
      "e' \<in> set ENTITY_VOCABULARY" unfolding assigned_ok_def by meson
    from mi [OF that(3)] obtain q where q: "k \<le> q" "ordinal_of st e < minted_ordinal r"
      "codec_mint codec e (minted_ordinal r) v q = (Inr (minted_token r), k')" by blast
    have "(e', v') \<noteq> (e, v)" "j' \<le> q" "e' = e \<longrightarrow> n < minted_ordinal r" using that(1) new old q by auto
    then show ?thesis using fresh [OF that(2,3) old(1) q(3)] old(4) voc by blast
  qed
  have a: "map_of (by_value ?st) (entity_type (placed_span p), value_of texts p) = Some (placed_token p)"
    if "p \<in> set (placements ?st)" for p
  proof (cases "p \<in> set (placements st)")
    case True
    then have "map_of (by_value st) (entity_type (placed_span p), value_of texts p) = Some (placed_token p)"
      using ok by (simp add: assigned_ok_def)
    with new show ?thesis unfolding bv by auto
  next
    case False
    with that e v show ?thesis unfolding bv by (simp add: value_of_def)
  qed
  show ?thesis
    unfolding assigned_ok_def
  proof (intro conjI allI impI)
    show "\<forall>p \<in> set (placements ?st). map_of (by_value ?st) (entity_type (placed_span p), value_of texts p) = Some (placed_token p)"
      using a by blast
  next
    fix e' v' t assume t: "map_of (by_value ?st) (e', v') = Some t"
    show "e' \<in> set ENTITY_VOCABULARY"
      using t ok voc unfolding bv assigned_ok_def by (auto split: if_splits)
    show "if reversible e' then t \<notin> set avoid \<and>
        (\<exists>n j j'. codec_mint codec e' n v' j = (Inr t, j') \<and> j' \<le> k' \<and> n \<le> ordinal_of ?st e')
        else t = mint_masked e'"
    proof (cases "(e', v') = (e, v)")
      case True
      with t mi ma show ?thesis unfolding bv od by auto
    next
      case False
      with t have old: "map_of (by_value st) (e', v') = Some t" unfolding bv by (auto split: if_splits)
      have le: "ordinal_of st e' \<le> ordinal_of ?st e'" if "reversible e'" using mi that unfolding od by auto
      have "if reversible e' then t \<notin> set avoid \<and>
          (\<exists>n j j'. codec_mint codec e' n v' j = (Inr t, j') \<and> j' \<le> k \<and> n \<le> ordinal_of st e')
          else t = mint_masked e'" using old ok unfolding assigned_ok_def by blast
      then show ?thesis using le k by (cases "reversible e'") (simp_all, meson order_trans)
    qed
  next
    fix e1 v1 e2 v2 t
    assume m: "map_of (by_value ?st) (e1, v1) = Some t" "map_of (by_value ?st) (e2, v2) = Some t"
      and rv: "reversible e1" "reversible e2"
    have old: "map_of (by_value st) (a, b) = Some t \<or> (a, b) = (e, v) \<and> t = minted_token r"
      if "map_of (by_value ?st) (a, b) = Some t" for a b using that unfolding bv by (auto split: if_splits)
    have inj: "map_of (by_value st) (e1, v1) = Some t \<Longrightarrow> map_of (by_value st) (e2, v2) = Some t \<Longrightarrow> (e1, v1) = (e2, v2)"
      using ok rv unfolding assigned_ok_def by blast
    from old [OF m(1)] old [OF m(2)] inj fresh_tok rv show "(e1, v1) = (e2, v2)" by blast
  qed
qed

lemma assign_step:
  assumes "assign texts codec avoid (i, sp) (st, k) = (st', k')" "assign_error st = None" "assign_error st' = None"
    and "assigned_ok texts avoid st k" "entity_type sp \<in> set ENTITY_VOCABULARY"
  shows "assigned_ok texts avoid st' k'"
    and "map (\<lambda>p. (text_index p, placed_span p)) (placements st') =
      map (\<lambda>p. (text_index p, placed_span p)) (placements st) @ [(i, sp)]"
    and "i < length texts"
proof -
  show "i < length texts" using assms(1-3) by (auto simp: assign_def split: if_splits)
  then have i: "\<not> length texts \<le> i" by simp
  let ?v = "text_from sp (texts ! i)"
  have "assigned_ok texts avoid st' k' \<and> map (\<lambda>p. (text_index p, placed_span p)) (placements st') =
      map (\<lambda>p. (text_index p, placed_span p)) (placements st) @ [(i, sp)]"
  proof (cases "map_of (by_value st) (entity_type sp, ?v)")
    case None
    obtain r k1 where m: "mint_unused codec (entity_type sp) (ordinal_of st (entity_type sp) + 1) ?v avoid k = (r, k1)"
      by fastforce
    with assms(1-3) None i obtain q where q: "r = Inr q"
      by (cases r) (auto simp: assign_def ordinal_of_def Let_def)
    have st': "st' = \<lparr>by_value = AList.update (entity_type sp, ?v) (minted_token q) (by_value st),
        ordinals = AList.update (entity_type sp) (minted_ordinal q) (ordinals st),
        placements = placements st @ [\<lparr>text_index = i, placed_span = sp, placed_token = minted_token q\<rparr>],
        assign_error = None\<rparr>" and k': "k' = k1"
      using assms(1,2) None i m q by (auto simp: assign_def ordinal_of_def Let_def)
    show ?thesis
      unfolding k' using assigned_ok_step [OF assms(4) None assms(5) refl refl m [unfolded q]] by (simp add: st')
  next
    case (Some t)
    then have st': "st' = st\<lparr>placements := placements st @ [\<lparr>text_index = i, placed_span = sp, placed_token = t\<rparr>]\<rparr>"
      and k': "k' = k" using assms(1,2) i by (auto simp: assign_def Let_def)
    have "ordinal_of st' = ordinal_of st" "by_value st' = by_value st" by (simp_all add: st' ordinal_of_def fun_eq_iff)
    with assms(4) Some have "assigned_ok texts avoid st' k" unfolding assigned_ok_def
      by (simp add: st' value_of_def)
    then show ?thesis unfolding k' by (simp add: st')
  qed
  then show "assigned_ok texts avoid st' k'" "map (\<lambda>p. (text_index p, placed_span p)) (placements st') =
      map (\<lambda>p. (text_index p, placed_span p)) (placements st) @ [(i, sp)]" by blast+
qed

lemma fold_assign:
  assumes "fold (assign texts codec avoid) xs (st, k) = (st', k')" "assign_error st = None" "assign_error st' = None"
    and "assigned_ok texts avoid st k" "\<forall>(i, sp) \<in> set xs. entity_type sp \<in> set ENTITY_VOCABULARY"
  shows "assigned_ok texts avoid st' k' \<and> map (\<lambda>p. (text_index p, placed_span p)) (placements st') =
      map (\<lambda>p. (text_index p, placed_span p)) (placements st) @ xs"
  using assms
proof (induction xs arbitrary: st k)
  case (Cons x xs)
  obtain i sp where x: "x = (i, sp)" by fastforce
  obtain st1 k1 where s1: "assign texts codec avoid (i, sp) (st, k) = (st1, k1)" by fastforce
  have f: "fold (assign texts codec avoid) xs (st1, k1) = (st', k')" using Cons.prems(1) x s1 by simp
  have e: "assign_error st1 = None"
  proof (rule ccontr)
    assume "assign_error st1 \<noteq> None"
    with assign_failed [OF this] f Cons.prems(3) show False by auto
  qed
  note step = assign_step [OF s1 Cons.prems(2) e Cons.prems(4)]
  with Cons.IH [OF f e Cons.prems(3)] Cons.prems(5) x show ?case by auto
qed simp

text \<open>
  What an encoded batch is: a token for each value, put in place of every span; fit for decoding
  with the batch's mapping.
\<close>

definition encodes ::
  "string list \<Rightarrow> PiiSpan list list \<Rightarrow> BatchDraft \<Rightarrow> (string \<times> string \<Rightarrow> string) \<Rightarrow> bool" where
  "encodes texts sbt draft f \<longleftrightarrow>
     length (draft_texts draft) = length texts
   \<and> (\<forall>i < length texts. draft_texts draft ! i =
        replace_spans (\<lambda>sp. f (entity_type sp, text_from sp (texts ! i))) (texts ! i) 0 (sbt ! i))
   \<and> (\<forall>(i, sp) \<in> set (locate sbt). let e = entity_type sp; v = text_from sp (texts ! i) in
        if reversible e then (\<exists>kd d. valid_disc kd d \<and> f (e, v) = grammar_mint e kd d) \<and> map_of (draft_mapping draft) (f (e, v)) = Some v
        else f (e, v) = mint_masked e)
   \<and> (\<forall>(i, sp) \<in> set (locate sbt). \<forall>(j, sp') \<in> set (locate sbt).
        reversible (entity_type sp) \<longrightarrow> reversible (entity_type sp') \<longrightarrow>
        f (entity_type sp, text_from sp (texts ! i)) = f (entity_type sp', text_from sp' (texts ! j)) \<longrightarrow>
        entity_type sp = entity_type sp' \<and> text_from sp (texts ! i) = text_from sp' (texts ! j))
   \<and> (\<forall>c \<in> set (canonical_tokens texts). map_of (draft_mapping draft) c = None)
   \<and> map issued_token (draft_tokens draft) =
        map (\<lambda>(i, sp). f (entity_type sp, text_from sp (texts ! i))) (locate sbt)
   \<and> map (\<lambda>p. (text_index p, placed_span p)) (draft_placements draft) = locate sbt
   \<and> (\<forall>p \<in> set (draft_placements draft). placed_token p = f (entity_type (placed_span p), value_of texts p))"

lemma encodes_located:
  "encodes texts sbt draft f \<Longrightarrow> map (\<lambda>p. (text_index p, placed_span p)) (draft_placements draft) = locate sbt"
  unfolding encodes_def by (elim conjE)

lemma encodes_token:
  "encodes texts sbt draft f \<Longrightarrow> p \<in> set (draft_placements draft) \<Longrightarrow>
   placed_token p = f (entity_type (placed_span p), value_of texts p)"
  unfolding encodes_def by (elim conjE) (rule bspec)

lemma encodes_identify:
  assumes f: "encodes texts sbt draft f" and p: "p \<in> set (draft_placements draft)" and q: "q \<in> set (draft_placements draft)"
    and r: "reversible (entity_type (placed_span p))" "reversible (entity_type (placed_span q))"
  shows "placed_token p = placed_token q \<longleftrightarrow>
    entity_type (placed_span p) = entity_type (placed_span q) \<and> value_of texts p = value_of texts q"
proof
  have mem: "(text_index x, placed_span x) \<in> set (locate sbt)" if "x \<in> set (draft_placements draft)" for x
    unfolding encodes_located [OF f, symmetric] using that by auto
  have "\<forall>(i, sp) \<in> set (locate sbt). \<forall>(j, sp') \<in> set (locate sbt).
        reversible (entity_type sp) \<longrightarrow> reversible (entity_type sp') \<longrightarrow>
        f (entity_type sp, text_from sp (texts ! i)) = f (entity_type sp', text_from sp' (texts ! j)) \<longrightarrow>
        entity_type sp = entity_type sp' \<and> text_from sp (texts ! i) = text_from sp' (texts ! j)"
    using f unfolding encodes_def by (elim conjE)
  from bspec [OF bspec [OF this mem [OF p], unfolded split] mem [OF q], unfolded split] r
  show "placed_token p = placed_token q \<Longrightarrow>
      entity_type (placed_span p) = entity_type (placed_span q) \<and> value_of texts p = value_of texts q"
    unfolding encodes_token [OF f p] encodes_token [OF f q] value_of_def by blast
next
  assume "entity_type (placed_span p) = entity_type (placed_span q) \<and> value_of texts p = value_of texts q"
  then show "placed_token p = placed_token q" unfolding encodes_token [OF f p] encodes_token [OF f q] by simp
qed

definition token_of :: "Assignment \<Rightarrow> string \<times> string \<Rightarrow> string" where
  "token_of st ident = the (map_of (by_value st) ident)"

definition reversible_pairs :: "string list \<Rightarrow> Assignment \<Rightarrow> (string \<times> string) list" where
  "reversible_pairs texts st = map (\<lambda>p. (placed_token p, value_of texts p))
     (filter (\<lambda>p. reversible (entity_type (placed_span p))) (placements st))"

definition assigned_batch :: "string list \<Rightarrow> PiiSpan list list \<Rightarrow> Assignment \<Rightarrow> draws \<Rightarrow> bool" where
  "assigned_batch texts sbt st k \<longleftrightarrow> assigned_ok texts (canonical_tokens texts) st k \<and>
     map (\<lambda>p. (text_index p, placed_span p)) (placements st) = locate sbt"

lemma assigned_by_value:
  assumes "assigned_batch texts sbt st k" "p \<in> set (placements st)"
  shows "map_of (by_value st) (entity_type (placed_span p), value_of texts p) = Some (placed_token p)"
    and "placed_token p = token_of st (entity_type (placed_span p), value_of texts p)"
  using assms by (auto simp: assigned_batch_def assigned_ok_def token_of_def)

lemma assigned_member:
  assumes "assigned_batch texts sbt st k" "(i, sp) \<in> set (locate sbt)"
  obtains p where "p \<in> set (placements st)" "text_index p = i" "placed_span p = sp"
    "value_of texts p = text_from sp (texts ! i)"
    "placed_token p = token_of st (entity_type sp, text_from sp (texts ! i))"
proof -
  have "(i, sp) \<in> set (map (\<lambda>p. (text_index p, placed_span p)) (placements st))"
    using assms by (simp add: assigned_batch_def)
  then obtain p where p: "p \<in> set (placements st)" "text_index p = i" "placed_span p = sp" by auto
  with that [OF p] assigned_by_value(2) [OF assms(1) p(1)] show thesis by (simp add: value_of_def)
qed

lemma assigned_text:
  assumes "assigned_batch texts sbt st k" "i < length texts" "length sbt = length texts" "spans_ok (texts ! i) (sbt ! i)"
  shows "splice (texts ! i) (filter (\<lambda>p. text_index p = i) (placements st)) =
    replace_spans (\<lambda>sp. token_of st (entity_type sp, text_from sp (texts ! i))) (texts ! i) 0 (sbt ! i)"
proof -
  let ?ps = "filter (\<lambda>p. text_index p = i) (placements st)"
  have "map (\<lambda>p. (text_index p, placed_span p)) ?ps =
      filter (\<lambda>x. fst x = i) (map (\<lambda>p. (text_index p, placed_span p)) (placements st))"
    by (simp add: filter_map comp_def)
  also have "\<dots> = map (Pair i) (sbt ! i)"
    using assms(1-3) filter_locate_0 [of i sbt] spans_ok_sorted [OF assms(4)] by (simp add: assigned_batch_def)
  finally have "map snd (map (\<lambda>p. (text_index p, placed_span p)) ?ps) = map snd (map (Pair i) (sbt ! i))" by simp
  then have sp: "map placed_span ?ps = sbt ! i" by (simp add: comp_def)
  show ?thesis unfolding sp [symmetric]
    using assms(4) assigned_by_value(2) [OF assms(1)] by (intro splice_replace) (auto simp: sp value_of_def)
qed

lemma assigned_unique:
  assumes "assigned_batch texts sbt st k" "p \<in> set (placements st)" "p' \<in> set (placements st)"
    "placed_token p = placed_token p'" "reversible (entity_type (placed_span p))" "reversible (entity_type (placed_span p'))"
  shows "entity_type (placed_span p) = entity_type (placed_span p') \<and> value_of texts p = value_of texts p'"
proof -
  have "\<forall>e v e' v' t. map_of (by_value st) (e, v) = Some t \<longrightarrow> map_of (by_value st) (e', v') = Some t \<longrightarrow>
      reversible e \<longrightarrow> reversible e' \<longrightarrow> (e, v) = (e', v')"
    using assms(1) unfolding assigned_batch_def assigned_ok_def by blast
  from this [rule_format, OF assigned_by_value(1) [OF assms(1,2)]
      assigned_by_value(1) [OF assms(1,3), folded assms(4)] assms(5,6)] show ?thesis by simp
qed

lemma assigned_mapping:
  assumes "assigned_batch texts sbt st k"
  shows "map_of (dict_of (reversible_pairs texts st)) t = Some v \<longleftrightarrow> (t, v) \<in> set (reversible_pairs texts st)"
  using assigned_unique [OF assms] by (intro dict_of_functional) (auto simp: reversible_pairs_def)

lemma assigned_shape:
  assumes "assigned_batch texts sbt st k" "p \<in> set (placements st)"
  shows "if reversible (entity_type (placed_span p))
    then (\<exists>kd d. valid_disc kd d \<and> placed_token p = grammar_mint (entity_type (placed_span p)) kd d)
      \<and> placed_token p \<notin> set (canonical_tokens texts)
    else placed_token p = mint_masked (entity_type (placed_span p))"
proof -
  have "if reversible (entity_type (placed_span p))
      then placed_token p \<notin> set (canonical_tokens texts)
        \<and> (\<exists>n j j'. codec_mint codec (entity_type (placed_span p)) n (value_of texts p) j = (Inr (placed_token p), j')
             \<and> j' \<le> k \<and> n \<le> ordinal_of st (entity_type (placed_span p)))
      else placed_token p = mint_masked (entity_type (placed_span p))"
    using assms(1) assigned_by_value(1) [OF assms] unfolding assigned_batch_def assigned_ok_def by blast
  then show ?thesis using minted by (cases "reversible (entity_type (placed_span p))") (simp_all, metis)
qed

lemma assigned_encodes:
  assumes a: "assigned_batch texts sbt st k" and len: "length sbt = length texts"
    and ok: "\<forall>i < length texts. spans_ok (texts ! i) (sbt ! i)"
    and d: "draft_texts draft = map (\<lambda>(i, t). splice t (filter (\<lambda>p. text_index p = i) (placements st))) (enumerate 0 texts)"
    "map issued_token (draft_tokens draft) = map placed_token (placements st)"
    "draft_mapping draft = dict_of (reversible_pairs texts st)" "draft_placements draft = placements st"
  shows "encodes texts sbt draft (token_of st)"
  unfolding encodes_def
proof (intro conjI)
  show "\<forall>i < length texts. draft_texts draft ! i =
      replace_spans (\<lambda>sp. token_of st (entity_type sp, text_from sp (texts ! i))) (texts ! i) 0 (sbt ! i)"
    using assigned_text [OF a _ len] ok by (simp add: d(1) nth_enumerate_eq)
  show "\<forall>(i, sp) \<in> set (locate sbt). let e = entity_type sp; v = text_from sp (texts ! i) in
      if reversible e then (\<exists>kd d. valid_disc kd d \<and> token_of st (e, v) = grammar_mint e kd d)
        \<and> map_of (draft_mapping draft) (token_of st (e, v)) = Some v
      else token_of st (e, v) = mint_masked e"
  proof safe
    fix i sp assume "(i, sp) \<in> set (locate sbt)"
    then obtain p where p: "p \<in> set (placements st)" "text_index p = i" "placed_span p = sp"
      "value_of texts p = text_from sp (texts ! i)" "placed_token p = token_of st (entity_type sp, text_from sp (texts ! i))"
      using assigned_member [OF a] by metis
    have "(placed_token p, value_of texts p) \<in> set (reversible_pairs texts st)" if "reversible (entity_type sp)"
      using that p(1,3) by (auto simp: reversible_pairs_def)
    with assigned_shape [OF a p(1)] p(3-5) show "let e = entity_type sp; v = text_from sp (texts ! i) in
      if reversible e then (\<exists>kd d. valid_disc kd d \<and> token_of st (e, v) = grammar_mint e kd d)
        \<and> map_of (draft_mapping draft) (token_of st (e, v)) = Some v
      else token_of st (e, v) = mint_masked e"
      by (cases "reversible (entity_type sp)") (simp_all add: Let_def d(3) assigned_mapping [OF a])
  qed
  show "\<forall>(i, sp) \<in> set (locate sbt). \<forall>(j, sp') \<in> set (locate sbt).
      reversible (entity_type sp) \<longrightarrow> reversible (entity_type sp') \<longrightarrow>
      token_of st (entity_type sp, text_from sp (texts ! i)) = token_of st (entity_type sp', text_from sp' (texts ! j)) \<longrightarrow>
      entity_type sp = entity_type sp' \<and> text_from sp (texts ! i) = text_from sp' (texts ! j)"
    by (clarify, elim assigned_member [OF a]) (metis assigned_unique [OF a])
  show "\<forall>c \<in> set (canonical_tokens texts). map_of (draft_mapping draft) c = None"
  proof (intro ballI, rule ccontr)
    fix c assume c: "c \<in> set (canonical_tokens texts)" "map_of (draft_mapping draft) c \<noteq> None"
    then obtain v where "(c, v) \<in> set (reversible_pairs texts st)" using assigned_mapping [OF a] by (auto simp: d(3))
    then obtain p where "p \<in> set (placements st)" "placed_token p = c" "reversible (entity_type (placed_span p))"
      by (auto simp: reversible_pairs_def)
    with assigned_shape [OF a] c(1) show False by (metis (no_types, lifting))
  qed
  show "map issued_token (draft_tokens draft) =
      map (\<lambda>(i, sp). token_of st (entity_type sp, text_from sp (texts ! i))) (locate sbt)"
  proof -
    have L: "locate sbt = map (\<lambda>p. (text_index p, placed_span p)) (placements st)"
      using a by (simp add: assigned_batch_def)
    show ?thesis unfolding L d(2) using assigned_by_value(2) [OF a] by (simp add: value_of_def)
  qed
qed (use a assigned_by_value(2) [OF a] in \<open>auto simp: d assigned_batch_def\<close>)

lemma encode_batch_encodes:
  assumes enc: "encode_batch texts sbt codec is_rev k = (Inr draft, k')"
    and len: "length sbt = length texts"
    and ok: "\<forall>i < length texts. spans_ok (texts ! i) (sbt ! i)"
    and rv: "\<And>sp. (case is_rev of None \<Rightarrow> True | Some g \<Rightarrow> g sp) \<longleftrightarrow> reversible (entity_type sp)"
  shows "\<exists>f. encodes texts sbt draft f"
proof (cases "locate sbt = []")
  case True
  then have nil: "\<forall>i < length texts. sbt ! i = []"
    using set_locate [of sbt] len by fastforce
  have "draft = \<lparr>draft_texts = texts, draft_tokens = [], draft_mapping = [], draft_placements = []\<rparr>"
    using enc True by (simp add: encode_batch_def)
  then have "encodes texts sbt draft (\<lambda>_. [])" using True nil by (simp add: encodes_def)
  then show ?thesis by blast
next
  case False
  obtain st where st: "fold (assign texts codec (canonical_tokens texts)) (locate sbt) (empty_assignment, k) = (st, k')"
    and err: "assign_error st = None"
    using enc False by (auto simp: encode_batch_def Let_def split: prod.splits option.splits)
  have rvf: "(case is_rev of None \<Rightarrow> (\<lambda>sp. True) | Some g \<Rightarrow> g) sp \<longleftrightarrow> reversible (entity_type sp)" for sp
    using rv [of sp] by (cases is_rev) auto
  have voc: "\<forall>(i, sp) \<in> set (locate sbt). entity_type sp \<in> set ENTITY_VOCABULARY"
    using ok len by (auto simp: set_locate spans_ok_def)
  have "assigned_batch texts sbt st k'"
    using fold_assign [OF st _ err assigned_ok_empty voc] by (simp add: empty_assignment_def assigned_batch_def)
  then have "encodes texts sbt draft (token_of st)"
    using enc False st err rvf
    by (intro assigned_encodes [OF _ len ok]) (auto simp: encode_batch_def Let_def reversible_pairs_def value_of_def comp_def)
  then show ?thesis by blast
qed

lemma batch_roundtrip:
  assumes "encode_batch texts sbt codec is_rev k = (Inr draft, k')" "length sbt = length texts"
    and ok: "\<forall>i < length texts. spans_ok (texts ! i) (sbt ! i) \<and> unescaped (texts ! i) (sbt ! i)"
    and "\<And>sp. (case is_rev of None \<Rightarrow> True | Some g \<Rightarrow> g sp) \<longleftrightarrow> reversible (entity_type sp)"
    and i: "i < length texts"
  shows "decode_text (draft_texts draft ! i) (draft_mapping draft) =
    replace_spans (\<lambda>sp. if reversible (entity_type sp) then text_from sp (texts ! i) else mint_masked (entity_type sp))
      (texts ! i) 0 (sbt ! i)"
proof -
  obtain f where f: "encodes texts sbt draft f"
    using encode_batch_encodes [OF assms(1,2) _ assms(4)] ok by blast
  have "\<forall>sp \<in> set (sbt ! i). (i, sp) \<in> set (locate sbt)" using i assms(2) by (simp add: set_locate)
  then have tok: "\<forall>sp \<in> set (sbt ! i). if reversible (entity_type sp)
      then (\<exists>kd d. valid_disc kd d \<and> f (entity_type sp, text_from sp (texts ! i)) = grammar_mint (entity_type sp) kd d)
        \<and> map_of (draft_mapping draft) (f (entity_type sp, text_from sp (texts ! i))) = Some (text_from sp (texts ! i))
      else f (entity_type sp, text_from sp (texts ! i)) = mint_masked (entity_type sp)"
    using f unfolding encodes_def Let_def by blast
  have av: "\<forall>c \<in> {c. \<exists>t \<in> set texts. occurs c t}. map_of (draft_mapping draft) c = None"
    using f unfolding encodes_def set_canonical_tokens by blast
  have sub: "\<forall>c. occurs c (texts ! i) \<longrightarrow> c \<in> {c. \<exists>t \<in> set texts. occurs c t}" using i by auto
  note dec = decode_tokens [OF conjunct1 [OF ok [rule_format, OF i]] conjunct2 [OF ok [rule_format, OF i]] inert_Nil sub av tok,
      of 0 0]
  have "draft_texts draft ! i = replace_spans (\<lambda>sp. f (entity_type sp, text_from sp (texts ! i))) (texts ! i) 0 (sbt ! i)"
    using f i by (simp add: encodes_def)
  with dec show ?thesis by (simp add: decode_render)
qed

end

section \<open>The contract's instances\<close>

interpretation placeholder_batch: batch_codec PlaceholderCodec "\<lambda>_. True" ..

interpretation aware_placeholder_batch:
  batch_codec "ActionAwareCodec PlaceholderCodec actions dflt" "\<lambda>e. action_for actions dflt e \<noteq> MASK"
  for actions dflt ..

end
