(* ===== verification/Spans.thy ===== *)
theory Spans
  imports Transform_Props
begin

text \<open>
  \<open>litellm/pii/detection/spans.py\<close>: trimming, overlap resolution and coalescing of detected spans.
  What \<open>merge_spans\<close> answers is what the transform asks for: spans inside the text, in order and
  disjoint.
\<close>

definition MAX_COALESCE_GAP :: int where "MAX_COALESCE_GAP = 1"

definition trim_span :: "PiiSpan \<Rightarrow> string \<Rightarrow> PiiSpan option" where
  "trim_span sp t =
     (let raw = text_from sp t;
          leading = int (length raw) - int (length (lstrip raw));
          trailing = int (length raw) - int (length (rstrip raw))
      in if leading = 0 \<and> trailing = 0 then Some sp
         else if span_end sp - trailing \<le> span_start sp + leading then None
         else Some (sp\<lparr>span_start := span_start sp + leading, span_end := span_end sp - trailing\<rparr>))"

definition trim_spans :: "PiiSpan list \<Rightarrow> string \<Rightarrow> PiiSpan list" where
  "trim_spans spans t = List.map_filter (\<lambda>sp. trim_span sp t) spans"

definition overlaps :: "PiiSpan \<Rightarrow> PiiSpan \<Rightarrow> bool" where
  "overlaps l r = (span_start l < span_end r \<and> span_start r < span_end l)"

definition selection_priority :: "PiiSpan \<Rightarrow> rat \<times> int \<times> int \<times> int" where
  "selection_priority sp =
     (score sp, if detector sp = RULES then 1 else 0, span_length sp, - span_start sp)"

definition accept_if_disjoint :: "PiiSpan list \<Rightarrow> PiiSpan \<Rightarrow> PiiSpan list" where
  "accept_if_disjoint accepted candidate =
     (if list_ex (overlaps candidate) accepted then accepted else accepted @ [candidate])"

definition resolve_overlaps :: "PiiSpan list \<Rightarrow> PiiSpan list" where
  "resolve_overlaps spans =
     py_sorted span_start (foldl accept_if_disjoint [] (py_sorted_rev selection_priority spans))"

definition is_coalescable :: "PiiSpan \<Rightarrow> PiiSpan \<Rightarrow> string \<Rightarrow> bool" where
  "is_coalescable l r t =
     (if entity_type l \<noteq> entity_type r then False
      else (let gap = py_slice t (span_end l) (span_start r)
            in int (length gap) \<le> MAX_COALESCE_GAP \<and> strip gap = []))"

definition coalesce_step :: "string \<Rightarrow> PiiSpan list \<Rightarrow> PiiSpan \<Rightarrow> PiiSpan list" where
  "coalesce_step t merged candidate =
     (if merged = [] then [candidate]
      else (let previous = last merged in
        if \<not> is_coalescable previous candidate t then merged @ [candidate]
        else butlast merged @
          [\<lparr>entity_type = entity_type previous, span_start = span_start previous, span_end = span_end candidate,
            score = min (score previous) (score candidate), detector = detector previous\<rparr>]))"

definition coalesce_adjacent :: "PiiSpan list \<Rightarrow> string \<Rightarrow> PiiSpan list" where
  "coalesce_adjacent spans t = foldl (coalesce_step t) [] (py_sorted span_start spans)"

definition merge_spans :: "string \<Rightarrow> PiiSpan list list \<Rightarrow> PiiSpan list" where
  "merge_spans t groups = coalesce_adjacent (resolve_overlaps (trim_spans (concat groups) t)) t"

section \<open>Trimming\<close>

lemma lstrip_all_space: "lstrip s = [] \<longleftrightarrow> (\<forall>c \<in> set s. is_space c)"
  by (auto simp: lstrip_def dropWhile_eq_Nil_conv)

lemma rstrip_all_space: "rstrip s = [] \<longleftrightarrow> (\<forall>c \<in> set s. is_space c)"
  by (auto simp: rstrip_def dropWhile_eq_Nil_conv)

text \<open>Trimming keeps a span inside the text, inside the span, and loses no character but blanks.\<close>

lemma trim_span_Some:
  assumes "span_in sp (length t)" "trim_span sp t = Some sp'"
  shows "span_in sp' (length t)" and "span_start sp \<le> span_start sp'" and "span_end sp' \<le> span_end sp"
    and "entity_type sp' = entity_type sp" and "score sp' = score sp" and "detector sp' = detector sp"
proof -
  have l: "length (lstrip (text_from sp t)) \<le> length (text_from sp t)" "length (rstrip (text_from sp t)) \<le> length (text_from sp t)"
    by (rule length_lstrip, rule length_rstrip)
  show "span_in sp' (length t)" "span_start sp \<le> span_start sp'" "span_end sp' \<le> span_end sp"
    "entity_type sp' = entity_type sp" "score sp' = score sp" "detector sp' = detector sp"
    using assms l by (auto simp: trim_span_def Let_def span_in_def split: if_splits)
qed

lemma trim_span_None:
  assumes "span_in sp (length t)" "trim_span sp t = None"
  shows "\<forall>c \<in> set (text_from sp t). is_space c"
proof (rule ccontr)
  let ?r = "text_from sp t"
  assume n: "\<not> (\<forall>c \<in> set ?r. is_space c)"
  obtain w where w: "?r = w @ lstrip ?r" "\<forall>c \<in> set w. is_space c" using lstrip_suffix by blast
  obtain v where v: "?r = rstrip ?r @ v" "\<forall>c \<in> set v. is_space c" using rstrip_prefix by blast
  have lw: "length ?r = length w + length (lstrip ?r)" and lv: "length ?r = length (rstrip ?r) + length v"
    using arg_cong [OF w(1), of length] arg_cong [OF v(1), of length] by simp_all
  have "length w < length (rstrip ?r)"
  proof (rule ccontr)
    assume "\<not> length w < length (rstrip ?r)"
    then have "set (rstrip ?r) \<subseteq> set w"
      by (metis append_eq_append_conv_if linorder_not_le nless_le order_refl set_take_subset take_all_iff v(1) w(1))
    with w(2) v n show False by (metis Un_iff set_append subsetD)
  qed
  with lw lv have "length w + length v < length ?r" by simp
  moreover have "int (length ?r) = span_end sp - span_start sp"
    using length_text_from_in [OF assms(1)] assms(1) by (simp add: span_length_def span_in_def)
  ultimately show False using assms(2) lw lv
    by (auto simp: trim_span_def Let_def split: if_splits)
qed

lemma trim_spans_set:
  assumes "\<forall>sp \<in> set spans. span_in sp (length t)"
  shows "sp' \<in> set (trim_spans spans t) \<longleftrightarrow> (\<exists>sp \<in> set spans. trim_span sp t = Some sp')"
  by (auto simp: trim_spans_def List.map_filter_def image_iff)

section \<open>Overlap resolution\<close>

definition disjoint_spans :: "PiiSpan list \<Rightarrow> bool" where
  "disjoint_spans xs \<longleftrightarrow> sorted_wrt (\<lambda>a b. \<not> overlaps a b) xs"

lemma overlaps_sym: "overlaps a b \<longleftrightarrow> overlaps b a"
  by (auto simp: overlaps_def)

lemma accept_all:
  assumes "disjoint_spans acc"
  shows "disjoint_spans (foldl accept_if_disjoint acc xs) \<and>
    set acc \<subseteq> set (foldl accept_if_disjoint acc xs) \<and>
    set (foldl accept_if_disjoint acc xs) \<subseteq> set acc \<union> set xs"
  using assms
proof (induction xs arbitrary: acc)
  case (Cons x xs)
  have "disjoint_spans (accept_if_disjoint acc x)"
    using Cons.prems by (auto simp: accept_if_disjoint_def disjoint_spans_def sorted_wrt_append list_ex_iff overlaps_sym)
  note ih = Cons.IH [OF this]
  have "set acc \<subseteq> set (accept_if_disjoint acc x)" "set (accept_if_disjoint acc x) \<subseteq> insert x (set acc)"
    by (auto simp: accept_if_disjoint_def)
  with ih show ?case by auto
qed simp

lemmas accept_invariant = accept_all [THEN conjunct1] accept_all [THEN conjunct2, THEN conjunct1]
  accept_all [THEN conjunct2, THEN conjunct2]

text \<open>Whatever is not accepted overlaps something accepted before it, which ranks at least as high.\<close>

lemma accept_maximal:
  assumes "sorted_wrt (\<lambda>a b. P b \<le> P a) xs" "\<forall>a \<in> set acc. \<forall>x \<in> set xs. P x \<le> (P a :: 'k :: linorder)" "x \<in> set xs"
    and "disjoint_spans acc"
  shows "x \<in> set (foldl accept_if_disjoint acc xs) \<or>
    (\<exists>y \<in> set (foldl accept_if_disjoint acc xs). overlaps x y \<and> P x \<le> P y)"
  using assms
proof (induction xs arbitrary: acc)
  case (Cons z xs)
  let ?acc = "accept_if_disjoint acc z"
  have d: "disjoint_spans ?acc" using accept_invariant(1) [OF Cons.prems(4), of "[z]"] by simp
  have rk: "\<forall>a \<in> set ?acc. \<forall>x \<in> set xs. P x \<le> P a"
    using Cons.prems(1,2) by (auto simp: accept_if_disjoint_def split: if_splits)
  show ?case
  proof (cases "x = z")
    case True
    then have "z \<in> set ?acc \<or> (\<exists>y \<in> set ?acc. overlaps z y \<and> P z \<le> P y)"
      using Cons.prems(2) by (auto simp: accept_if_disjoint_def list_ex_iff)
    then show ?thesis using accept_invariant(2) [OF d, of xs] True by auto
  next
    case False
    then have "x \<in> set xs" using Cons.prems(3) by simp
    from Cons.IH [OF _ rk this d] Cons.prems(1) show ?thesis by simp
  qed
qed simp

lemma distinct_sorted_wrt:
  "distinct xs \<Longrightarrow> sorted_wrt R xs \<Longrightarrow> sorted_wrt (\<lambda>a b. a \<noteq> b \<and> R a b) xs"
  by (induction xs) auto

lemma disjoint_sorted:
  assumes "disjoint_spans xs" "\<forall>x \<in> set xs. span_start x < span_end x"
  shows "sorted_wrt (\<lambda>a b. span_end a \<le> span_start b) (py_sorted span_start xs)"
proof -
  have sym: "\<forall>a \<in> set xs. \<forall>b \<in> set xs. a \<noteq> b \<longrightarrow> \<not> overlaps a b"
    using assms(1) overlaps_sym unfolding disjoint_spans_def
    by (induction xs) auto
  have di: "distinct xs" using assms unfolding disjoint_spans_def
    by (induction xs) (auto simp: overlaps_def)
  let ?s = "py_sorted span_start xs"
  have "distinct ?s" "set ?s = set xs" using di by (simp_all add: py_sorted_def)
  moreover have "sorted_wrt (\<lambda>a b. span_start a \<le> span_start b) ?s"
    using sorted_py_sorted [of span_start xs] by (simp add: sorted_wrt_map)
  ultimately have "sorted_wrt (\<lambda>a b. a \<noteq> b \<and> span_start a \<le> span_start b) ?s"
    by (simp add: distinct_sorted_wrt)
  then show ?thesis
  proof (rule sorted_wrt_mono_rel [rotated])
    fix a b assume "a \<in> set ?s" "b \<in> set ?s" "a \<noteq> b \<and> span_start a \<le> span_start b"
    then show "span_end a \<le> span_start b"
      using sym assms(2) by (auto simp: overlaps_def) force
  qed
qed

lemma resolve_spans_ok:
  assumes "\<forall>sp \<in> set spans. span_in sp (length t) \<and> entity_type sp \<in> set ENTITY_VOCABULARY"
  shows "spans_ok t (resolve_overlaps spans)" and "set (resolve_overlaps spans) \<subseteq> set spans"
proof -
  let ?acc = "foldl accept_if_disjoint [] (py_sorted_rev selection_priority spans)"
  have d: "disjoint_spans ?acc" "set ?acc \<subseteq> set spans"
    using accept_invariant [of "[]" "py_sorted_rev selection_priority spans"] by (auto simp: disjoint_spans_def)
  then have "\<forall>x \<in> set ?acc. span_start x < span_end x" using assms by (auto simp: span_in_def)
  from disjoint_sorted [OF d(1) this] d(2) assms show "spans_ok t (resolve_overlaps spans)"
    by (auto simp: spans_ok_def resolve_overlaps_def)
  show "set (resolve_overlaps spans) \<subseteq> set spans" using d(2) by (simp add: resolve_overlaps_def)
qed

lemma resolve_covers:
  assumes "sp \<in> set spans"
  shows "\<exists>y \<in> set (resolve_overlaps spans). (y = sp \<or> overlaps sp y) \<and> selection_priority sp \<le> selection_priority y"
  using accept_maximal [OF sorted_py_sorted_rev [of selection_priority spans], of "[]" sp] assms
  by (auto simp: resolve_overlaps_def disjoint_spans_def)

section \<open>Coalescing\<close>

definition covers :: "PiiSpan \<Rightarrow> PiiSpan \<Rightarrow> bool" where
  "covers r y \<longleftrightarrow> entity_type r = entity_type y \<and> span_start r \<le> span_start y \<and> span_end y \<le> span_end r"

lemma covers_trans: "covers a b \<Longrightarrow> covers b c \<Longrightarrow> covers a c"
  by (auto simp: covers_def)

lemma coalesce_step_ok:
  assumes "spans_ok t (merged @ x # xs)"
  shows "spans_ok t (coalesce_step t merged x @ xs)"
    and "\<forall>y \<in> set (merged @ [x]). \<exists>r \<in> set (coalesce_step t merged x). covers r y"
proof -
  have "spans_ok t (coalesce_step t merged x @ xs) \<and>
    (\<forall>y \<in> set (merged @ [x]). \<exists>r \<in> set (coalesce_step t merged x). covers r y)"
  proof (cases "merged = [] \<or> \<not> is_coalescable (last merged) x t")
    case True
    then show ?thesis using assms by (auto simp: coalesce_step_def covers_def)
  next
    case False
    obtain b p where m: "merged = b @ [p]" using False by (cases merged rule: rev_cases) auto
    let ?j = "\<lparr>entity_type = entity_type p, span_start = span_start p, span_end = span_end x,
            score = min (score p) (score x), detector = detector p\<rparr>"
    have st: "coalesce_step t merged x = b @ [?j]" and e: "entity_type p = entity_type x"
      using False m by (simp add: coalesce_step_def Let_def, simp add: is_coalescable_def split: if_splits)
    have px: "span_end p \<le> span_start x" "span_start p < span_end p" "span_start x < span_end x"
      using assms m by (auto simp: spans_ok_def sorted_wrt_append span_in_def)
    have "spans_ok t (b @ ?j # xs)" using assms m px
      by (auto simp: spans_ok_def sorted_wrt_append span_in_def)
    moreover have "\<forall>y \<in> set (merged @ [x]). \<exists>r \<in> set (b @ [?j]). covers r y"
      using px e by (auto simp: m covers_def)
    ultimately show ?thesis unfolding st by simp
  qed
  then show "spans_ok t (coalesce_step t merged x @ xs)"
    "\<forall>y \<in> set (merged @ [x]). \<exists>r \<in> set (coalesce_step t merged x). covers r y" by blast+
qed

lemma coalesce_fold:
  assumes "spans_ok t (merged @ xs)"
  shows "spans_ok t (foldl (coalesce_step t) merged xs) \<and>
    (\<forall>y \<in> set (merged @ xs). \<exists>r \<in> set (foldl (coalesce_step t) merged xs). covers r y)"
  using assms
proof (induction xs arbitrary: merged)
  case Nil
  then show ?case by (auto simp: covers_def)
next
  case (Cons x xs)
  note step = coalesce_step_ok [OF Cons.prems]
  note ih = Cons.IH [OF step(1)]
  have "\<exists>r \<in> set (foldl (coalesce_step t) (coalesce_step t merged x) xs). covers r y"
    if y: "y \<in> set (merged @ x # xs)" for y
  proof -
    have "\<exists>r \<in> set (coalesce_step t merged x @ xs). covers r y"
    proof (cases "y \<in> set (merged @ [x])")
      case True
      with step(2) show ?thesis by auto
    next
      case False
      with y have "y \<in> set xs" by auto
      then show ?thesis by (auto simp: covers_def)
    qed
    with ih covers_trans show ?thesis by blast
  qed
  with ih show ?case by simp
qed

lemma coalesce_ok:
  assumes "spans_ok t spans"
  shows "spans_ok t (coalesce_adjacent spans t)"
    and "\<forall>y \<in> set spans. \<exists>r \<in> set (coalesce_adjacent spans t). covers r y"
  using coalesce_fold [of t "[]" spans] assms spans_ok_sorted [OF assms] by (simp_all add: coalesce_adjacent_def)

section \<open>Merging\<close>

definition detected_ok :: "string \<Rightarrow> PiiSpan list list \<Rightarrow> bool" where
  "detected_ok t groups \<longleftrightarrow>
     (\<forall>sp \<in> set (concat groups). span_in sp (length t) \<and> entity_type sp \<in> set ENTITY_VOCABULARY)"

lemma trim_spans_ok:
  assumes "detected_ok t groups"
  shows "\<forall>sp \<in> set (trim_spans (concat groups) t). span_in sp (length t) \<and> entity_type sp \<in> set ENTITY_VOCABULARY"
proof -
  have "\<forall>sp \<in> set (concat groups). span_in sp (length t)" using assms by (simp add: detected_ok_def)
  from trim_spans_set [OF this] show ?thesis using assms trim_span_Some(1,4) unfolding detected_ok_def by metis
qed

lemma merge_spans_ok:
  assumes "detected_ok t groups"
  shows "spans_ok t (merge_spans t groups)"
  unfolding merge_spans_def
  by (intro coalesce_ok(1) resolve_spans_ok(1) trim_spans_ok [OF assms])

text \<open>
  C29: The merged spans are what the transform needs: whatever overlapping, unordered, blank-padded spans
  of the vocabulary the two detection stages report inside a text, the merge answers spans inside the
  text, in order and pairwise disjoint.
\<close>

theorem merge_spans_well_formed:
  assumes "detected_ok t groups"
  shows "spans_ok t (merge_spans t groups)"
  using assms by (rule merge_spans_ok)

theorem merge_spans_well_formed_witness:
  "spans_ok ''Ada Lovelace''
     (merge_spans ''Ada Lovelace''
       [ [\<lparr>entity_type = ''PERSON'', span_start = 3, span_end = 12, score = 1, detector = RULES\<rparr>],
         [\<lparr>entity_type = ''PERSON'', span_start = 0, span_end = 3, score = 1, detector = NER\<rparr>] ])"
proof (rule merge_spans_well_formed)
  have "''PERSON'' \<in> set ENTITY_VOCABULARY" by code_simp
  then show "detected_ok ''Ada Lovelace''
       [ [\<lparr>entity_type = ''PERSON'', span_start = 3, span_end = 12, score = 1, detector = RULES\<rparr>],
         [\<lparr>entity_type = ''PERSON'', span_start = 0, span_end = 3, score = 1, detector = NER\<rparr>] ]"
    by (simp add: detected_ok_def span_in_def)
qed



end
