(* ===== verification/Chunking.thy ===== *)
theory Chunking
  imports Spans
begin

text \<open>
  \<open>litellm/pii/detection/base.py\<close> and \<open>chunking.py\<close>: the protocol of a detection stage and the
  stage that runs another one over overlapping windows of a long text. A stage is a function of the
  text, the language and the requested entities; the services behind it are its parameters.
\<close>

type_synonym PiiDetector = "string \<Rightarrow> string \<Rightarrow> string list option \<Rightarrow> pii_error + PiiSpan list"

definition DEFAULT_MAX_CHARS :: int where "DEFAULT_MAX_CHARS = 2000"

definition DEFAULT_OVERLAP_CHARS :: int where "DEFAULT_OVERLAP_CHARS = 200"

definition newline :: char where "newline = CHR 0x0A"

definition BOUNDARIES :: "string list" where
  "BOUNDARIES = [ [newline, newline], [newline], ''. '', '', '', '' '']"

record Window =
  win_start :: int
  win_end :: int

definition window_text_from :: "Window \<Rightarrow> string \<Rightarrow> string" where
  "window_text_from w t = py_slice t (win_start w) (win_end w)"

text \<open>\<open>s.rfind(p, lo, hi)\<close>, with Python's reading of negative and large indices, -1 for a miss.\<close>

definition py_rfind :: "string \<Rightarrow> string \<Rightarrow> int \<Rightarrow> int \<Rightarrow> int" where
  "py_rfind s p lo hi =
     (case rfind s p (py_index (length s) lo) (py_index (length s) hi) of None \<Rightarrow> -1 | Some i \<Rightarrow> int i)"

fun cut_at_boundaries :: "string list \<Rightarrow> string \<Rightarrow> int \<Rightarrow> int \<Rightarrow> int" where
  "cut_at_boundaries [] t lo hi = hi"
| "cut_at_boundaries (b # bs) t lo hi =
     (let hit = py_rfind t b lo hi
      in if hit > lo then hit + int (length b) else cut_at_boundaries bs t lo hi)"

definition cut_at :: "string \<Rightarrow> int \<Rightarrow> int \<Rightarrow> int" where
  "cut_at t lo hi = cut_at_boundaries BOUNDARIES t lo hi"

definition window_stride :: "int \<Rightarrow> int \<Rightarrow> int" where
  "window_stride max_chars overlap_chars = max (max (max_chars - overlap_chars) (max_chars div 2)) 1"

definition window_end :: "string \<Rightarrow> int \<Rightarrow> int \<Rightarrow> int \<Rightarrow> int" where
  "window_end t max_chars stride start =
     (let hi = min (start + max_chars) (int (length t))
      in if hi = int (length t) then hi else cut_at t (start + stride div 2) hi)"

text \<open>The loop of \<open>plan_windows\<close>. Every turn starts further right, whatever the sizes are.\<close>

function plan_loop :: "string \<Rightarrow> int \<Rightarrow> int \<Rightarrow> int \<Rightarrow> int \<Rightarrow> Window list" where
  "plan_loop t max_chars overlap_chars stride start =
     (if int (length t) \<le> start then []
      else
        (let end = window_end t max_chars stride start;
             w = \<lparr>win_start = start, win_end = end\<rparr>
         in if int (length t) \<le> end then [w]
            else w # plan_loop t max_chars overlap_chars stride (max (end - overlap_chars) (start + 1))))"
  by pat_completeness auto
termination
  by (relation "measure (\<lambda>(t, _, _, _, start). nat (int (length t) - start))") auto

declare plan_loop.simps [simp del]

definition plan_windows :: "string \<Rightarrow> int \<Rightarrow> int \<Rightarrow> Window list" where
  "plan_windows t max_chars overlap_chars =
     (if int (length t) \<le> max_chars then [\<lparr>win_start = 0, win_end = int (length t)\<rparr>]
      else plan_loop t max_chars overlap_chars (window_stride max_chars overlap_chars) 0)"

definition touches_interior_edge :: "PiiSpan \<Rightarrow> Window \<Rightarrow> int \<Rightarrow> bool" where
  "touches_interior_edge sp w len =
     (let at_start = (span_start sp = 0 \<and> 0 < win_start w);
          at_end = (span_end sp = win_end w - win_start w \<and> win_end w < len)
      in at_start \<or> at_end)"

definition shift_spans :: "PiiSpan list \<Rightarrow> Window \<Rightarrow> int \<Rightarrow> PiiSpan list" where
  "shift_spans spans w len =
     map (\<lambda>sp. sp\<lparr>span_start := span_start sp + win_start w, span_end := span_end sp + win_start w\<rparr>)
       (filter (\<lambda>sp. \<not> touches_interior_edge sp w len) spans)"

text \<open>The first failed window, if any.\<close>

fun first_error :: "(pii_error + 'a) list \<Rightarrow> pii_error option" where
  "first_error [] = None"
| "first_error (Inl e # rs) = Some e"
| "first_error (Inr x # rs) = first_error rs"

definition ChunkedDetector :: "PiiDetector \<Rightarrow> int \<Rightarrow> int \<Rightarrow> PiiDetector" where
  "ChunkedDetector inner max_chars overlap_chars t language entities =
     (let windows = plan_windows t max_chars overlap_chars in
      if length windows = 1 then inner t language entities
      else
        (let results = map (\<lambda>w. inner (window_text_from w t) language entities) windows in
         case first_error results of
           Some e \<Rightarrow> Inl e
         | None \<Rightarrow>
             Inr (concat (map (\<lambda>(w, r). case r of Inl e \<Rightarrow> [] | Inr spans \<Rightarrow> shift_spans spans w (int (length t)))
               (zip windows results)))))"

section \<open>Where windows end\<close>

lemma py_rfind_bounds:
  assumes "lo < py_rfind t b lo hi" "0 \<le> lo" "hi \<le> int (length t)" "0 \<le> hi"
  shows "py_rfind t b lo hi + int (length b) \<le> hi"
proof -
  have "py_rfind t b lo hi \<noteq> -1" using assms(1,2) by auto
  then obtain i where i: "rfind t b (py_index (length t) lo) (py_index (length t) hi) = Some i"
    "py_rfind t b lo hi = int i" by (auto simp: py_rfind_def split: option.splits)
  have "i + length b \<le> nat hi" using rfind_Some(2) [OF i(1)] assms(3,4) by (simp add: py_index_in_range)
  then show ?thesis using i(2) assms(4) by linarith
qed

lemma cut_at_bounds:
  assumes "0 \<le> lo" "0 \<le> hi" "hi \<le> int (length t)" "\<forall>b \<in> set bs. b \<noteq> []"
  shows "(lo + 2 \<le> cut_at_boundaries bs t lo hi \<or> cut_at_boundaries bs t lo hi = hi) \<and> cut_at_boundaries bs t lo hi \<le> hi"
  using assms(4)
proof (induction bs)
  case (Cons b bs)
  have "1 \<le> int (length b)" using Cons.prems by (cases b) auto
  then show ?case using Cons py_rfind_bounds [of lo t b hi] assms(1-3) by (auto simp: Let_def)
qed simp

text \<open>
  A window is not empty and no wider than asked for; one that ends in a cut is longer than half a
  stride.
\<close>

lemma window_end_bounds:
  assumes "1 \<le> max_chars" "0 \<le> overlap" "0 \<le> start" "start < int (length t)"
  defines "e \<equiv> window_end t max_chars (window_stride max_chars overlap) start"
  shows "start < e" and "e \<le> start + max_chars" and "e \<le> int (length t)"
    and "3 \<le> max_chars \<Longrightarrow> e < int (length t) \<Longrightarrow> start + window_stride max_chars overlap div 2 + 2 \<le> e"
proof -
  let ?s = "window_stride max_chars overlap" and ?c = "min (start + max_chars) (int (length t))"
  have s: "1 \<le> ?s" "?s \<le> max_chars" using assms(1,2) by (auto simp: window_stride_def)
  have "start < e \<and> e \<le> start + max_chars \<and> e \<le> int (length t) \<and>
    (3 \<le> max_chars \<longrightarrow> e < int (length t) \<longrightarrow> start + ?s div 2 + 2 \<le> e)"
  proof (cases "?c = int (length t)")
    case True
    then show ?thesis using assms(4) by (auto simp: e_def window_end_def)
  next
    case False
    then have c: "?c = start + max_chars" "start + max_chars \<le> int (length t)" by auto
    have "\<forall>b \<in> set BOUNDARIES. b \<noteq> []" by (simp add: BOUNDARIES_def)
    then have "(start + ?s div 2 + 2 \<le> e \<or> e = ?c) \<and> e \<le> ?c"
      using cut_at_bounds [of "start + ?s div 2" ?c t BOUNDARIES] assms(1,3) s c False
      by (simp add: e_def window_end_def cut_at_def Let_def)
    then show ?thesis using s c assms(1) by auto
  qed
  then show "start < e" "e \<le> start + max_chars" "e \<le> int (length t)"
    "3 \<le> max_chars \<Longrightarrow> e < int (length t) \<Longrightarrow> start + ?s div 2 + 2 \<le> e" by blast+
qed

section \<open>The plan\<close>

lemma plan_loop_windows:
  assumes "1 \<le> m" "0 \<le> ov" "0 \<le> start"
  shows "(\<forall>w \<in> set (plan_loop t m ov (window_stride m ov) start).
      start \<le> win_start w \<and> win_start w < win_end w \<and> win_end w \<le> int (length t) \<and> win_end w \<le> win_start w + m)
    \<and> (\<forall>i. start \<le> i \<longrightarrow> i < int (length t) \<longrightarrow>
        (\<exists>w \<in> set (plan_loop t m ov (window_stride m ov) start). win_start w \<le> i \<and> i < win_end w))"
  using assms
proof (induction t m ov "window_stride m ov" start rule: plan_loop.induct)
  case (1 t m ov start)
  show ?case
  proof (cases "int (length t) \<le> start")
    case True
    then show ?thesis by (simp add: plan_loop.simps)
  next
    case False
    define e where "e = window_end t m (window_stride m ov) start"
    note b = window_end_bounds [OF "1.prems", of t, folded e_def]
    show ?thesis
    proof (cases "int (length t) \<le> e")
      case True
      have p: "plan_loop t m ov (window_stride m ov) start = [\<lparr>win_start = start, win_end = e\<rparr>]"
        using False True by (subst plan_loop.simps) (simp add: e_def [symmetric])
      show ?thesis unfolding p using b False True by simp
    next
      case e: False
      let ?n = "max (e - ov) (start + 1)"
      have p: "plan_loop t m ov (window_stride m ov) start =
          \<lparr>win_start = start, win_end = e\<rparr> # plan_loop t m ov (window_stride m ov) ?n"
        using False e by (subst plan_loop.simps) (simp add: e_def [symmetric])
      have n: "start < ?n" "?n \<le> e" "0 \<le> ?n" using b(1) False "1.prems" by auto
      note ih = "1.hyps" [OF False e_def refl e "1.prems"(1,2) n(3)]
      have "\<exists>w \<in> set (plan_loop t m ov (window_stride m ov) start). win_start w \<le> i \<and> i < win_end w"
        if "start \<le> i" "i < int (length t)" for i
        using ih that n(2) unfolding p by (cases "i < e") auto
      with ih b False n show ?thesis unfolding p by fastforce
    qed
  qed
qed

text \<open>
  C31: The windows of a text cover it: for any sizes with at least one character per window and no
  negative overlap, every window is a nonempty slice of the text no longer than the maximum, and every
  character is in at least one window. The planning loop terminates for all sizes.
\<close>

theorem plan_windows_cover:
  assumes "1 \<le> max_chars" "0 \<le> overlap_chars" "t \<noteq> []"
  shows "(\<forall>w \<in> set (plan_windows t max_chars overlap_chars).
      0 \<le> win_start w \<and> win_start w < win_end w \<and> win_end w \<le> int (length t) \<and> win_end w - win_start w \<le> max_chars)
    \<and> (\<forall>i. 0 \<le> i \<longrightarrow> i < int (length t) \<longrightarrow>
        (\<exists>w \<in> set (plan_windows t max_chars overlap_chars). win_start w \<le> i \<and> i < win_end w))"
  using plan_loop_windows [OF assms(1,2), of 0 t] assms(3) by (auto simp: plan_windows_def)

theorem plan_windows_cover_witness:
  "let ws = plan_windows ''one two three'' 6 2 in length ws = 4 \<and> win_start (ws ! 1) < win_end (ws ! 1)
     \<and> win_end (ws ! 1) - win_start (ws ! 1) \<le> 6"
proof -
  have l: "length (plan_windows ''one two three'' 6 2) = 4" by code_simp
  then have "plan_windows ''one two three'' 6 2 ! 1 \<in> set (plan_windows ''one two three'' 6 2)" by simp
  then show ?thesis using plan_windows_cover [of 6 2 "''one two three''"] l by (simp add: Let_def)
qed

section \<open>Entities at the cuts\<close>

text \<open>A window that holds the stretch from \<open>a\<close> to \<open>b\<close> clear of its interior edges.\<close>

definition holds_whole :: "Window \<Rightarrow> int \<Rightarrow> int \<Rightarrow> int \<Rightarrow> bool" where
  "holds_whole w a b len \<longleftrightarrow> win_start w \<le> a \<and> b \<le> win_end w \<and>
     (win_start w = 0 \<or> win_start w < a) \<and> (win_end w = len \<or> b < win_end w)"

lemma plan_loop_holds:
  assumes "3 \<le> m" "0 \<le> ov" "0 \<le> start" "start < a \<or> start = 0 \<and> a = 0"
    and "a < b" "b \<le> int (length t)" "b - a < ov" "b - a \<le> window_stride m ov div 2"
  shows "\<exists>w \<in> set (plan_loop t m ov (window_stride m ov) start). holds_whole w a b (int (length t))"
  using assms
proof (induction t m ov "window_stride m ov" start rule: plan_loop.induct)
  case (1 t m ov start)
  have l: "\<not> int (length t) \<le> start" using "1.prems" by auto
  define e where "e = window_end t m (window_stride m ov) start"
  have m1: "1 \<le> m" using "1.prems"(1) by simp
  note bd = window_end_bounds [OF m1 "1.prems"(2,3), of t, folded e_def]
  show ?case
  proof (cases "int (length t) \<le> e")
    case True
    have p: "plan_loop t m ov (window_stride m ov) start = [\<lparr>win_start = start, win_end = e\<rparr>]"
      using l True by (subst plan_loop.simps) (simp add: e_def [symmetric])
    show ?thesis unfolding p using bd(3) l True "1.prems"(4,6) by (auto simp: holds_whole_def)
  next
    case False
    let ?n = "max (e - ov) (start + 1)"
    have p: "plan_loop t m ov (window_stride m ov) start =
        \<lparr>win_start = start, win_end = e\<rparr> # plan_loop t m ov (window_stride m ov) ?n"
      using l False by (subst plan_loop.simps) (simp add: e_def [symmetric])
    show ?thesis
    proof (cases "?n < a")
      case True
      have n: "0 \<le> ?n" using "1.prems"(3) by auto
      from "1.hyps" [OF l e_def refl False "1.prems"(1,2) n disjI1 [OF True] "1.prems"(5-8)]
      show ?thesis unfolding p by auto
    next
      case na: False
      have "start + window_stride m ov div 2 + 2 \<le> e" using bd(4) l False "1.prems"(1) by auto
      then have "b < e" using na "1.prems"(4,7,8) by auto
      then show ?thesis unfolding p using "1.prems"(4) by (auto simp: holds_whole_def)
    qed
  qed
qed

lemma plan_windows_holds:
  assumes "3 \<le> m" "0 \<le> ov" "0 \<le> a" "a < b" "b \<le> int (length t)" "b - a < ov" "b - a \<le> window_stride m ov div 2"
  shows "\<exists>w \<in> set (plan_windows t m ov). holds_whole w a b (int (length t))"
proof (cases "int (length t) \<le> m")
  case True
  then show ?thesis using assms(3,5) by (simp add: plan_windows_def holds_whole_def)
next
  case False
  then show ?thesis using plan_loop_holds [OF assms(1,2) _ _ assms(4-7), of 0] assms(3)
    by (cases "a = 0") (auto simp: plan_windows_def)
qed

section \<open>The chunked detector\<close>

lemma first_error_None: "first_error rs = None \<longleftrightarrow> (\<forall>r \<in> set rs. \<exists>x. r = Inr x)"
  by (induction rs rule: first_error.induct) auto

lemma first_error_Some: "first_error rs = Some e \<Longrightarrow> Inl e \<in> set rs"
  by (induction rs rule: first_error.induct) auto

lemma chunked_answers:
  assumes "length (plan_windows t m ov) \<noteq> 1"
  shows "(\<exists>spans. ChunkedDetector inner m ov t lang ents = Inr spans) \<longleftrightarrow>
      (\<forall>w \<in> set (plan_windows t m ov). \<exists>spans. inner (window_text_from w t) lang ents = Inr spans)"
proof -
  let ?rs = "map (\<lambda>w. inner (window_text_from w t) lang ents) (plan_windows t m ov)"
  have "(\<exists>spans. ChunkedDetector inner m ov t lang ents = Inr spans) \<longleftrightarrow> first_error ?rs = None"
    using assms by (auto simp: ChunkedDetector_def Let_def split: option.splits)
  then show ?thesis by (auto simp: first_error_None)
qed

text \<open>
  C33: Detection over windows fails closed: when a text is split and the inner detector fails on any of
  its windows, the whole detection is one of these failures, never a partial list of spans; and it
  answers spans exactly when every window did.
\<close>

theorem chunked_fails_closed:
  assumes "length (plan_windows t m ov) \<noteq> 1"
  shows "((\<exists>spans. ChunkedDetector inner m ov t lang ents = Inr spans) \<longleftrightarrow>
      (\<forall>w \<in> set (plan_windows t m ov). \<exists>spans. inner (window_text_from w t) lang ents = Inr spans))
    \<and> (\<forall>e. ChunkedDetector inner m ov t lang ents = Inl e \<longrightarrow>
      (\<exists>w \<in> set (plan_windows t m ov). inner (window_text_from w t) lang ents = Inl e))"
proof (intro conjI allI impI)
  show "(\<exists>spans. ChunkedDetector inner m ov t lang ents = Inr spans) \<longleftrightarrow>
      (\<forall>w \<in> set (plan_windows t m ov). \<exists>spans. inner (window_text_from w t) lang ents = Inr spans)"
    by (rule chunked_answers [OF assms])
next
  fix e
  let ?rs = "map (\<lambda>w. inner (window_text_from w t) lang ents) (plan_windows t m ov)"
  assume "ChunkedDetector inner m ov t lang ents = Inl e"
  then have "first_error ?rs = Some e"
    using assms by (auto simp: ChunkedDetector_def Let_def split: option.splits)
  from first_error_Some [OF this]
  show "\<exists>w \<in> set (plan_windows t m ov). inner (window_text_from w t) lang ents = Inl e" by (auto simp: eq_commute)
qed

theorem chunked_fails_closed_witness:
  "\<not> (\<exists>spans. ChunkedDetector (\<lambda>t l e. if t = ''e two '' then Inl (DetectorUnavailable NER ''down'') else Inr []) 6 2
      ''one two three'' ''en'' None = Inr spans)"
proof -
  let ?d = "\<lambda>t l e. if t = ''e two '' then Inl (DetectorUnavailable NER ''down'') else Inr []"
  have "length (plan_windows ''one two three'' 6 2) \<noteq> 1" by code_simp
  moreover have "\<lparr>win_start = 2, win_end = 8\<rparr> \<in> set (plan_windows ''one two three'' 6 2)" by code_simp
  moreover have "window_text_from \<lparr>win_start = 2, win_end = 8\<rparr> ''one two three'' = ''e two ''" by code_simp
  ultimately show ?thesis using chunked_fails_closed [of "''one two three''" 6 2 ?d "''en''" None] by fastforce
qed

lemma chunked_result:
  assumes "length (plan_windows t m ov) \<noteq> 1" "ChunkedDetector inner m ov t lang ents = Inr spans"
  shows "set spans = {sp. \<exists>w \<in> set (plan_windows t m ov). \<exists>ss.
      inner (window_text_from w t) lang ents = Inr ss \<and> sp \<in> set (shift_spans ss w (int (length t)))}"
proof -
  let ?ws = "plan_windows t m ov" and ?f = "\<lambda>w. inner (window_text_from w t) lang ents"
  have "spans = concat (map (\<lambda>(w, r). case r of Inl e \<Rightarrow> [] | Inr spans \<Rightarrow> shift_spans spans w (int (length t)))
      (zip ?ws (map ?f ?ws)))"
    using assms by (auto simp: ChunkedDetector_def Let_def split: option.splits)
  also have "zip ?ws (map ?f ?ws) = map (\<lambda>w. (w, ?f w)) ?ws" by (simp add: zip_map2 zip_same_conv_map)
  finally show ?thesis by (auto split: sum.splits) metis
qed

text \<open>
  C32: A short entity at a cut is not lost. Let an entity be shorter than the overlap and no longer than
  half a stride (with the defaults of 2000 and 200: up to 199 characters). If the inner detector reports
  it in every window that holds it whole and no window fails, the chunked detector reports it at its
  offsets in the original text.
\<close>

theorem chunked_finds_entities:
  assumes "3 \<le> m" "0 \<le> ov" "0 \<le> a" "a < b" "b \<le> int (length t)"
    and "b - a < ov" "b - a \<le> window_stride m ov div 2"
    and "\<And>w. w \<in> set (plan_windows t m ov) \<Longrightarrow> win_start w \<le> a \<Longrightarrow> b \<le> win_end w \<Longrightarrow>
      \<exists>ss. inner (window_text_from w t) lang ents = Inr ss \<and>
        \<lparr>entity_type = e, span_start = a - win_start w, span_end = b - win_start w, score = s, detector = d\<rparr> \<in> set ss"
    and "length (plan_windows t m ov) \<noteq> 1" "ChunkedDetector inner m ov t lang ents = Inr spans"
  shows "\<lparr>entity_type = e, span_start = a, span_end = b, score = s, detector = d\<rparr> \<in> set spans"
proof -
  obtain w where w: "w \<in> set (plan_windows t m ov)" "holds_whole w a b (int (length t))"
    using plan_windows_holds [OF assms(1-7)] by blast
  let ?sp = "\<lparr>entity_type = e, span_start = a - win_start w, span_end = b - win_start w, score = s, detector = d\<rparr>"
  obtain ss where ss: "inner (window_text_from w t) lang ents = Inr ss" "?sp \<in> set ss"
    using assms(8) [OF w(1)] w(2) by (auto simp: holds_whole_def)
  have "\<not> touches_interior_edge ?sp w (int (length t))"
    using w(2) by (auto simp: touches_interior_edge_def holds_whole_def)
  then have "\<lparr>entity_type = e, span_start = a, span_end = b, score = s, detector = d\<rparr> \<in> set (shift_spans ss w (int (length t)))"
    using ss(2) by (force simp: shift_spans_def image_iff)
  then show ?thesis using chunked_result [OF assms(9,10)] w(1) ss(1) by blast
qed

text \<open>A stand-in for an inference server: it reports one occurrence of a word.\<close>

definition reports :: "string \<Rightarrow> PiiDetector" where
  "reports word t lang ents = Inr (case rfind t word 0 (length t) of
     None \<Rightarrow> []
   | Some i \<Rightarrow> [\<lparr>entity_type = ''PERSON'', span_start = int i, span_end = int (i + length word), score = 1, detector = NER\<rparr>])"

theorem chunked_finds_entities_witness:
  "\<exists>spans. ChunkedDetector (reports ''Bob'') 12 5 ''we saw Bob near the lake'' ''en'' None = Inr spans \<and>
     \<lparr>entity_type = ''PERSON'', span_start = 7, span_end = 10, score = 1, detector = NER\<rparr> \<in> set spans"
proof -
  let ?t = "''we saw Bob near the lake''"
  have ws: "plan_windows ?t 12 5 = [\<lparr>win_start = 0, win_end = 11\<rparr>, \<lparr>win_start = 6, win_end = 16\<rparr>,
      \<lparr>win_start = 11, win_end = 20\<rparr>, \<lparr>win_start = 15, win_end = 24\<rparr>]" by code_simp
  have s: "window_stride 12 5 div 2 = 3" by code_simp
  have "reports ''Bob'' (window_text_from \<lparr>win_start = 0, win_end = 11\<rparr> ?t) ''en'' None =
      Inr [\<lparr>entity_type = ''PERSON'', span_start = 7, span_end = 10, score = 1, detector = NER\<rparr>]"
    "reports ''Bob'' (window_text_from \<lparr>win_start = 6, win_end = 16\<rparr> ?t) ''en'' None =
      Inr [\<lparr>entity_type = ''PERSON'', span_start = 1, span_end = 4, score = 1, detector = NER\<rparr>]" by code_simp+
  then have f: "\<exists>ss. reports ''Bob'' (window_text_from w ?t) ''en'' None = Inr ss \<and>
        \<lparr>entity_type = ''PERSON'', span_start = 7 - win_start w, span_end = 10 - win_start w, score = 1, detector = NER\<rparr> \<in> set ss"
    if "w \<in> set (plan_windows ?t 12 5)" "win_start w \<le> 7" "10 \<le> win_end w" for w
    using that unfolding ws by auto
  obtain spans where r: "ChunkedDetector (reports ''Bob'') 12 5 ?t ''en'' None = Inr spans"
    using chunked_answers [of ?t 12 5 "reports ''Bob''" "''en''" None] ws by (auto simp: reports_def)
  have "\<lparr>entity_type = ''PERSON'', span_start = 7, span_end = 10, score = 1, detector = NER\<rparr> \<in> set spans"
    by (rule chunked_finds_entities [where t = ?t, OF _ _ _ _ _ _ _ f _ r]) (simp_all add: s ws)
  with r show ?thesis by blast
qed


section \<open>A window of no characters\<close>

lemma window_end_zero:
  assumes "0 \<le> start" "start < int (length t)" "1 \<le> stride"
  shows "window_end t 0 stride start = start"
proof -
  have "\<forall>b \<in> set BOUNDARIES. b \<noteq> []" by (simp add: BOUNDARIES_def)
  moreover have "0 \<le> stride div 2" using assms(3) by simp
  ultimately show ?thesis
    using cut_at_bounds [of "start + stride div 2" start t BOUNDARIES] assms
    by (auto simp: window_end_def cut_at_def)
qed

lemma plan_loop_zero:
  assumes "0 \<le> ov" "0 \<le> start" "1 \<le> stride" "start \<le> int (length t)"
  shows "length (plan_loop t 0 ov stride start) = nat (int (length t) - start) \<and>
    (\<forall>w \<in> set (plan_loop t 0 ov stride start). window_text_from w t = [])"
  using assms
proof (induction t "0 :: int" ov stride start rule: plan_loop.induct)
  case (1 t ov stride start)
  show ?case
  proof (cases "int (length t) \<le> start")
    case True
    then show ?thesis by (simp add: plan_loop.simps)
  next
    case False
    then have e: "start = window_end t 0 stride start" using "1.prems" by (simp add: window_end_zero)
    have m: "max (start - ov) (start + 1) = start + 1" using "1.prems" by auto
    have p: "plan_loop t 0 ov stride start = \<lparr>win_start = start, win_end = start\<rparr> # plan_loop t 0 ov stride (start + 1)"
      using False e m by (subst plan_loop.simps) (simp add: e [symmetric])
    have "window_text_from \<lparr>win_start = start, win_end = start\<rparr> t = []"
      by (simp add: window_text_from_def py_slice_def Let_def)
    with "1.hyps" [OF False e refl False "1.prems"(1) _ "1.prems"(3)] m "1.prems" False show ?thesis
      unfolding p by (auto simp: Suc_nat_eq_nat_zadd1)
  qed
qed

text \<open>
  C39: A maximum of zero characters per window, which the environment setting admits, blinds the stage:
  every text of two characters or more is cut into empty windows, so a detector that (rightly) finds
  nothing in an empty text reports any such text as clean.
\<close>

theorem chunked_zero_reports_clean:
  assumes "2 \<le> length t" "0 \<le> ov" "inner [] lang ents = Inr []"
  shows "ChunkedDetector inner 0 ov t lang ents = Inr []"
proof -
  have s: "1 \<le> window_stride 0 ov" by (simp add: window_stride_def)
  have p: "plan_windows t 0 ov = plan_loop t 0 ov (window_stride 0 ov) 0"
    using assms(1) by (auto simp: plan_windows_def)
  note z = plan_loop_zero [OF assms(2) order.refl s, of t, folded p]
  have l: "length (plan_windows t 0 ov) \<noteq> 1" using z assms(1) by auto
  have "\<forall>w \<in> set (plan_windows t 0 ov). inner (window_text_from w t) lang ents = Inr []" using z assms(3) by auto
  moreover from this obtain spans where r: "ChunkedDetector inner 0 ov t lang ents = Inr spans"
    using chunked_answers [OF l] by blast
  ultimately show ?thesis using chunked_result [OF l r] by (auto simp: shift_spans_def)
qed

theorem chunked_zero_reports_clean_witness:
  "ChunkedDetector (reports ''Bob'') 0 200 ''we saw Bob'' ''en'' None = Inr []"
proof (rule chunked_zero_reports_clean)
  show "reports ''Bob'' [] ''en'' None = Inr []" by code_simp
qed simp_all

end
