(* ===== verification/Detectors.thy ===== *)
theory Detectors
  imports Chunking
begin

text \<open>
  The two detection stages and their cascade: \<open>litellm/pii/detection/http.py\<close>,
  \<open>presidio_rules.py\<close>, \<open>piiranha.py\<close> and \<open>cascade.py\<close>. The HTTP client is a parameter, and so is
  \<open>py_str\<close>, Python's rendering of a JSON value inside an error message.
\<close>

section \<open>HTTP\<close>

definition DEFAULT_DETECTOR_TIMEOUT_SECONDS :: rat where "DEFAULT_DETECTOR_TIMEOUT_SECONDS = 10"

definition JSON_HEADERS :: "(string, string) dict" where
  "JSON_HEADERS = [(''Accept'', ''application/json'')]"

text \<open>\<open>JsonResponse | TransportFailure\<close>.\<close>

datatype http_result = JsonResponse int pyobj | TransportFailure string

type_synonym JsonPoster = "string \<Rightarrow> (string, pyobj) dict \<Rightarrow> http_result"

text \<open>What the client answers: status, the content type header if there is one, and the parsed body or the exception of parsing it.\<close>

record HttpResponse =
  status_code :: int
  content_type :: "string option"
  response_json :: "string + pyobj"

type_synonym http_post = "string \<Rightarrow> (string, pyobj) dict \<Rightarrow> (string, string) dict \<Rightarrow> rat \<Rightarrow> string + HttpResponse"

definition HttpxJsonPoster :: "http_post \<Rightarrow> rat \<Rightarrow> JsonPoster" where
  "HttpxJsonPoster client_post timeout_seconds url payload =
     (case client_post url payload JSON_HEADERS timeout_seconds of
        Inl exc \<Rightarrow> TransportFailure exc
      | Inr response \<Rightarrow>
          (let ctype = (case content_type response of None \<Rightarrow> [] | Some c \<Rightarrow> c) in
           if \<not> contains ctype ''application/json''
           then TransportFailure (''non-JSON Content-Type '' @ [CHR 0x27] @ ctype @ [CHR 0x27])
           else (case response_json response of
               Inl exc \<Rightarrow> TransportFailure (''malformed JSON body ('' @ exc @ '')'')
             | Inr body \<Rightarrow> JsonResponse (status_code response) body)))"

text \<open>\<open>isinstance(body, Mapping) and "error" in body\<close>\<close>

definition has_error :: "pyobj \<Rightarrow> bool" where
  "has_error body = (case as_dict body of None \<Rightarrow> False | Some d \<Rightarrow> map_of d ''error'' \<noteq> None)"

section \<open>Stage 1: rules\<close>

definition RULE_BASED_ENTITIES :: "string list" where
  "RULE_BASED_ENTITIES =
     [''CREDIT_CARD'', ''CRYPTO'', ''EMAIL_ADDRESS'', ''IBAN_CODE'', ''IP_ADDRESS'', ''MEDICAL_LICENSE'',
      ''PHONE_NUMBER'', ''URL'', ''US_BANK_NUMBER'', ''US_DRIVER_LICENSE'', ''US_ITIN'', ''US_PASSPORT'', ''US_SSN'',
      ''UK_NHS'', ''UK_NINO'', ''UK_PASSPORT'', ''UK_POSTCODE'', ''UK_VEHICLE_REGISTRATION'', ''ES_NIF'', ''ES_NIE'',
      ''IT_FISCAL_CODE'', ''IT_DRIVER_LICENSE'', ''IT_VAT_CODE'', ''IT_PASSPORT'', ''IT_IDENTITY_CARD'', ''PL_PESEL'',
      ''SG_NRIC_FIN'', ''SG_UEN'', ''AU_ABN'', ''AU_ACN'', ''AU_TFN'', ''AU_MEDICARE'', ''IN_PAN'', ''IN_AADHAAR'',
      ''IN_VEHICLE_REGISTRATION'', ''IN_VOTER'', ''IN_PASSPORT'', ''FI_PERSONAL_IDENTITY_CODE'']"

definition normalize_base_url :: "string \<Rightarrow> string" where
  "normalize_base_url api_base =
     (let with_scheme = (if startswith api_base ''http://'' \<or> startswith api_base ''https://'' then api_base
                         else ''http://'' @ api_base)
      in if endswith with_scheme ''/'' then with_scheme else with_scheme @ ''/'')"

text \<open>\<open>item.get("score", 0.0)\<close>: the default stands for a missing key only.\<close>

definition score_field :: "(string, pyobj) dict \<Rightarrow> pyobj" where
  "score_field item = (case map_of item ''score'' of None \<Rightarrow> PFloat 0 | Some v \<Rightarrow> v)"

definition parse_item :: "pyobj \<Rightarrow> PiiSpan option" where
  "parse_item item =
     (case as_dict item of
        None \<Rightarrow> None
      | Some d \<Rightarrow>
          (case (as_str (obj_get d ''entity_type''), as_int (obj_get d ''start''), as_int (obj_get d ''end'')) of
             (Some ety, Some start, Some end) \<Rightarrow>
               (case as_float (score_field d) of
                  None \<Rightarrow> None
                | Some s \<Rightarrow>
                    if end \<le> start then None
                    else Some \<lparr>entity_type = ety, span_start = start, span_end = end, score = s, detector = RULES\<rparr>)
           | _ \<Rightarrow> None))"

record PresidioRulesDetector =
  analyzer_api_base :: string
  ad_hoc_recognizers :: "pyobj list option"
  rules_score_threshold :: "rat option"

definition requested_entities :: "string list option \<Rightarrow> string list" where
  "requested_entities entities =
     (case entities of
        None \<Rightarrow> RULE_BASED_ENTITIES
      | Some es \<Rightarrow> if es = [] then RULE_BASED_ENTITIES else filter (\<lambda>e. e \<in> set es) RULE_BASED_ENTITIES)"

definition presidio_payload ::
  "PresidioRulesDetector \<Rightarrow> string \<Rightarrow> string \<Rightarrow> string list \<Rightarrow> (string, pyobj) dict" where
  "presidio_payload self t language requested =
     [(''text'', PStr t), (''language'', PStr language),
      (''entities'', PList (map PStr (py_sorted (\<lambda>e. e) requested)))]
     @ (case rules_score_threshold self of None \<Rightarrow> [] | Some s \<Rightarrow> [(''score_threshold'', PFloat s)])
     @ (case ad_hoc_recognizers self of
          None \<Rightarrow> []
        | Some rs \<Rightarrow> if rs = [] then [] else [(''ad_hoc_recognizers'', PList rs)])"

definition presidio_detect :: "(pyobj \<Rightarrow> string) \<Rightarrow> JsonPoster \<Rightarrow> PresidioRulesDetector \<Rightarrow> PiiDetector" where
  "presidio_detect py_str post_json self t language entities =
     (if strip t = [] then Inr []
      else (let requested = requested_entities entities in
        if requested = [] then Inr []
        else
          (case post_json (normalize_base_url (analyzer_api_base self) @ ''analyze'')
                  (presidio_payload self t language requested) of
             TransportFailure reason \<Rightarrow> Inl (DetectorUnavailable RULES reason)
           | JsonResponse status body \<Rightarrow>
               if 400 \<le> status then
                 Inl (DetectorUnavailable RULES (''HTTP '' @ show_int status @ '' from Presidio analyzer''))
               else if has_error body then
                 Inl (DetectorInvalidResponse RULES (''analyzer error: '' @ py_str (obj_get (the (as_dict body)) ''error'')))
               else (case as_list body of
                   None \<Rightarrow> Inl (DetectorInvalidResponse RULES (''expected list, received '' @ type_name body))
                 | Some items \<Rightarrow> Inr (List.map_filter parse_item items)))))"

section \<open>Stage 2: NER\<close>

definition unwrap_batch :: "pyobj \<Rightarrow> pyobj list option" where
  "unwrap_batch body =
     (case as_list body of
        None \<Rightarrow> None
      | Some xs \<Rightarrow>
          (case xs of
             [x] \<Rightarrow> (case as_list x of Some ys \<Rightarrow> Some ys | None \<Rightarrow> Some xs)
           | _ \<Rightarrow> Some xs))"

text \<open>\<open>item.get("entity_group") or item.get("entity")\<close>\<close>

definition raw_label_field :: "(string, pyobj) dict \<Rightarrow> pyobj" where
  "raw_label_field item = (let g = obj_get item ''entity_group'' in if truthy g then g else obj_get item ''entity'')"

definition parse_prediction :: "pyobj \<Rightarrow> rat \<Rightarrow> (string, string) dict \<Rightarrow> PiiSpan option" where
  "parse_prediction item threshold label_map =
     (case as_dict item of
        None \<Rightarrow> None
      | Some d \<Rightarrow>
          (case (as_str (raw_label_field d), as_int (obj_get d ''start''), as_int (obj_get d ''end'')) of
             (Some raw_label, Some start, Some end) \<Rightarrow>
               (case as_float (score_field d) of
                  None \<Rightarrow> None
                | Some s \<Rightarrow>
                    if s < threshold \<or> end \<le> start then None
                    else (case map_label raw_label (Some label_map) of
                        None \<Rightarrow> None
                      | Some ety \<Rightarrow>
                          Some \<lparr>entity_type = ety, span_start = start, span_end = end, score = s, detector = NER\<rparr>))
           | _ \<Rightarrow> None))"

record PiiranhaDetector =
  ner_base :: string
  ner_threshold :: rat
  ner_api_key :: "string option"
  ner_labels :: "(string, string) dict"

definition piiranha_detect :: "(pyobj \<Rightarrow> string) \<Rightarrow> JsonPoster \<Rightarrow> PiiranhaDetector \<Rightarrow> PiiDetector" where
  "piiranha_detect py_str post_json self t language entities =
     (if strip t = [] then Inr []
      else
        (case post_json (ner_base self) [(''inputs'', PStr t)] of
           TransportFailure reason \<Rightarrow> Inl (DetectorUnavailable NER reason)
         | JsonResponse status body \<Rightarrow>
             if 400 \<le> status then
               Inl (DetectorUnavailable NER (''HTTP '' @ show_int status @ '' from NER inference server''))
             else if has_error body then
               Inl (DetectorInvalidResponse NER (''inference error: '' @ py_str (obj_get (the (as_dict body)) ''error'')))
             else (case unwrap_batch body of
                 None \<Rightarrow> Inl (DetectorInvalidResponse NER (''expected list, received '' @ type_name body))
               | Some predictions \<Rightarrow>
                   (let spans = List.map_filter (\<lambda>item. parse_prediction item (ner_threshold self) (ner_labels self)) predictions
                    in case entities of
                         None \<Rightarrow> Inr spans
                       | Some es \<Rightarrow>
                           if es = [] then Inr spans else Inr (filter (\<lambda>sp. entity_type sp \<in> set es) spans)))))"

section \<open>The cascade\<close>

datatype NerStagePolicy = NEVER | ON_MISS | ON_LOW_CONFIDENCE | ALWAYS

fun NerStagePolicy_value :: "NerStagePolicy \<Rightarrow> string" where
  "NerStagePolicy_value NEVER = ''never''"
| "NerStagePolicy_value ON_MISS = ''on_miss''"
| "NerStagePolicy_value ON_LOW_CONFIDENCE = ''on_low_confidence''"
| "NerStagePolicy_value ALWAYS = ''always''"

fun should_run_ner :: "NerStagePolicy \<Rightarrow> PiiSpan list \<Rightarrow> rat \<Rightarrow> bool" where
  "should_run_ner NEVER rule_spans low = False"
| "should_run_ner ALWAYS rule_spans low = True"
| "should_run_ner ON_MISS rule_spans low = (rule_spans = [])"
| "should_run_ner ON_LOW_CONFIDENCE rule_spans low =
     (rule_spans = [] \<or> foldr max (map score (tl rule_spans)) (score (hd rule_spans)) < low)"

record CascadingDetector =
  rules_stage :: PiiDetector
  ner_stage :: "PiiDetector option"
  stage_policy :: NerStagePolicy
  low_confidence_threshold :: rat
  cascade_fail_closed :: bool

definition cascade_detect ::
  "CascadingDetector \<Rightarrow> string \<Rightarrow> string \<Rightarrow> string list option \<Rightarrow> pii_error + DetectionResult" where
  "cascade_detect self t language entities =
     (case rules_stage self t language entities of
        Inl err \<Rightarrow>
          if cascade_fail_closed self then Inl err else Inr \<lparr>result_spans = [], ner_stage_ran = False\<rparr>
      | Inr rule_spans \<Rightarrow>
          (let rules_only = \<lparr>result_spans = merge_spans t [rule_spans], ner_stage_ran = False\<rparr> in
           case ner_stage self of
             None \<Rightarrow> Inr rules_only
           | Some ner \<Rightarrow>
               if \<not> should_run_ner (stage_policy self) rule_spans (low_confidence_threshold self) then Inr rules_only
               else
                 (case ner t language entities of
                    Inl err \<Rightarrow> if cascade_fail_closed self then Inl err else Inr rules_only
                  | Inr ner_spans \<Rightarrow>
                      Inr \<lparr>result_spans = merge_spans t [rule_spans, ner_spans], ner_stage_ran = True\<rparr>)))"

section \<open>Failing closed\<close>



lemma presidio_answer:
  "presidio_detect py_str post self t lang ents = Inr spans \<longleftrightarrow>
    (if strip t = [] \<or> requested_entities ents = [] then spans = []
     else (\<exists>status items. post (normalize_base_url (analyzer_api_base self) @ ''analyze'')
              (presidio_payload self t lang (requested_entities ents)) = JsonResponse status (PList items)
            \<and> status < 400 \<and> spans = List.map_filter parse_item items))"
proof -
  have l: "as_list b = Some items \<longleftrightarrow> b = PList items" for b items by (cases b) auto
  have e: "\<not> has_error (PList items)" for items by (simp add: has_error_def)
  show ?thesis using e
    by (auto simp: presidio_detect_def Let_def l split: http_result.splits option.splits if_splits)
qed

lemma piiranha_answer:
  assumes "piiranha_detect py_str post self t lang ents = Inr spans" "strip t \<noteq> []"
  shows "\<exists>status items. post (ner_base self) [(''inputs'', PStr t)] = JsonResponse status (PList items) \<and> status < 400
    \<and> set spans \<subseteq> set (List.map_filter (\<lambda>item. parse_prediction item (ner_threshold self) (ner_labels self))
        (the (unwrap_batch (PList items))))"
proof -
  have l: "unwrap_batch b = Some xs \<Longrightarrow> \<exists>items. b = PList items" for b xs
    by (cases b) (auto simp: unwrap_batch_def)
  from assms obtain status body preds where p: "post (ner_base self) [(''inputs'', PStr t)] = JsonResponse status body"
    "status < 400" "unwrap_batch body = Some preds"
    "set spans \<subseteq> set (List.map_filter (\<lambda>item. parse_prediction item (ner_threshold self) (ner_labels self)) preds)"
    by (auto simp: piiranha_detect_def Let_def split: http_result.splits option.splits if_splits)
  with l [OF p(3)] show ?thesis by auto
qed

text \<open>
  A stage that answers has really scanned. If either stage answers spans (in particular none at all)
  for a text that is not blank, with an entity list it covers, then the service was reached, answered
  a status below 400, and its body was a list: a transport failure, an HTTP error, an error body or any
  other shape is never read as a clean text.
\<close>

lemma stage_answer_was_scanned:
  assumes "strip t \<noteq> []"
  shows "(requested_entities ents \<noteq> [] \<longrightarrow> presidio_detect py_str post self t lang ents = Inr spans \<longrightarrow>
      (\<exists>status items. post (normalize_base_url (analyzer_api_base self) @ ''analyze'')
          (presidio_payload self t lang (requested_entities ents)) = JsonResponse status (PList items)
        \<and> status < 400 \<and> spans = List.map_filter parse_item items))
    \<and> (piiranha_detect py_str post self' t lang ents = Inr spans \<longrightarrow>
      (\<exists>status items. post (ner_base self') [(''inputs'', PStr t)] = JsonResponse status (PList items) \<and> status < 400))"
  using presidio_answer [of py_str post self t lang ents spans] piiranha_answer [of py_str post self' t lang ents spans] assms
  by auto

lemma stage_answer_was_scanned_witness:
  "presidio_detect (\<lambda>x. []) (\<lambda>u p. TransportFailure ''ConnectError'')
     \<lparr>analyzer_api_base = ''h'', ad_hoc_recognizers = None, rules_score_threshold = None\<rparr> ''Bob'' ''en'' None \<noteq> Inr []"
proof -
  have "strip ''Bob'' \<noteq> []" "requested_entities None \<noteq> []" by (code_simp, simp add: requested_entities_def RULE_BASED_ENTITIES_def)
  with stage_answer_was_scanned [of "''Bob''" None "\<lambda>x. []" "\<lambda>u p. TransportFailure ''ConnectError''"
      "\<lparr>analyzer_api_base = ''h'', ad_hoc_recognizers = None, rules_score_threshold = None\<rparr>" "''en''" "[]"]
  show ?thesis by auto
qed

section \<open>What the model stage reports\<close>

lemma parse_prediction_Some:
  assumes "parse_prediction item th lm = Some sp"
  shows "\<exists>raw. map_label raw (Some lm) = Some (entity_type sp)" "th \<le> score sp" "span_start sp < span_end sp" "detector sp = NER"
  using assms by (auto simp: parse_prediction_def split: option.splits if_splits)

text \<open>
  C35: The model stage reports only what it may: with any label map of the configuration, every span it
  answers is of the closed vocabulary (so its token can be recognised again), reaches the score
  threshold, is not empty, is marked as coming from NER and, where entities were requested, is one of
  them.
\<close>

theorem piiranha_reports_vocabulary:
  assumes "piiranha_detect py_str post self t lang ents = Inr spans" "ner_labels self = label_map_by_name name" "sp \<in> set spans"
  shows "entity_type sp \<in> set ENTITY_VOCABULARY \<and> ner_threshold self \<le> score sp \<and> span_start sp < span_end sp
    \<and> detector sp = NER \<and> (case ents of Some (e # es) \<Rightarrow> entity_type sp \<in> set (e # es) | _ \<Rightarrow> True)"
proof -
  have ne: "strip t \<noteq> []" using assms(1,3) by (auto simp: piiranha_detect_def split: if_splits)
  from piiranha_answer [OF assms(1) ne] assms(3) obtain item where
    p: "parse_prediction item (ner_threshold self) (ner_labels self) = Some sp"
    by (auto simp: List.map_filter_def)
  note q = parse_prediction_Some [OF p]
  from q(1) have "entity_type sp \<in> set ENTITY_VOCABULARY"
    unfolding assms(2) by (auto simp: map_label_def intro: label_map_by_name_vocabulary)
  moreover have "case ents of Some (e # es) \<Rightarrow> entity_type sp \<in> set (e # es) | _ \<Rightarrow> True"
    using assms(1,3) ne
    by (auto simp: piiranha_detect_def Let_def split: http_result.splits option.splits list.splits if_splits)
  ultimately show ?thesis using q(2-4) by blast
qed

definition sample_poster :: JsonPoster where
  "sample_poster url payload = JsonResponse 200 (PList [PDict [(''entity_group'', PStr ''B-GIVENNAME''), (''start'', PInt 0),
     (''end'', PInt 3), (''score'', PFloat 1)]])"

theorem piiranha_reports_vocabulary_witness:
  "\<exists>spans sp. piiranha_detect (\<lambda>x. []) sample_poster
      \<lparr>ner_base = ''h'', ner_threshold = 1 / 2, ner_api_key = None, ner_labels = label_map_by_name None\<rparr> ''Bob'' ''en'' None = Inr spans
    \<and> sp \<in> set spans \<and> entity_type sp \<in> set ENTITY_VOCABULARY"
proof -
  let ?d = "\<lparr>ner_base = ''h'', ner_threshold = 1 / 2, ner_api_key = None, ner_labels = label_map_by_name None\<rparr>"
  have r: "piiranha_detect (\<lambda>x. []) sample_poster ?d ''Bob'' ''en'' None =
      Inr [\<lparr>entity_type = ''PERSON'', span_start = 0, span_end = 3, score = 1, detector = NER\<rparr>]" by code_simp
  from piiranha_reports_vocabulary [OF r, of None "\<lparr>entity_type = ''PERSON'', span_start = 0, span_end = 3, score = 1, detector = NER\<rparr>"]
  show ?thesis using r by auto
qed

end
