(* ===== verification/Json.thy ===== *)
theory Json
  imports Pii_Types
begin

text \<open>
  \<open>json.loads\<close> of the Python library, on the model's strings: the values are \<open>pyobj\<close>, \<open>None\<close> stands
  for the \<open>JSONDecodeError\<close>. Numbers outside the rationals (\<open>NaN\<close>, infinities) and code points above
  255 are not values of the model and count as undecodable.
\<close>

definition json_space :: "char \<Rightarrow> bool" where
  "json_space c \<longleftrightarrow> c \<in> {CHR '' '', CHR 0x09, CHR 0x0A, CHR 0x0D}"

definition skip_ws :: "string \<Rightarrow> string" where
  "skip_ws s = dropWhile json_space s"

definition digits_value :: "string \<Rightarrow> nat" where
  "digits_value ds = foldl (\<lambda>n c. 10 * n + (of_char c - 48)) 0 ds"

definition hex_value :: "char \<Rightarrow> nat option" where
  "hex_value c =
     (if is_digit c then Some (of_char c - 48)
      else if CHR ''a'' \<le> c \<and> c \<le> CHR ''f'' then Some (of_char c - 87)
      else if CHR ''A'' \<le> c \<and> c \<le> CHR ''F'' then Some (of_char c - 55)
      else None)"

text \<open>The rest of a string literal, after its opening quote.\<close>

fun json_string :: "string \<Rightarrow> (string \<times> string) option" where
  "json_string [] = None"
| "json_string (c # cs) =
     (if c = CHR 0x22 then Some ([], cs)
      else if (of_char c :: nat) < 32 then None
      else if c \<noteq> backslash then map_option (\<lambda>(s, r). (c # s, r)) (json_string cs)
      else (case cs of
          [] \<Rightarrow> None
        | e # es \<Rightarrow>
            if e = CHR ''u'' then
              (case es of
                 h1 # h2 # h3 # h4 # r \<Rightarrow>
                   (case (hex_value h1, hex_value h2, hex_value h3, hex_value h4) of
                      (Some 0, Some 0, Some a, Some b) \<Rightarrow>
                        map_option (\<lambda>(s, r). (char_of (16 * a + b) # s, r)) (json_string r)
                    | _ \<Rightarrow> None)
               | _ \<Rightarrow> None)
            else
              (case map_of [(CHR 0x22, CHR 0x22), (backslash, backslash), (CHR ''/'', CHR ''/''), (CHR ''b'', CHR 0x08),
                            (CHR ''f'', CHR 0x0C), (CHR ''n'', CHR 0x0A), (CHR ''r'', CHR 0x0D), (CHR ''t'', CHR 0x09)] e of
                 None \<Rightarrow> None
               | Some x \<Rightarrow> map_option (\<lambda>(s, r). (x # s, r)) (json_string es))))"

text \<open>The fraction and the exponent of a number, where there are any.\<close>

definition json_fraction :: "string \<Rightarrow> (string \<times> string) option" where
  "json_fraction s = (case s of
     c # r \<Rightarrow> if c = CHR ''.'' \<and> takeWhile is_digit r \<noteq> [] then Some (takeWhile is_digit r, dropWhile is_digit r) else None
   | [] \<Rightarrow> None)"

definition json_exponent :: "string \<Rightarrow> (int \<times> string) option" where
  "json_exponent s = (case s of
     c # r \<Rightarrow>
       if c = CHR ''e'' \<or> c = CHR ''E'' then
         (let signed = (r \<noteq> [] \<and> (hd r = CHR ''-'' \<or> hd r = CHR ''+''));
              ds = takeWhile is_digit (if signed then tl r else r);
              n = int (digits_value ds)
          in if ds = [] then None
             else Some (if signed \<and> hd r = CHR ''-'' then - n else n, dropWhile is_digit (if signed then tl r else r)))
       else None
   | [] \<Rightarrow> None)"

definition json_number :: "string \<Rightarrow> (pyobj \<times> string) option" where
  "json_number s =
     (let neg = (s \<noteq> [] \<and> hd s = CHR ''-'');
          t = (if neg then tl s else s);
          ds = (if t \<noteq> [] \<and> hd t = CHR ''0'' then ''0'' else takeWhile is_digit t);
          r = drop (length ds) t;
          sign = (if neg then -1 else 1 :: int)
      in if ds = [] then None
         else (case (json_fraction r, json_exponent (case json_fraction r of None \<Rightarrow> r | Some (_, r') \<Rightarrow> r')) of
             (None, None) \<Rightarrow> Some (PInt (sign * int (digits_value ds)), r)
           | (f, e) \<Rightarrow>
               (let fd = (case f of None \<Rightarrow> [] | Some (fd, _) \<Rightarrow> fd);
                    r1 = (case f of None \<Rightarrow> r | Some (_, r') \<Rightarrow> r');
                    x = (case e of None \<Rightarrow> 0 | Some (x, _) \<Rightarrow> x);
                    r2 = (case e of None \<Rightarrow> r1 | Some (_, r') \<Rightarrow> r');
                    mant = of_int sign * (of_nat (digits_value (ds @ fd)) / 10 ^ length fd) :: rat
                in Some (PFloat (if 0 \<le> x then mant * 10 ^ nat x else mant / 10 ^ nat (- x)), r2))))"

text \<open>A value, the elements of an array and the members of an object; the first argument bounds the nesting.\<close>

fun json_value :: "nat \<Rightarrow> string \<Rightarrow> (pyobj \<times> string) option"
  and json_elements :: "nat \<Rightarrow> string \<Rightarrow> (pyobj list \<times> string) option"
  and json_members :: "nat \<Rightarrow> string \<Rightarrow> ((string \<times> pyobj) list \<times> string) option"
where
  "json_value 0 s = None"
| "json_value (Suc n) s = (case s of
     [] \<Rightarrow> None
   | c # r \<Rightarrow>
       if c = CHR 0x22 then map_option (\<lambda>(t, r). (PStr t, r)) (json_string r)
       else if c = CHR ''['' then
         (if startswith (skip_ws r) '']'' then Some (PList [], tl (skip_ws r))
          else map_option (\<lambda>(xs, r). (PList xs, r)) (json_elements n (skip_ws r)))
       else if c = CHR 0x7B then
         (if startswith (skip_ws r) [CHR 0x7D] then Some (PDict [], tl (skip_ws r))
          else map_option (\<lambda>(ms, r). (PDict (dict_of ms), r)) (json_members n (skip_ws r)))
       else if startswith s ''null'' then Some (PNone, drop 4 s)
       else if startswith s ''true'' then Some (PBool True, drop 4 s)
       else if startswith s ''false'' then Some (PBool False, drop 5 s)
       else json_number s)"
| "json_elements 0 s = None"
| "json_elements (Suc n) s = (case json_value n s of
     None \<Rightarrow> None
   | Some (x, r) \<Rightarrow>
       (case skip_ws r of
          [] \<Rightarrow> None
        | c # r' \<Rightarrow>
            if c = CHR '']'' then Some ([x], r')
            else if c = CHR '','' then map_option (\<lambda>(xs, r). (x # xs, r)) (json_elements n (skip_ws r'))
            else None))"
| "json_members 0 s = None"
| "json_members (Suc n) s = (case s of
     [] \<Rightarrow> None
   | q # r0 \<Rightarrow>
       if q \<noteq> CHR 0x22 then None
       else (case json_string r0 of
           None \<Rightarrow> None
         | Some (k, r) \<Rightarrow>
             if \<not> startswith (skip_ws r) '':'' then None
             else (case json_value n (skip_ws (tl (skip_ws r))) of
                 None \<Rightarrow> None
               | Some (v, r1) \<Rightarrow>
                   (case skip_ws r1 of
                      [] \<Rightarrow> None
                    | c # r' \<Rightarrow>
                        if c = CHR 0x7D then Some ([(k, v)], r')
                        else if c = CHR '','' then map_option (\<lambda>(ms, r). ((k, v) # ms, r)) (json_members n (skip_ws r'))
                        else None))))"

definition json_loads :: "string \<Rightarrow> pyobj option" where
  "json_loads s = (case json_value (Suc (length s)) (skip_ws s) of
     None \<Rightarrow> None
   | Some (v, r) \<Rightarrow> if skip_ws r = [] then Some v else None)"

text \<open>A text that starts with a letter other than those of the three literals is not JSON.\<close>

lemma json_loads_letter:
  assumes "\<not> json_space c" "\<not> is_digit c" "c \<notin> {CHR ''n'', CHR ''t'', CHR ''f'', CHR ''-'', CHR ''['', CHR 0x22, CHR 0x7B}"
  shows "json_loads (c # s) = None"
proof -
  have "c \<noteq> CHR ''0''" using assms(2) by (auto simp: is_digit_def)
  then have "json_number (c # s) = None" using assms by (simp add: json_number_def)
  then have "json_value (Suc n) (c # s) = None" for n using assms(3) by simp
  moreover have "skip_ws (c # s) = c # s" using assms(1) by (simp add: skip_ws_def)
  ultimately show ?thesis unfolding json_loads_def by (simp only: option.case)
qed

end
