(* ===== verification/In_Memory_Cache.thy ===== *)
theory In_Memory_Cache
  imports Json
begin

text \<open>
  \<open>litellm/caching/in_memory_cache.py\<close>: the bounded cache with expiry that a token store writes to
  when there is no Redis. The clock is a parameter of every operation that reads it (one reading per
  operation). The binary heap of expirations is kept as a sorted list: \<open>heapq\<close> only ever shows its least
  element. \<open>sizeof\<close> stands for \<open>value.__sizeof__()\<close> and \<open>py_str\<close> for \<open>str(value)\<close>; a stored \<open>None\<close>
  reads as a miss, as in the source.
\<close>

record InMemoryCache =
  max_size_in_memory :: int
  default_ttl :: rat
  max_size_per_item :: int
  cache_dict :: "(string, pyobj) dict"
  ttl_dict :: "(string, rat) dict"
  expiration_heap :: "(rat \<times> string) list"

definition MAX_SIZE_PER_ITEM_IN_MEMORY_CACHE_IN_KB :: int where
  "MAX_SIZE_PER_ITEM_IN_MEMORY_CACHE_IN_KB = 1024"

text \<open>\<open>InMemoryCache(max_size_in_memory, default_ttl, max_size_per_item)\<close>: zero counts as unset, except for the number of items.\<close>

definition new_InMemoryCache :: "int option \<Rightarrow> rat option \<Rightarrow> int option \<Rightarrow> InMemoryCache" where
  "new_InMemoryCache max_items ttl max_item =
     \<lparr>max_size_in_memory = (case max_items of None \<Rightarrow> 200 | Some n \<Rightarrow> n),
      default_ttl = (case ttl of None \<Rightarrow> 600 | Some x \<Rightarrow> if x = 0 then 600 else x),
      max_size_per_item = (case max_item of None \<Rightarrow> MAX_SIZE_PER_ITEM_IN_MEMORY_CACHE_IN_KB
        | Some n \<Rightarrow> if n = 0 then MAX_SIZE_PER_ITEM_IN_MEMORY_CACHE_IN_KB else n),
      cache_dict = [], ttl_dict = [], expiration_heap = []\<rparr>"

section \<open>Operations\<close>

definition is_primitive :: "pyobj \<Rightarrow> bool" where
  "is_primitive v = (case v of PBool _ \<Rightarrow> True | PInt _ \<Rightarrow> True | PFloat _ \<Rightarrow> True | PStr _ \<Rightarrow> True | _ \<Rightarrow> False)"

definition check_value_size :: "(pyobj \<Rightarrow> string) \<Rightarrow> (pyobj \<Rightarrow> nat) \<Rightarrow> InMemoryCache \<Rightarrow> pyobj \<Rightarrow> bool" where
  "check_value_size py_str sizeof c v =
     (if is_primitive v \<and> int (length (py_str v)) < max_size_per_item c * MAX_SIZE_PER_ITEM_IN_MEMORY_CACHE_IN_KB
      then True
      else of_nat (sizeof v) / 1024 \<le> (of_int (max_size_per_item c) :: rat))"

definition is_key_expired :: "rat \<Rightarrow> InMemoryCache \<Rightarrow> string \<Rightarrow> bool" where
  "is_key_expired now c key = (case map_of (ttl_dict c) key of None \<Rightarrow> False | Some e \<Rightarrow> e < now)"

definition remove_key :: "string \<Rightarrow> InMemoryCache \<Rightarrow> InMemoryCache" where
  "remove_key key c = c\<lparr>cache_dict := AList.delete key (cache_dict c), ttl_dict := AList.delete key (ttl_dict c)\<rparr>"

text \<open>Step 1 of the eviction: drop outdated and expired heap entries from the front.\<close>

function evict_expired :: "rat \<Rightarrow> InMemoryCache \<Rightarrow> InMemoryCache" where
  "evict_expired now c = (case expiration_heap c of
     [] \<Rightarrow> c
   | (e, key) # rest \<Rightarrow>
       if map_of (ttl_dict c) key \<noteq> Some e then evict_expired now (c\<lparr>expiration_heap := rest\<rparr>)
       else if e \<le> now then evict_expired now (remove_key key (c\<lparr>expiration_heap := rest\<rparr>))
       else c)"
  by pat_completeness auto
termination
  by (relation "measure (\<lambda>(now, c). length (expiration_heap c))") (auto simp: remove_key_def)

declare evict_expired.simps [simp del]

text \<open>Step 2: evict what expires first until there is room. \<open>heappop\<close> of an empty heap raises \<open>IndexError\<close>.\<close>

function evict_full :: "InMemoryCache \<Rightarrow> string + InMemoryCache" where
  "evict_full c =
     (if int (length (cache_dict c)) < max_size_in_memory c then Inr c
      else (case expiration_heap c of
          [] \<Rightarrow> Inl ''IndexError''
        | (e, key) # rest \<Rightarrow>
            if map_of (ttl_dict c) key = Some e then evict_full (remove_key key (c\<lparr>expiration_heap := rest\<rparr>))
            else evict_full (c\<lparr>expiration_heap := rest\<rparr>)))"
  by pat_completeness auto
termination
  by (relation "measure (\<lambda>c. length (expiration_heap c))") (auto simp: remove_key_def)

declare evict_full.simps [simp del]

definition evict_cache :: "rat \<Rightarrow> InMemoryCache \<Rightarrow> string + InMemoryCache" where
  "evict_cache now c = evict_full (evict_expired now c)"

definition allow_ttl_override :: "rat \<Rightarrow> InMemoryCache \<Rightarrow> string \<Rightarrow> bool" where
  "allow_ttl_override now c key = (case map_of (ttl_dict c) key of None \<Rightarrow> True | Some e \<Rightarrow> e < now)"

definition heappush :: "rat \<times> string \<Rightarrow> (rat \<times> string) list \<Rightarrow> (rat \<times> string) list" where
  "heappush x h = insort x h"

definition set_cache ::
  "(pyobj \<Rightarrow> string) \<Rightarrow> (pyobj \<Rightarrow> nat) \<Rightarrow> rat \<Rightarrow> string \<Rightarrow> pyobj \<Rightarrow> rat option \<Rightarrow> InMemoryCache \<Rightarrow> string + InMemoryCache" where
  "set_cache py_str sizeof now key value ttl c =
     (if max_size_in_memory c = 0 then Inr c
      else (case evict_cache now c of
          Inl exc \<Rightarrow> Inl exc
        | Inr c1 \<Rightarrow>
            if \<not> check_value_size py_str sizeof c1 value then Inr c1
            else
              (let c2 = c1\<lparr>cache_dict := AList.update key value (cache_dict c1)\<rparr> in
               if allow_ttl_override now c2 key then
                 (let e = now + (case ttl of Some x \<Rightarrow> x | None \<Rightarrow> default_ttl c2)
                  in Inr (c2\<lparr>ttl_dict := AList.update key e (ttl_dict c2), expiration_heap := heappush (e, key) (expiration_heap c2)\<rparr>))
               else Inr c2)))"

fun async_set_cache_pipeline ::
  "(pyobj \<Rightarrow> string) \<Rightarrow> (pyobj \<Rightarrow> nat) \<Rightarrow> rat \<Rightarrow> (string \<times> pyobj) list \<Rightarrow> rat option \<Rightarrow> InMemoryCache \<Rightarrow> string + InMemoryCache" where
  "async_set_cache_pipeline py_str sizeof now [] ttl c = Inr c"
| "async_set_cache_pipeline py_str sizeof now ((key, value) # rest) ttl c =
     (case set_cache py_str sizeof now key value ttl c of
        Inl exc \<Rightarrow> Inl exc
      | Inr c' \<Rightarrow> async_set_cache_pipeline py_str sizeof now rest ttl c')"

definition evict_element_if_expired :: "rat \<Rightarrow> string \<Rightarrow> InMemoryCache \<Rightarrow> bool \<times> InMemoryCache" where
  "evict_element_if_expired now key c = (if is_key_expired now c key then (True, remove_key key c) else (False, c))"

text \<open>A stored string that happens to be JSON comes back decoded; anything else comes back as it is.\<close>

definition get_cache :: "rat \<Rightarrow> string \<Rightarrow> InMemoryCache \<Rightarrow> pyobj \<times> InMemoryCache" where
  "get_cache now key c =
     (case map_of (cache_dict c) key of
        None \<Rightarrow> (PNone, c)
      | Some original \<Rightarrow>
          (case evict_element_if_expired now key c of
             (True, c') \<Rightarrow> (PNone, c')
           | (False, c') \<Rightarrow>
               (case original of
                  PStr s \<Rightarrow> (case json_loads s of Some v \<Rightarrow> (v, c') | None \<Rightarrow> (original, c'))
                | _ \<Rightarrow> (original, c'))))"

fun async_batch_get_cache :: "rat \<Rightarrow> string list \<Rightarrow> InMemoryCache \<Rightarrow> pyobj list \<times> InMemoryCache" where
  "async_batch_get_cache now [] c = ([], c)"
| "async_batch_get_cache now (k # ks) c =
     (case get_cache now k c of (v, c1) \<Rightarrow>
      case async_batch_get_cache now ks c1 of (vs, c2) \<Rightarrow> (v # vs, c2))"

definition flush_cache :: "InMemoryCache \<Rightarrow> InMemoryCache" where
  "flush_cache c = c\<lparr>cache_dict := [], ttl_dict := [], expiration_heap := []\<rparr>"

definition delete_cache :: "string \<Rightarrow> InMemoryCache \<Rightarrow> InMemoryCache" where
  "delete_cache key c = remove_key key c"

definition async_get_ttl :: "string \<Rightarrow> InMemoryCache \<Rightarrow> rat option" where
  "async_get_ttl key c = map_of (ttl_dict c) key"

definition async_get_oldest_n_keys :: "int \<Rightarrow> InMemoryCache \<Rightarrow> string list" where
  "async_get_oldest_n_keys n c = map fst (py_slice (py_sorted snd (ttl_dict c)) 0 n)"

section \<open>The invariant\<close>

text \<open>
  Every cached key has an expiry, every expiry has its heap entry, and the cache is within its bound.
\<close>

definition cache_ok :: "InMemoryCache \<Rightarrow> bool" where
  "cache_ok c \<longleftrightarrow> distinct (map fst (cache_dict c)) \<and> distinct (map fst (ttl_dict c))
     \<and> dom (map_of (cache_dict c)) \<subseteq> dom (map_of (ttl_dict c))
     \<and> (\<forall>k e. map_of (ttl_dict c) k = Some e \<longrightarrow> (e, k) \<in> set (expiration_heap c))
     \<and> sorted (expiration_heap c)"

lemma map_of_delete: "map_of (AList.delete k xs) = (map_of xs)(k := None)"
  by (rule delete_conv')

lemma remove_key_ok:
  assumes "cache_ok c" "map_of (ttl_dict c) key = Some e" "expiration_heap c = (e, key) # rest"
  shows "cache_ok (remove_key key (c\<lparr>expiration_heap := rest\<rparr>))"
  using assms by (auto simp: cache_ok_def remove_key_def map_of_delete distinct_delete split: if_splits) blast

lemma drop_heap_ok:
  assumes "cache_ok c" "map_of (ttl_dict c) key \<noteq> Some e" "expiration_heap c = (e, key) # rest"
  shows "cache_ok (c\<lparr>expiration_heap := rest\<rparr>)"
  using assms unfolding cache_ok_def by auto blast

lemma evict_expired_ok:
  "cache_ok c \<Longrightarrow> cache_ok (evict_expired now c) \<and> max_size_in_memory (evict_expired now c) = max_size_in_memory c"
proof (induction now c rule: evict_expired.induct)
  case (1 now c)
  show ?case
  proof (cases "expiration_heap c")
    case Nil
    with "1.prems" show ?thesis by (subst (1 2) evict_expired.simps) simp
  next
    case (Cons x rest)
    obtain e key where x: "x = (e, key)" by fastforce
    note h = Cons [unfolded x]
    consider "map_of (ttl_dict c) key \<noteq> Some e" | "map_of (ttl_dict c) key = Some e" "e \<le> now"
      | "map_of (ttl_dict c) key = Some e" "\<not> e \<le> now" by blast
    then show ?thesis
    proof cases
      case 1
      with "1.IH"(1) [OF h refl 1] drop_heap_ok [OF "1.prems" 1 h] h show ?thesis
        by (subst (1 2) evict_expired.simps) simp
    next
      case 2
      with "1.IH"(2) [OF h refl] remove_key_ok [OF "1.prems" 2(1) h] h show ?thesis
        by (subst (1 2) evict_expired.simps) (simp add: remove_key_def)
    next
      case 3
      with "1.prems" h show ?thesis by (subst (1 2) evict_expired.simps) simp
    qed
  qed
qed

lemma evict_full_ok:
  "cache_ok c \<Longrightarrow> 0 < max_size_in_memory c \<Longrightarrow>
   \<exists>c'. evict_full c = Inr c' \<and> cache_ok c' \<and> max_size_in_memory c' = max_size_in_memory c
     \<and> int (length (cache_dict c')) < max_size_in_memory c'"
proof (induction c rule: evict_full.induct)
  case (1 c)
  show ?case
  proof (cases "int (length (cache_dict c)) < max_size_in_memory c")
    case True
    with "1.prems" show ?thesis by (subst evict_full.simps) auto
  next
    case False
    then have "cache_dict c \<noteq> []" using "1.prems"(2) by auto
    then obtain k where "k \<in> dom (map_of (cache_dict c))" by (cases "cache_dict c") auto
    then have "expiration_heap c \<noteq> []" using "1.prems"(1) by (fastforce simp: cache_ok_def)
    then obtain e key rest where h: "expiration_heap c = (e, key) # rest" by (metis list.exhaust prod.exhaust)
    show ?thesis
    proof (cases "map_of (ttl_dict c) key = Some e")
      case True
      from "1.IH"(1) [OF False h refl True remove_key_ok [OF "1.prems"(1) True h]] "1.prems"(2) False True h
      show ?thesis by (subst evict_full.simps) (simp add: remove_key_def)
    next
      case ne: False
      from "1.IH"(2) [OF False h refl ne drop_heap_ok [OF "1.prems"(1) ne h]] "1.prems"(2) False ne h
      show ?thesis by (subst evict_full.simps) simp
    qed
  qed
qed

lemma evict_cache_ok:
  assumes "cache_ok c" "0 < max_size_in_memory c"
  obtains c' where "evict_cache now c = Inr c'" "cache_ok c'" "max_size_in_memory c' = max_size_in_memory c"
    "int (length (cache_dict c')) < max_size_in_memory c'"
  using evict_full_ok [of "evict_expired now c"] evict_expired_ok [OF assms(1), of now] assms(2)
  by (auto simp: evict_cache_def)

lemma length_update_le: "length (AList.update k v xs) \<le> Suc (length xs)"
  by (induction xs) auto

lemma set_insort_heap: "set (heappush x h) = insert x (set h)" "sorted h \<Longrightarrow> sorted (heappush x h)"
  by (simp_all add: heappush_def set_insort_key sorted_insort)

lemma set_cache_ok:
  assumes ok: "cache_ok c" and m: "0 < max_size_in_memory c"
  shows "\<exists>c'. set_cache py_str sizeof now key value ttl c = Inr c' \<and> cache_ok c'
    \<and> max_size_in_memory c' = max_size_in_memory c \<and> int (length (cache_dict c')) \<le> max_size_in_memory c'"
proof -
  obtain c1 where c1: "evict_cache now c = Inr c1" "cache_ok c1" "max_size_in_memory c1 = max_size_in_memory c"
    "int (length (cache_dict c1)) < max_size_in_memory c1"
    by (rule evict_cache_ok [OF assms])
  define c2 where "c2 = c1\<lparr>cache_dict := AList.update key value (cache_dict c1)\<rparr>"
  have l: "int (length (cache_dict c2)) \<le> max_size_in_memory c2"
    using length_update_le [of key "value" "cache_dict c1"] c1(4) by (simp add: c2_def)
  show ?thesis
  proof (cases "check_value_size py_str sizeof c1 value")
    case False
    with c1 m show ?thesis by (simp add: set_cache_def)
  next
    case True
    define e where "e = now + (case ttl of Some x \<Rightarrow> x | None \<Rightarrow> default_ttl c2)"
    define c3 where "c3 = c2\<lparr>ttl_dict := AList.update key e (ttl_dict c2), expiration_heap := heappush (e, key) (expiration_heap c2)\<rparr>"
    have r: "set_cache py_str sizeof now key value ttl c = Inr (if allow_ttl_override now c2 key then c3 else c2)"
      using c1 m True by (simp add: set_cache_def e_def c3_def Let_def flip: c2_def)
    have "cache_ok c3" using c1(2) unfolding c3_def c2_def cache_ok_def
      by (auto simp: distinct_update update_conv' set_insort_heap split: if_splits)
    moreover have "cache_ok c2" if "\<not> allow_ttl_override now c2 key"
      using c1(2) that unfolding c2_def cache_ok_def allow_ttl_override_def
      by (auto simp: distinct_update update_conv' split: option.splits)
    ultimately show ?thesis using r l c1(3) by (simp add: c3_def c2_def)
  qed
qed

section \<open>Reachable caches\<close>

text \<open>The cache as a state machine: its states under any sequence of operations.\<close>

inductive reachable :: "(pyobj \<Rightarrow> string) \<Rightarrow> (pyobj \<Rightarrow> nat) \<Rightarrow> int \<Rightarrow> InMemoryCache \<Rightarrow> bool"
  for py_str sizeof m where
  new: "reachable py_str sizeof m (new_InMemoryCache (Some m) ttl item)"
| set: "reachable py_str sizeof m c \<Longrightarrow> set_cache py_str sizeof now key value ttl c = Inr c' \<Longrightarrow> reachable py_str sizeof m c'"
| get: "reachable py_str sizeof m c \<Longrightarrow> get_cache now key c = (v, c') \<Longrightarrow> reachable py_str sizeof m c'"
| delete: "reachable py_str sizeof m c \<Longrightarrow> reachable py_str sizeof m (delete_cache key c)"
| flush: "reachable py_str sizeof m c \<Longrightarrow> reachable py_str sizeof m (flush_cache c)"

inductive_cases reachable_setE: "reachable py_str sizeof m c"

lemma remove_key_keeps:
  "cache_ok c \<Longrightarrow> cache_ok (remove_key key c)" "max_size_in_memory (remove_key key c) = max_size_in_memory c"
  "length (cache_dict (remove_key key c)) \<le> length (cache_dict c)"
  by (auto simp: cache_ok_def remove_key_def map_of_delete distinct_delete length_delete_le split: if_splits)

lemma get_cache_state: "snd (get_cache now key c) = c \<or> snd (get_cache now key c) = remove_key key c"
  by (auto simp: get_cache_def evict_element_if_expired_def split: option.splits pyobj.splits)

lemma reachable_ok:
  assumes "reachable py_str sizeof m c" "0 < m"
  shows "cache_ok c \<and> max_size_in_memory c = m \<and> int (length (cache_dict c)) \<le> m"
  using assms(1)
proof induction
  case (new ttl item)
  then show ?case using assms(2) by (simp add: new_InMemoryCache_def cache_ok_def)
next
  case (set c now key v ttl c')
  then show ?case using set_cache_ok [of c py_str sizeof now key v ttl] assms(2) by auto
next
  case (get c now key v c')
  then show ?case using get_cache_state [of now key c] remove_key_keeps [where c = c and key = key] by fastforce
next
  case (delete c key)
  then show ?case using remove_key_keeps [where c = c and key = key] by (auto simp: delete_cache_def)
next
  case (flush c)
  then show ?case using assms(2) by (simp add: flush_cache_def cache_ok_def)
qed

text \<open>
  C37: The in-memory cache stays within its bound and never fails. From a new cache of positive size,
  after any sequence of writes, reads, deletions and flushes, at whatever times, it holds at most the
  configured number of items, and the next write succeeds: the eviction loops end, and they never pop an
  empty expiration heap.
\<close>

theorem in_memory_cache_bounded:
  assumes "reachable py_str sizeof m c" "0 < m"
  shows "int (length (cache_dict c)) \<le> m \<and>
    (\<exists>c'. set_cache py_str sizeof now key v ttl c = Inr c' \<and> int (length (cache_dict c')) \<le> m)"
proof -
  note ok = reachable_ok [OF assms]
  then show ?thesis using set_cache_ok [of c py_str sizeof now key v ttl] assms(2) by auto
qed

theorem in_memory_cache_bounded_witness:
  "int (length (cache_dict (new_InMemoryCache (Some 2) None None))) \<le> 2 \<and>
    (\<exists>c'. set_cache (\<lambda>v. []) (\<lambda>v. 0) 5 ''k'' (PStr ''v'') None (new_InMemoryCache (Some 2) None None) = Inr c' \<and> int (length (cache_dict c')) \<le> 2)"
  by (rule in_memory_cache_bounded) (auto intro: reachable.new)

section \<open>Reading back\<close>

text \<open>What a read answers for a stored value.\<close>

definition decoded :: "pyobj \<Rightarrow> pyobj" where
  "decoded v = (case v of PStr s \<Rightarrow> (case json_loads s of Some w \<Rightarrow> w | None \<Rightarrow> v) | _ \<Rightarrow> v)"

lemma get_cache_live:
  "map_of (cache_dict c) key = Some v \<Longrightarrow> \<not> is_key_expired now c key \<Longrightarrow> get_cache now key c = (decoded v, c)"
  by (auto simp: get_cache_def evict_element_if_expired_def decoded_def split: pyobj.splits option.splits)

lemma get_cache_sound:
  assumes "get_cache now key c = (w, c')" "w \<noteq> PNone"
  shows "\<exists>v. map_of (cache_dict c) key = Some v \<and> w = decoded v"
  using assms by (auto simp: get_cache_def evict_element_if_expired_def decoded_def split: pyobj.splits option.splits if_splits)

end
