(* ===== verification/Dual_Cache.thy ===== *)
theory Dual_Cache
  imports In_Memory_Cache
begin

text \<open>
  \<open>litellm/caching/dual_cache.py\<close>: an in-memory cache in front of an optional Redis. The Redis client is
  a parameter, a record of operations over its own state; an operation that raises answers the class
  name of the exception. The \<open>ttl\<close> keyword is an option, \<open>None\<close> when it is not passed. Counters
  (\<open>increment\<close>), sets (\<open>sadd\<close>) and the synchronous wrapper \<open>batch_get_cache\<close>, which only runs
  the coroutine below on a fresh event loop, are not modelled.
\<close>

section \<open>A bounded ordered dict\<close>

text \<open>\<open>LimitedSizeOrderedDict.__setitem__\<close>: at the bound, the oldest entry goes first, even if the key is present.\<close>

definition limited_set :: "int \<Rightarrow> 'k \<Rightarrow> 'v \<Rightarrow> ('k, 'v) dict \<Rightarrow> ('k, 'v) dict" where
  "limited_set max_size key value d = AList.update key value (if max_size \<le> int (length d) then tl d else d)"

lemma limited_set_length:
  assumes "1 \<le> max_size" "int (length d) \<le> max_size"
  shows "int (length (limited_set max_size key v d)) \<le> max_size"
  using length_update_le [of key v "if max_size \<le> int (length d) then tl d else d"] assms
  by (auto simp: limited_set_def split: if_splits)

section \<open>Redis\<close>

record 'r RedisCache =
  r_set :: "string \<Rightarrow> pyobj \<Rightarrow> rat option \<Rightarrow> 'r \<Rightarrow> string option \<times> 'r"
  r_set_pipeline :: "(string \<times> pyobj) list \<Rightarrow> rat option \<Rightarrow> 'r \<Rightarrow> string option \<times> 'r"
  r_get :: "string \<Rightarrow> 'r \<Rightarrow> (string + pyobj) \<times> 'r"
  r_batch_get :: "string list \<Rightarrow> 'r \<Rightarrow> (string + (string, pyobj) dict option) \<times> 'r"
  r_flush :: "'r \<Rightarrow> 'r"
  r_delete :: "string \<Rightarrow> 'r \<Rightarrow> 'r"
  r_get_ttl :: "string \<Rightarrow> 'r \<Rightarrow> rat option"

section \<open>The dual cache\<close>

record 'r DualCache =
  in_memory_cache :: InMemoryCache
  redis_cache :: "'r RedisCache option"
  redis_state :: 'r
  last_redis_batch_access_time :: "(string, rat) dict"
  max_redis_batch_size :: int
  redis_batch_cache_expiry :: rat
  default_in_memory_ttl :: "rat option"
  default_redis_ttl :: "rat option"

definition DEFAULT_MAX_REDIS_BATCH_CACHE_SIZE :: int where
  "DEFAULT_MAX_REDIS_BATCH_CACHE_SIZE = 1000"

text \<open>\<open>x or y\<close> on an optional number: zero counts as unset.\<close>

definition rat_or :: "rat option \<Rightarrow> rat option \<Rightarrow> rat option" where
  "rat_or x y = (case x of Some v \<Rightarrow> if v = 0 then y else x | None \<Rightarrow> y)"

text \<open>\<open>DualCache(...)\<close>; the module-wide defaults of \<open>litellm\<close> are parameters.\<close>

definition new_DualCache ::
  "rat option \<Rightarrow> rat option \<Rightarrow> rat option \<Rightarrow> InMemoryCache option \<Rightarrow> 'r RedisCache option \<Rightarrow> 'r
   \<Rightarrow> rat option \<Rightarrow> rat option \<Rightarrow> rat option \<Rightarrow> int \<Rightarrow> 'r DualCache" where
  "new_DualCache global_memory_ttl global_redis_ttl global_expiry memory redis r memory_ttl redis_ttl expiry max_batch =
     \<lparr>in_memory_cache = (case memory of Some c \<Rightarrow> c | None \<Rightarrow> new_InMemoryCache (Some 200) (Some 600) (Some 1024)),
      redis_cache = redis, redis_state = r, last_redis_batch_access_time = [], max_redis_batch_size = max_batch,
      redis_batch_cache_expiry = the (rat_or (rat_or expiry global_expiry) (Some 10)),
      default_in_memory_ttl = rat_or memory_ttl global_memory_ttl,
      default_redis_ttl = rat_or redis_ttl global_redis_ttl\<rparr>"

definition update_cache_ttl :: "rat option \<Rightarrow> rat option \<Rightarrow> 'r DualCache \<Rightarrow> 'r DualCache" where
  "update_cache_ttl memory_ttl redis_ttl d =
     (let d1 = (if memory_ttl \<noteq> None then d\<lparr>default_in_memory_ttl := memory_ttl\<rparr> else d)
      in if redis_ttl \<noteq> None then d1\<lparr>default_redis_ttl := redis_ttl\<rparr> else d1)"

definition attach_redis_cache :: "'r RedisCache option \<Rightarrow> rat option \<Rightarrow> 'r DualCache \<Rightarrow> 'r DualCache" where
  "attach_redis_cache redis redis_ttl d =
     (if redis = None \<or> redis_cache d \<noteq> None then d
      else (let d1 = d\<lparr>redis_cache := redis\<rparr>
            in if redis_ttl \<noteq> None then d1\<lparr>default_redis_ttl := redis_ttl\<rparr> else d1))"

definition backfill_ttl :: "'r DualCache \<Rightarrow> rat option \<Rightarrow> rat option" where
  "backfill_ttl d ttl = (case ttl of None \<Rightarrow> default_in_memory_ttl d | Some x \<Rightarrow> Some x)"

text \<open>Writes: an exception of either tier is logged and swallowed; one of the first skips the second.\<close>

definition dual_set_cache ::
  "(pyobj \<Rightarrow> string) \<Rightarrow> (pyobj \<Rightarrow> nat) \<Rightarrow> rat \<Rightarrow> string \<Rightarrow> pyobj \<Rightarrow> bool \<Rightarrow> rat option \<Rightarrow> 'r DualCache \<Rightarrow> 'r DualCache" where
  "dual_set_cache py_str sizeof now key value local_only ttl d =
     (let ttl' = backfill_ttl d ttl in
      case set_cache py_str sizeof now key value ttl' (in_memory_cache d) of
        Inl exc \<Rightarrow> d
      | Inr c \<Rightarrow>
          (let d1 = d\<lparr>in_memory_cache := c\<rparr> in
           case redis_cache d of
             None \<Rightarrow> d1
           | Some r \<Rightarrow> if local_only then d1 else d1\<lparr>redis_state := snd (r_set r key value ttl' (redis_state d))\<rparr>))"

definition dual_async_set_cache ::
  "(pyobj \<Rightarrow> string) \<Rightarrow> (pyobj \<Rightarrow> nat) \<Rightarrow> rat \<Rightarrow> string \<Rightarrow> pyobj \<Rightarrow> bool \<Rightarrow> rat option \<Rightarrow> 'r DualCache \<Rightarrow> 'r DualCache" where
  "dual_async_set_cache py_str sizeof now key value local_only ttl d =
     dual_set_cache py_str sizeof now key value local_only ttl d"

definition dual_async_set_cache_pipeline ::
  "(pyobj \<Rightarrow> string) \<Rightarrow> (pyobj \<Rightarrow> nat) \<Rightarrow> rat \<Rightarrow> (string \<times> pyobj) list \<Rightarrow> bool \<Rightarrow> rat option \<Rightarrow> 'r DualCache \<Rightarrow> 'r DualCache" where
  "dual_async_set_cache_pipeline py_str sizeof now cache_list local_only ttl d =
     (let ttl' = backfill_ttl d ttl in
      case async_set_cache_pipeline py_str sizeof now cache_list ttl' (in_memory_cache d) of
        Inl exc \<Rightarrow> d
      | Inr c \<Rightarrow>
          (let d1 = d\<lparr>in_memory_cache := c\<rparr> in
           case redis_cache d of
             None \<Rightarrow> d1
           | Some r \<Rightarrow> if local_only then d1 else d1\<lparr>redis_state := snd (r_set_pipeline r cache_list ttl' (redis_state d))\<rparr>))"

text \<open>Reads: memory first, then Redis, whose answer is written back to memory. An exception reads as a miss.\<close>

definition dual_get_cache ::
  "(pyobj \<Rightarrow> string) \<Rightarrow> (pyobj \<Rightarrow> nat) \<Rightarrow> rat \<Rightarrow> string \<Rightarrow> bool \<Rightarrow> rat option \<Rightarrow> 'r DualCache \<Rightarrow> pyobj \<times> 'r DualCache" where
  "dual_get_cache py_str sizeof now key local_only ttl d =
     (case get_cache now key (in_memory_cache d) of (found, c) \<Rightarrow>
      let d1 = d\<lparr>in_memory_cache := c\<rparr> in
      case redis_cache d of
        None \<Rightarrow> (found, d1)
      | Some r \<Rightarrow>
          if found \<noteq> PNone \<or> local_only then (found, d1)
          else
            (case r_get r key (redis_state d1) of
               (Inl exc, rs) \<Rightarrow> (PNone, d1\<lparr>redis_state := rs\<rparr>)
             | (Inr v, rs) \<Rightarrow>
                 (let d2 = d1\<lparr>redis_state := rs\<rparr> in
                  if v = PNone then (PNone, d2)
                  else (case set_cache py_str sizeof now key v (backfill_ttl d ttl) c of
                      Inl exc \<Rightarrow> (PNone, d2)
                    | Inr c' \<Rightarrow> (v, d2\<lparr>in_memory_cache := c'\<rparr>)))))"

text \<open>
  \<open>_reserve_redis_batch_keys\<close>: the missing keys that have not been asked for lately, marked as asked
  for now, and the marks they had.
\<close>

fun reserve_redis_batch_keys ::
  "int \<Rightarrow> rat \<Rightarrow> rat \<Rightarrow> (string \<times> pyobj) list \<Rightarrow> (string, rat) dict
   \<Rightarrow> string list \<times> (string \<times> rat option) list \<times> (string, rat) dict" where
  "reserve_redis_batch_keys max_size expiry now [] seen = ([], [], seen)"
| "reserve_redis_batch_keys max_size expiry now ((key, value) # rest) seen =
     (let ask = value = PNone \<and> (case map_of seen key of None \<Rightarrow> True | Some t \<Rightarrow> expiry \<le> now - t) in
      if \<not> ask then reserve_redis_batch_keys max_size expiry now rest seen
      else
        (case reserve_redis_batch_keys max_size expiry now rest (limited_set max_size key now seen) of
           (ks, prev, seen') \<Rightarrow> (key # ks, (key, map_of seen key) # prev, seen')))"

definition rollback_redis_batch_key_reservations ::
  "int \<Rightarrow> (string \<times> rat option) list \<Rightarrow> (string, rat) dict \<Rightarrow> (string, rat) dict" where
  "rollback_redis_batch_key_reservations max_size previous seen =
     fold (\<lambda>(key, prev) ts. case prev of None \<Rightarrow> AList.delete key ts | Some t \<Rightarrow> limited_set max_size key t ts)
       (dict_of previous) seen"

text \<open>\<open>{key: i for i, key in enumerate(keys)}[key]\<close>, \<open>None\<close> for the \<open>KeyError\<close>.\<close>

definition key_to_index :: "string list \<Rightarrow> string \<Rightarrow> nat option" where
  "key_to_index keys key = map_of (rev (zip keys [0..<length keys])) key"

text \<open>The loop over what Redis answered: into the result, and back into memory.\<close>

fun merge_redis ::
  "(pyobj \<Rightarrow> string) \<Rightarrow> (pyobj \<Rightarrow> nat) \<Rightarrow> rat \<Rightarrow> rat option \<Rightarrow> string list \<Rightarrow> (string, pyobj) dict
   \<Rightarrow> pyobj list \<Rightarrow> InMemoryCache \<Rightarrow> (pyobj list) option \<times> InMemoryCache" where
  "merge_redis py_str sizeof now ttl keys [] result c = (Some result, c)"
| "merge_redis py_str sizeof now ttl keys ((key, value) # rest) result c =
     (case key_to_index keys key of
        None \<Rightarrow> (None, c)
      | Some i \<Rightarrow>
          (let result' = result[i := value] in
           if value = PNone then merge_redis py_str sizeof now ttl keys rest result' c
           else (case set_cache py_str sizeof now key value ttl c of
               Inl exc \<Rightarrow> (None, c)
             | Inr c' \<Rightarrow> merge_redis py_str sizeof now ttl keys rest result' c')))"

text \<open>\<open>None\<close> is what the source answers after an exception, which it logs.\<close>

definition dual_async_batch_get_cache ::
  "(pyobj \<Rightarrow> string) \<Rightarrow> (pyobj \<Rightarrow> nat) \<Rightarrow> rat \<Rightarrow> string list \<Rightarrow> bool \<Rightarrow> rat option \<Rightarrow> 'r DualCache
   \<Rightarrow> (pyobj list) option \<times> 'r DualCache" where
  "dual_async_batch_get_cache py_str sizeof now keys local_only ttl d =
     (case async_batch_get_cache now keys (in_memory_cache d) of (result, c) \<Rightarrow>
      let d1 = d\<lparr>in_memory_cache := c\<rparr> in
      case redis_cache d of
        None \<Rightarrow> (Some result, d1)
      | Some r \<Rightarrow>
          if PNone \<notin> set result \<or> local_only then (Some result, d1)
          else
            (case reserve_redis_batch_keys (max_redis_batch_size d) (redis_batch_cache_expiry d) now (zip keys result)
                    (last_redis_batch_access_time d) of
               (sublist_keys, previous, seen) \<Rightarrow>
                 (let d2 = d1\<lparr>last_redis_batch_access_time := seen\<rparr> in
                  if sublist_keys = [] then (Some result, d2)
                  else
                    (case r_batch_get r sublist_keys (redis_state d) of
                       (Inl exc, rs) \<Rightarrow>
                         (None, d2\<lparr>redis_state := rs, last_redis_batch_access_time :=
                            rollback_redis_batch_key_reservations (max_redis_batch_size d) previous seen\<rparr>)
                     | (Inr answer, rs) \<Rightarrow>
                         (let d3 = d2\<lparr>redis_state := rs\<rparr> in
                          case answer of
                            None \<Rightarrow> (Some result, d3)
                          | Some found \<Rightarrow>
                              if list_all (\<lambda>(k, v). v = PNone) found then (Some result, d3)
                              else
                                (case merge_redis py_str sizeof now (backfill_ttl d ttl) keys found result c of
                                   (out, c') \<Rightarrow> (out, d3\<lparr>in_memory_cache := c'\<rparr>)))))))"

definition dual_flush_cache :: "'r DualCache \<Rightarrow> 'r DualCache" where
  "dual_flush_cache d =
     (let d1 = d\<lparr>in_memory_cache := flush_cache (in_memory_cache d)\<rparr>
      in case redis_cache d of None \<Rightarrow> d1 | Some r \<Rightarrow> d1\<lparr>redis_state := r_flush r (redis_state d)\<rparr>)"

definition dual_delete_cache :: "string \<Rightarrow> 'r DualCache \<Rightarrow> 'r DualCache" where
  "dual_delete_cache key d =
     (let d1 = d\<lparr>in_memory_cache := delete_cache key (in_memory_cache d)\<rparr>
      in case redis_cache d of None \<Rightarrow> d1 | Some r \<Rightarrow> d1\<lparr>redis_state := r_delete r key (redis_state d)\<rparr>)"

definition dual_async_get_ttl :: "string \<Rightarrow> 'r DualCache \<Rightarrow> rat option" where
  "dual_async_get_ttl key d =
     (case async_get_ttl key (in_memory_cache d) of
        Some t \<Rightarrow> Some t
      | None \<Rightarrow> (case redis_cache d of None \<Rightarrow> None | Some r \<Rightarrow> r_get_ttl r key (redis_state d)))"

section \<open>Batch reads\<close>

lemma key_to_index_Some:
  "key_to_index keys key = Some i \<Longrightarrow> i < length keys \<and> keys ! i = key"
  unfolding key_to_index_def by (drule map_of_SomeD) (auto simp: in_set_zip)

lemma length_async_batch_get_cache: "length (fst (async_batch_get_cache now keys c)) = length keys"
  by (induction keys arbitrary: c) (auto split: prod.splits, metis fst_conv)

lemma batch_get_sound:
  assumes "async_batch_get_cache now keys c = (vs, c')" "i < length keys" "vs ! i \<noteq> PNone"
  shows "\<exists>v. map_of (cache_dict c) (keys ! i) = Some v \<and> vs ! i = decoded v"
  using assms
proof (induction keys arbitrary: c vs c' i)
  case (Cons k ks)
  obtain v c1 where g: "get_cache now k c = (v, c1)" by fastforce
  obtain ws c2 where b: "async_batch_get_cache now ks c1 = (ws, c2)" by fastforce
  have vs: "vs = v # ws" using Cons.prems(1) g b by simp
  show ?case
  proof (cases i)
    case 0
    with get_cache_sound [OF g] vs Cons.prems(3) show ?thesis by simp
  next
    case (Suc j)
    with Cons.IH [OF b, of j] Cons.prems vs obtain x where
      x: "map_of (cache_dict c1) (ks ! j) = Some x" "ws ! j = decoded x" by auto
    have "c1 = c \<or> c1 = remove_key k c" using get_cache_state [of now k c] g by simp
    with x(1) have "map_of (cache_dict c) (ks ! j) = Some x"
      by (auto simp: remove_key_def map_of_delete split: if_splits)
    with x(2) Suc vs show ?thesis by simp
  qed
qed simp

lemma merge_redis_sound:
  assumes "merge_redis py_str sizeof now ttl keys found result c = (Some out, c')" "length result = length keys"
  shows "length out = length keys \<and>
    (\<forall>i < length keys. out ! i = result ! i \<or> (keys ! i, out ! i) \<in> set found)"
  using assms
proof (induction py_str sizeof now ttl keys found result c arbitrary: out c' rule: merge_redis.induct)
  case (2 py_str sizeof now ttl keys key v rest result c)
  then obtain i where i: "key_to_index keys key = Some i" by (auto split: option.splits)
  note ki = key_to_index_Some [OF i]
  have len: "length (result[i := v]) = length keys" using "2.prems"(2) by simp
  have "length out = length keys \<and> (\<forall>j < length keys. out ! j = result[i := v] ! j \<or> (keys ! j, out ! j) \<in> set rest)"
  proof (cases "v = PNone")
    case True
    with "2.IH"(1) [OF i refl True _ len] "2.prems"(1) i show ?thesis by simp
  next
    case False
    then obtain c1 where s: "set_cache py_str sizeof now key v ttl c = Inr c1"
      using "2.prems"(1) i by (auto simp: Let_def split: sum.splits)
    with "2.IH"(2) [OF i refl False s _ len] "2.prems"(1) i False show ?thesis by simp
  qed
  then show ?case using ki "2.prems"(2) by (auto simp: nth_list_update split: if_splits)
qed auto

text \<open>
  A batch read lines up with its keys and invents nothing. When it answers at all, the answer has
  one entry per key, in order, and an entry that is not a miss is what memory holds for that key (decoded,
  where it is JSON) or what Redis answered for that key.
\<close>

lemma dual_batch_get_sound:
  assumes "dual_async_batch_get_cache py_str sizeof now keys local_only ttl d = (Some out, d')" "i < length keys" "out ! i \<noteq> PNone"
  shows "length out = length keys \<and>
    ((\<exists>v. map_of (cache_dict (in_memory_cache d)) (keys ! i) = Some v \<and> out ! i = decoded v) \<or>
     (\<exists>r ks found rs. redis_cache d = Some r \<and> r_batch_get r ks (redis_state d) = (Inr (Some found), rs)
        \<and> (keys ! i, out ! i) \<in> set found))"
proof -
  obtain result c where b: "async_batch_get_cache now keys (in_memory_cache d) = (result, c)" by fastforce
  have len: "length result = length keys" using length_async_batch_get_cache [of now keys "in_memory_cache d"] b by simp
  have mem: "result ! i \<noteq> PNone \<Longrightarrow> \<exists>v. map_of (cache_dict (in_memory_cache d)) (keys ! i) = Some v \<and> result ! i = decoded v"
    using batch_get_sound [OF b assms(2)] by blast
  consider "out = result" | r ks found rs c' where "redis_cache d = Some r" "r_batch_get r ks (redis_state d) = (Inr (Some found), rs)"
      "merge_redis py_str sizeof now (backfill_ttl d ttl) keys found result c = (Some out, c')"
    using assms(1) b by (auto simp: dual_async_batch_get_cache_def Let_def split: option.splits if_splits prod.splits sum.splits)
  then show ?thesis
  proof cases
    case 1
    with len mem assms(3) show ?thesis by auto
  next
    case 2
    from merge_redis_sound [OF 2(3) len] have m: "length out = length keys" "out ! i = result ! i \<or> (keys ! i, out ! i) \<in> set found"
      using assms(2) by auto
    then show ?thesis using mem assms(3) 2(1,2) by metis
  qed
qed

lemma dual_batch_get_sound_witness:
  "\<exists>out d'. dual_async_batch_get_cache (\<lambda>v. []) (\<lambda>v. 0) 5 [''a'', ''b''] False None
       (new_DualCache None None None None (Some \<lparr>r_set = (\<lambda>k v t r. (None, r)), r_set_pipeline = (\<lambda>l t r. (None, r)),
          r_get = (\<lambda>k r. (Inr PNone, r)), r_batch_get = (\<lambda>ks r. (Inr (Some [(''b'', PStr ''v1:x'')]), r)), r_flush = id,
          r_delete = (\<lambda>k r. r), r_get_ttl = (\<lambda>k r. None)\<rparr>) () None None None 1000) = (Some out, d')
     \<and> length out = 2 \<and> out ! 1 = PStr ''v1:x''"
proof -
  let ?d = "new_DualCache None None None None (Some \<lparr>r_set = (\<lambda>k v t r. (None, r)), r_set_pipeline = (\<lambda>l t r. (None, r)),
          r_get = (\<lambda>k r. (Inr PNone, r)), r_batch_get = (\<lambda>ks r. (Inr (Some [(''b'', PStr ''v1:x'')]), r)), r_flush = id,
          r_delete = (\<lambda>k r. r), r_get_ttl = (\<lambda>k r. None)\<rparr>) () None None None 1000"
  have "fst (dual_async_batch_get_cache (\<lambda>v. []) (\<lambda>v. 0) 5 [''a'', ''b''] False None ?d) = Some [PNone, PStr ''v1:x'']"
    by code_simp
  then obtain d' where r: "dual_async_batch_get_cache (\<lambda>v. []) (\<lambda>v. 0) 5 [''a'', ''b''] False None ?d = (Some [PNone, PStr ''v1:x''], d')"
    by (cases "dual_async_batch_get_cache (\<lambda>v. []) (\<lambda>v. 0) 5 [''a'', ''b''] False None ?d") auto
  from dual_batch_get_sound [OF r, of 1] r show ?thesis by auto
qed

end
