(* ===== verification/Stores.thy ===== *)
theory Stores
  imports Dual_Cache Codecs
begin

text \<open>
  The ephemeral token stores: \<open>litellm/pii/store/base.py\<close>, \<open>scope.py\<close>, \<open>request_scoped.py\<close> and
  \<open>dual_cache.py\<close>. The protocol \<open>PiiTokenStore\<close> is a record of operations over a state the store owns
  (the request's dict; the cache) with the number of random draws made so far beside it; an operation
  takes the state and answers the new one. The two locales state what a store relies on of its cache and what the service relies on of a
  store.
\<close>

section \<open>Scopes\<close>

definition SESSION_NAMESPACE_ANONYMOUS :: string where
  "SESSION_NAMESPACE_ANONYMOUS = ''anonymous''"

record TokenScope =
  namespace :: string
  session_id :: string

text \<open>\<open>hashlib.sha256\<close> is a parameter; an absent and an empty API key are both anonymous.\<close>

definition for_key :: "(bytes \<Rightarrow> bytes) \<Rightarrow> string option \<Rightarrow> string \<Rightarrow> TokenScope" where
  "for_key sha256 api_key session =
     \<lparr>namespace = (if is_empty_str api_key then SESSION_NAMESPACE_ANONYMOUS
                   else take 32 (hex (sha256 (utf8_encode (the api_key))))),
      session_id = session\<rparr>"

definition cache_key :: "TokenScope \<Rightarrow> string \<Rightarrow> string" where
  "cache_key scope token = ''pii:'' @ namespace scope @ '':'' @ session_id scope @ '':'' @ token"

definition REQUEST_SESSION_ID :: string where "REQUEST_SESSION_ID = ''request''"

datatype MappingScope = REQUEST | CONVERSATION

definition resolve_scope :: "(bytes \<Rightarrow> bytes) \<Rightarrow> MappingScope \<Rightarrow> string option \<Rightarrow> string option \<Rightarrow> TokenScope" where
  "resolve_scope sha256 mapping_scope api_key session =
     (if mapping_scope = CONVERSATION \<and> \<not> is_empty_str session then for_key sha256 api_key (the session)
      else for_key sha256 api_key REQUEST_SESSION_ID)"

definition needs_shared_cache :: "MappingScope \<Rightarrow> bool" where
  "needs_shared_cache mapping_scope = (mapping_scope = CONVERSATION)"

section \<open>The store protocol\<close>

record 'w PiiTokenStore =
  st_put_many :: "TokenScope \<Rightarrow> (string, string) dict \<Rightarrow> 'w \<times> draws \<Rightarrow> pii_error option \<times> ('w \<times> draws)"
  st_get :: "TokenScope \<Rightarrow> string \<Rightarrow> 'w \<times> draws \<Rightarrow> (pii_error + string option) \<times> ('w \<times> draws)"
  st_get_many :: "TokenScope \<Rightarrow> string list \<Rightarrow> 'w \<times> draws \<Rightarrow> (pii_error + (string, string) dict) \<times> ('w \<times> draws)"

section \<open>Request-scoped store\<close>

type_synonym backing = "(string, string) dict"

definition request_put_many :: "TokenScope \<Rightarrow> (string, string) dict \<Rightarrow> backing \<times> draws \<Rightarrow> pii_error option \<times> (backing \<times> draws)" where
  "request_put_many scope entries w = (case w of (b, k) \<Rightarrow> (None, (dict_update b entries, k)))"

definition request_get :: "TokenScope \<Rightarrow> string \<Rightarrow> backing \<times> draws \<Rightarrow> (pii_error + string option) \<times> (backing \<times> draws)" where
  "request_get scope token w = (Inr (map_of (fst w) token), w)"

definition request_get_many :: "TokenScope \<Rightarrow> string list \<Rightarrow> backing \<times> draws \<Rightarrow> (pii_error + (string, string) dict) \<times> (backing \<times> draws)" where
  "request_get_many scope tokens w =
     (let hits = map (\<lambda>t. (t, map_of (fst w) t)) tokens
      in (Inr (dict_of (List.map_filter (\<lambda>(t, v). map_option (Pair t) v) hits)), w))"

definition RequestScopedStore :: "backing PiiTokenStore" where
  "RequestScopedStore = \<lparr>st_put_many = request_put_many, st_get = request_get, st_get_many = request_get_many\<rparr>"

definition snapshot :: "backing \<times> draws \<Rightarrow> (string, string) dict" where
  "snapshot w = fst w"

section \<open>Dual-cache store\<close>

definition DEFAULT_SESSION_TTL_SECONDS :: int where
  "DEFAULT_SESSION_TTL_SECONDS = 60 * 60 * 24"

text \<open>\<open>AsyncKeyValueCache\<close>: a write may raise; a read may raise, or answer any object.\<close>

record 'c AsyncKeyValueCache =
  kv_set :: "string \<Rightarrow> string \<Rightarrow> int \<Rightarrow> 'c \<Rightarrow> string option \<times> 'c"
  kv_batch_get :: "string list \<Rightarrow> 'c \<Rightarrow> (string + pyobj) \<times> 'c"

text \<open>Every value sealed in turn, with the draws that takes.\<close>

fun seal_all ::
  "ValueCipher \<Rightarrow> (string, string) dict \<Rightarrow> draws \<Rightarrow> (string \<times> (pii_error + string)) list \<times> draws" where
  "seal_all cipher [] k = ([], k)"
| "seal_all cipher ((token, value) # rest) k =
     (case seal cipher value k of (r, k1) \<Rightarrow>
      case seal_all cipher rest k1 of (rs, k2) \<Rightarrow> ((token, r) # rs, k2))"

definition is_KeyUnavailable :: "pii_error + string \<Rightarrow> bool" where
  "is_KeyUnavailable r = (case r of Inl (KeyUnavailable _) \<Rightarrow> True | _ \<Rightarrow> False)"

text \<open>The gathered writes: all of them run, and the first exception is the one that is raised.\<close>

fun write_all ::
  "'c AsyncKeyValueCache \<Rightarrow> TokenScope \<Rightarrow> int \<Rightarrow> (string \<times> string) list \<Rightarrow> 'c \<Rightarrow> string option \<times> 'c" where
  "write_all cache scope ttl [] c = (None, c)"
| "write_all cache scope ttl ((token, sealed) # rest) c =
     (case kv_set cache (cache_key scope token) sealed ttl c of (exc, c1) \<Rightarrow>
      case write_all cache scope ttl rest c1 of (exc', c2) \<Rightarrow> (if exc = None then exc' else exc, c2))"

definition dual_put_many ::
  "'c AsyncKeyValueCache \<Rightarrow> ValueCipher \<Rightarrow> int \<Rightarrow> TokenScope \<Rightarrow> (string, string) dict \<Rightarrow> 'c \<times> draws
   \<Rightarrow> pii_error option \<times> ('c \<times> draws)" where
  "dual_put_many cache cipher ttl_seconds scope entries w =
     (case w of (c, k) \<Rightarrow>
      case seal_all cipher entries k of (sealed, k') \<Rightarrow>
      case filter is_KeyUnavailable (map snd sealed) of
        failure # _ \<Rightarrow> (Some (StoreUnavailable (error_reason (projl failure))), (c, k'))
      | [] \<Rightarrow>
          (case write_all cache scope ttl_seconds (List.map_filter (\<lambda>(t, r). case r of Inr s \<Rightarrow> Some (t, s) | Inl _ \<Rightarrow> None) sealed) c of
             (Some exc, c') \<Rightarrow> (Some (StoreUnavailable (''cache write failed ('' @ exc @ '')'')), (c', k'))
           | (None, c') \<Rightarrow> (None, (c', k'))))"

text \<open>The first element that is not \<open>None\<close> and not a string; the first that did not open.\<close>

definition first_mistyped :: "pyobj list \<Rightarrow> pyobj option" where
  "first_mistyped stored = List.find (\<lambda>v. v \<noteq> PNone \<and> as_str v = None) stored"

definition open_all :: "ValueCipher \<Rightarrow> string list \<Rightarrow> pyobj list \<Rightarrow> (string \<times> (pii_error + string)) list" where
  "open_all cipher tokens stored =
     List.map_filter (\<lambda>(t, v). map_option (\<lambda>s. (t, unseal cipher s)) (as_str v)) (zip tokens stored)"

definition dual_get_many ::
  "'c AsyncKeyValueCache \<Rightarrow> ValueCipher \<Rightarrow> int \<Rightarrow> TokenScope \<Rightarrow> string list \<Rightarrow> 'c \<times> draws
   \<Rightarrow> (pii_error + (string, string) dict) \<times> ('c \<times> draws)" where
  "dual_get_many cache cipher ttl_seconds scope tokens w =
     (case w of (c, k) \<Rightarrow>
      if tokens = [] then (Inr [], (c, k))
      else
        (case kv_batch_get cache (map (cache_key scope) tokens) c of
           (Inl exc, c') \<Rightarrow> (Inl (StoreUnavailable (''cache read failed ('' @ exc @ '')'')), (c', k))
         | (Inr answer, c') \<Rightarrow>
             (case as_list answer of
                None \<Rightarrow> (Inl (StoreUnavailable ''cache returned a result that does not line up with the keys requested''), (c', k))
              | Some stored \<Rightarrow>
                  if length stored \<noteq> length tokens then
                    (Inl (StoreUnavailable ''cache returned a result that does not line up with the keys requested''), (c', k))
                  else (case first_mistyped stored of
                      Some v \<Rightarrow> (Inl (StoreUnavailable (''unexpected cached type '' @ type_name v)), (c', k))
                    | None \<Rightarrow>
                        (let opened = open_all cipher tokens stored in
                         case List.find (\<lambda>(t, r). isl r) opened of
                           Some (t, r) \<Rightarrow> (Inl (StoreUnavailable (error_reason (projl r))), (c', k))
                         | None \<Rightarrow> (Inr (dict_of (map (\<lambda>(t, r). (t, projr r)) opened)), (c', k)))))))"

definition dual_get ::
  "'c AsyncKeyValueCache \<Rightarrow> ValueCipher \<Rightarrow> int \<Rightarrow> TokenScope \<Rightarrow> string \<Rightarrow> 'c \<times> draws
   \<Rightarrow> (pii_error + string option) \<times> ('c \<times> draws)" where
  "dual_get cache cipher ttl_seconds scope token w =
     (case dual_get_many cache cipher ttl_seconds scope [token] w of
        (Inl err, w') \<Rightarrow> (Inl err, w')
      | (Inr hits, w') \<Rightarrow> (Inr (map_of hits token), w'))"

definition DualCacheStore :: "'c AsyncKeyValueCache \<Rightarrow> ValueCipher \<Rightarrow> int \<Rightarrow> 'c PiiTokenStore" where
  "DualCacheStore cache cipher ttl_seconds =
     \<lparr>st_put_many = dual_put_many cache cipher ttl_seconds, st_get = dual_get cache cipher ttl_seconds,
      st_get_many = dual_get_many cache cipher ttl_seconds\<rparr>"

text \<open>
  \<open>DualCache\<close> as the store's cache, at a reading of the clock. Its writes never raise, and its batch read
  answers \<open>None\<close> where it caught an exception.
\<close>

definition cache_of_dual :: "(pyobj \<Rightarrow> string) \<Rightarrow> (pyobj \<Rightarrow> nat) \<Rightarrow> rat \<Rightarrow> 'r DualCache AsyncKeyValueCache" where
  "cache_of_dual py_str sizeof now =
     \<lparr>kv_set = (\<lambda>key value ttl d. (None, dual_async_set_cache py_str sizeof now key (PStr value) False (Some (of_int ttl)) d)),
      kv_batch_get = (\<lambda>keys d.
        case dual_async_batch_get_cache py_str sizeof now keys False None d of
          (Some vs, d') \<Rightarrow> (Inr (PList vs), d')
        | (None, d') \<Rightarrow> (Inr PNone, d'))\<rparr>"

end
