(* ===== verification/Store_Laws.thy ===== *)
theory Store_Laws
  imports Stores Grammar_Props
begin

text \<open>
  What the stores promise. \<open>kv_cache\<close> is the contract of a cache as a store relies on it, \<open>sealed_cache\<close>
  adds a cipher, \<open>token_store\<close> is the contract the service relies on, \<open>durable_token_store\<close> the stronger
  one of a store that loses nothing. The request's dict is durable; a cache with a cipher is a token store
  for the values whose sealed form is not JSON, because the in-memory cache decodes what looks like JSON.
\<close>

section \<open>Isolation of the keys\<close>

lemma for_key_no_colon: "CHR '':'' \<notin> set (namespace (for_key sha256 api_key session))"
proof -
  have d: "n < 16 \<Longrightarrow> hex_digit n \<noteq> CHR '':''" for n
    using hex_digit_handle [of n] by (auto simp: handle_char_def is_digit_def is_lower_def is_upper_def)
  have "\<exists>n < 16. c = hex_digit n" if "c \<in> set (hex bs)" for c bs
    using that by (auto simp: hex_def intro: byte_nibble) (rule exI, rule conjI [OF _ refl], simp)
  with d have "CHR '':'' \<notin> set (hex bs)" for bs by metis
  then have "CHR '':'' \<notin> set (take n (hex bs))" for n bs by (meson in_set_takeD)
  then show ?thesis by (simp add: for_key_def SESSION_NAMESPACE_ANONYMOUS_def)
qed

text \<open>A token has its only opening bracket at its head.\<close>

lemma token_head:
  assumes "parse t = Some p"
  shows "\<exists>r. t = CHR ''<'' # r \<and> CHR ''<'' \<notin> set r"
proof -
  from assms have t: "t = grammar_mint (parsed_entity p) (parsed_kind p) (discriminator p)"
    and e: "parsed_entity p \<in> set ENTITY_VOCABULARY" and d: "valid_disc (parsed_kind p) (discriminator p)"
    by (simp_all add: parse_iff)
  have "list_all (\<lambda>e. CHR ''<'' \<notin> set e) ENTITY_VOCABULARY" by code_simp
  with e have "CHR ''<'' \<notin> set (parsed_entity p)" by (simp add: list_all_iff)
  moreover have "CHR ''<'' \<notin> set (discriminator p)"
    using d by (auto simp: valid_disc_def is_digit_def handle_char_def is_lower_def is_upper_def split: TokenKind.splits)
  ultimately show ?thesis unfolding t grammar_mint_def by (cases "parsed_kind p") auto
qed

lemma suffix_token_eq:
  fixes x h :: 'a
  assumes "s @ x # t = s' @ x # t'" "\<exists>r. t = h # r \<and> h \<notin> set r" "\<exists>r. t' = h # r \<and> h \<notin> set r"
  shows "s = s' \<and> t = t'"
proof -
  have le: "length t' \<le> length t" if e: "s @ x # t = s' @ x # t'" and h: "t' = h # r'" "t = h # r" "h \<notin> set r'"
    for s s' t t' :: "'a list" and r r'
  proof (rule ccontr)
    assume "\<not> length t' \<le> length t"
    then obtain u where u: "t' = u @ x # t"
      using e by (auto simp: append_eq_append_conv2 Cons_eq_append_conv append_eq_Cons_conv)
    with h show False by (cases u) auto
  qed
  from assms(2,3) obtain r r' where r: "t = h # r" "h \<notin> set r" "t' = h # r'" "h \<notin> set r'" by blast
  have "length t' \<le> length t" by (rule le [OF assms(1) r(3,1,4)])
  moreover have "length t \<le> length t'" by (rule le [OF assms(1) [symmetric] r(1,3,2)])
  ultimately show ?thesis using assms(1) by simp
qed

text \<open>
  C28: Stored tokens are isolated. The cache keys of two scopes made from API keys are equal only for
  the same namespace, the same session and the same token, whatever characters a session id contains
  (colons included): no session id a caller picks reaches another namespace's tokens, and none
  aliases another session's.
\<close>

theorem cache_key_isolates:
  assumes "parse t = Some p" "parse t' = Some p'"
  shows "cache_key (for_key sha256 k s) t = cache_key (for_key sha256 k' s') t' \<longleftrightarrow>
    namespace (for_key sha256 k s) = namespace (for_key sha256 k' s') \<and> s = s' \<and> t = t'"
proof
  let ?n = "namespace (for_key sha256 k s)" and ?n' = "namespace (for_key sha256 k' s')"
  assume "cache_key (for_key sha256 k s) t = cache_key (for_key sha256 k' s') t'"
  then have "?n @ CHR '':'' # s @ CHR '':'' # t = ?n' @ CHR '':'' # s' @ CHR '':'' # t'"
    by (simp add: cache_key_def for_key_def)
  from append_sep_eq [OF for_key_no_colon for_key_no_colon this]
  have n: "?n = ?n'" and "s @ CHR '':'' # t = s' @ CHR '':'' # t'" by simp_all
  from suffix_token_eq [OF this(2) token_head [OF assms(1)] token_head [OF assms(2)]] n
  show "?n = ?n' \<and> s = s' \<and> t = t'" by simp
qed (simp add: cache_key_def for_key_def)

theorem cache_key_isolates_witness:
  "cache_key (for_key (\<lambda>b. b) (Some ''ab'') ''x:y'') ''<PERSON_1>'' \<noteq> cache_key (for_key (\<lambda>b. b) (Some ''ab'') ''x'') ''<PERSON_1>''"
proof -
  have "parse ''<PERSON_1>'' \<noteq> None" by code_simp
  then obtain p where p: "parse ''<PERSON_1>'' = Some p" by blast
  show ?thesis using cache_key_isolates [OF p p, of "\<lambda>b. b" "Some ''ab''" "''x:y''" "Some ''ab''" "''x''"] by simp
qed

section \<open>The contracts\<close>

locale token_store =
  fixes put_many :: "TokenScope \<Rightarrow> (string, string) dict \<Rightarrow> 'w \<Rightarrow> pii_error option \<times> 'w"
    and get_many :: "TokenScope \<Rightarrow> string list \<Rightarrow> 'w \<Rightarrow> (pii_error + (string, string) dict) \<times> 'w"
    and storable :: "string \<Rightarrow> bool"
    and holds :: "'w \<Rightarrow> TokenScope \<Rightarrow> string \<Rightarrow> string option"
    and invar :: "'w \<Rightarrow> bool"
  assumes put_sound: "invar w \<Longrightarrow> \<forall>v \<in> snd ` set es. storable v \<Longrightarrow> put_many sc es w = (None, w') \<Longrightarrow>
      invar w' \<and> (\<forall>t v. holds w' sc t = Some v \<longrightarrow> (t, v) \<in> set es \<or> holds w sc t = Some v)"
    and get_sound: "invar w \<Longrightarrow> get_many sc ts w = (Inr d, w') \<Longrightarrow>
      invar w' \<and> (\<forall>t v. map_of d t = Some v \<longrightarrow> t \<in> set ts \<and> holds w sc t = Some v)"
begin

text \<open>What a read answers for tokens new to the scope is what was put.\<close>

lemma put_then_get:
  assumes "invar w" "\<forall>v \<in> snd ` set es. storable v" "\<forall>t \<in> fst ` set es. holds w sc t = None"
    "put_many sc es w = (None, w1)" "get_many sc ts w1 = (Inr d, w2)" "map_of d t = Some v" "t \<in> fst ` set es"
  shows "(t, v) \<in> set es"
proof -
  note p = put_sound [OF assms(1,2,4)]
  with get_sound [OF _ assms(5)] assms(6) have "holds w1 sc t = Some v" by blast
  with p have "(t, v) \<in> set es \<or> holds w sc t = Some v" by blast
  with assms(3,7) show ?thesis by auto
qed

end

locale durable_token_store = token_store +
  assumes put_succeeds: "invar w \<Longrightarrow> \<exists>w'. put_many sc es w = (None, w')"
    and put_complete: "invar w \<Longrightarrow> distinct (map fst es) \<Longrightarrow> put_many sc es w = (None, w') \<Longrightarrow> (t, v) \<in> set es \<Longrightarrow> holds w' sc t = Some v"
    and get_complete: "invar w \<Longrightarrow> \<exists>d. get_many sc ts w = (Inr d, w) \<and> distinct (map fst d) \<and> (\<forall>t \<in> set ts. map_of d t = holds w sc t)"
begin

lemma put_then_get_all:
  assumes "invar w" "\<forall>v \<in> snd ` set es. storable v" "distinct (map fst es)"
  shows "\<exists>w1 d. put_many sc es w = (None, w1) \<and> get_many sc ts w1 = (Inr d, w1) \<and>
    (\<forall>t \<in> set ts \<inter> fst ` set es. map_of d t = map_of es t)"
proof -
  obtain w1 where p: "put_many sc es w = (None, w1)" using put_succeeds [OF assms(1)] by blast
  then have "invar w1" using put_sound [OF assms(1,2)] by blast
  from get_complete [OF this] obtain d where d: "get_many sc ts w1 = (Inr d, w1)" "\<forall>t \<in> set ts. map_of d t = holds w1 sc t" by blast
  then have "map_of d t = map_of es t" if "t \<in> set ts" "(t, v) \<in> set es" for t v
    using that put_complete [OF assms(1,3) p that(2)] assms(3) by simp
  with p d(1) show ?thesis by fastforce
qed

end

section \<open>The request's dict\<close>

lemma map_of_map_filter_pair:
  "map_of (List.map_filter (\<lambda>(t, v). map_option (Pair t) v) (map (\<lambda>t. (t, f t)) ts)) t = (if t \<in> set ts then f t else None)"
  by (induction ts) (auto simp: List.map_filter_simps split: option.splits)

lemma request_get_many_map:
  "\<exists>d. request_get_many sc ts w = (Inr d, w) \<and> distinct (map fst d) \<and> (\<forall>t. map_of d t = (if t \<in> set ts then map_of (fst w) t else None))"
proof -
  let ?pick = "\<lambda>ts. List.map_filter (\<lambda>(t, v). map_option (Pair t) v) (map (\<lambda>t. (t, map_of (fst w) t)) ts)"
  have "rev (?pick ts) = ?pick (rev ts)" by (simp add: List.map_filter_def rev_map rev_filter)
  then have "map_of (rev (?pick ts)) t = (if t \<in> set ts then map_of (fst w) t else None)" for t
    by (simp add: map_of_map_filter_pair)
  then show ?thesis by (auto simp: request_get_many_def map_of_dict_of Let_def)
qed

interpretation request_store: durable_token_store "st_put_many RequestScopedStore" "st_get_many RequestScopedStore"
  "\<lambda>_. True" "\<lambda>w sc. map_of (fst w)" "\<lambda>_. True"
proof
  fix w :: "backing \<times> draws" and sc es w'
  assume "st_put_many RequestScopedStore sc es w = (None, w')"
  then have w': "fst w' = dict_update (fst w) es" by (auto simp: RequestScopedStore_def request_put_many_def split: prod.splits)
  show "True \<and> (\<forall>t v. map_of (fst w') t = Some v \<longrightarrow> (t, v) \<in> set es \<or> map_of (fst w) t = Some v)"
    by (auto simp: w' map_of_dict_update map_add_Some_iff dest: map_of_SomeD)
next
  fix w :: "backing \<times> draws" and sc es w' t v
  assume "st_put_many RequestScopedStore sc es w = (None, w')" "distinct (map fst es)" "(t, v) \<in> set es"
  then show "map_of (fst w') t = Some v"
    by (auto simp: RequestScopedStore_def request_put_many_def map_of_dict_update map_of_rev_distinct map_add_Some_iff split: prod.splits)
next
  fix w :: "backing \<times> draws" and sc ts d w'
  assume "st_get_many RequestScopedStore sc ts w = (Inr d, w')"
  then show "True \<and> (\<forall>t v. map_of d t = Some v \<longrightarrow> t \<in> set ts \<and> map_of (fst w) t = Some v)"
    using request_get_many_map [of sc ts w] by (auto simp: RequestScopedStore_def split: if_splits)
next
  fix w :: "backing \<times> draws" and sc ts
  show "\<exists>d. st_get_many RequestScopedStore sc ts w = (Inr d, w) \<and> distinct (map fst d) \<and> (\<forall>t \<in> set ts. map_of d t = map_of (fst w) t)"
    using request_get_many_map [of sc ts w] by (auto simp: RequestScopedStore_def)
qed (simp add: RequestScopedStore_def request_put_many_def split: prod.splits)

end
