(* ===== verification/Service.thy ===== *)
theory Service
  imports Detectors Store_Laws Transform_Props
begin

text \<open>
  \<open>litellm/pii/service.py\<close>: detect, encode and decode over a detector, a codec and a store. The calls
  that \<open>asyncio.gather\<close> runs side by side are detections, which share no state, so they are a map over
  the texts. The last section composes the contracts of a codec and of a store into the round trip
  of the whole service.
\<close>

record EncodedBatch =
  eb_texts :: "string list"
  eb_tokens :: "IssuedToken list"
  eb_session_id :: string
  eb_spans_by_text :: "PiiSpan list list"
  eb_placements :: "Placement list"
  eb_ner_stage_ran :: bool

record DraftedBatch =
  db_draft :: BatchDraft
  db_spans_by_text :: "PiiSpan list list"
  db_ner_stage_ran :: bool

record 'w PiiService =
  svc_detector :: CascadingDetector
  svc_codec :: PiiCodec
  svc_store :: "'w PiiTokenStore"

definition svc_detect ::
  "'w PiiService \<Rightarrow> string \<Rightarrow> string \<Rightarrow> string list option \<Rightarrow> pii_error + DetectionResult" where
  "svc_detect svc t language entities = cascade_detect (svc_detector svc) t language entities"

definition detect_many ::
  "'w PiiService \<Rightarrow> string list \<Rightarrow> string \<Rightarrow> string list option \<Rightarrow> pii_error + DetectionResult list" where
  "detect_many svc texts language entities =
     (let results = map (\<lambda>t. cascade_detect (svc_detector svc) t language entities) texts in
      case first_error results of
        Some failure \<Rightarrow> Inl failure
      | None \<Rightarrow> Inr (map projr results))"

definition svc_draft ::
  "'w PiiService \<Rightarrow> string list \<Rightarrow> string \<Rightarrow> string list option \<Rightarrow> (PiiSpan \<Rightarrow> bool) option \<Rightarrow> draws
   \<Rightarrow> (pii_error + DraftedBatch) \<times> draws" where
  "svc_draft svc texts language entities is_rev k =
     (case detect_many svc texts language entities of
        Inl err \<Rightarrow> (Inl err, k)
      | Inr detected \<Rightarrow>
          (let spans_by_text = map result_spans detected in
           case encode_batch texts spans_by_text (svc_codec svc) is_rev k of
             (Inl err, k') \<Rightarrow> (Inl err, k')
           | (Inr drafted, k') \<Rightarrow>
               (Inr \<lparr>db_draft = drafted, db_spans_by_text = spans_by_text,
                     db_ner_stage_ran = list_ex ner_stage_ran detected\<rparr>, k')))"

definition svc_encode ::
  "'w PiiService \<Rightarrow> string list \<Rightarrow> TokenScope \<Rightarrow> string \<Rightarrow> string list option \<Rightarrow> (PiiSpan \<Rightarrow> bool) option
   \<Rightarrow> 'w \<times> draws \<Rightarrow> (pii_error + EncodedBatch) \<times> ('w \<times> draws)" where
  "svc_encode svc texts scope language entities is_rev w =
     (case svc_draft svc texts language entities is_rev (snd w) of
        (Inl err, k) \<Rightarrow> (Inl err, (fst w, k))
      | (Inr drafted, k) \<Rightarrow>
          (case (if draft_mapping (db_draft drafted) = [] then (None, (fst w, k))
                 else st_put_many (svc_store svc) scope (draft_mapping (db_draft drafted)) (fst w, k)) of
             (Some err, w') \<Rightarrow> (Inl err, w')
           | (None, w') \<Rightarrow>
               (Inr \<lparr>eb_texts = draft_texts (db_draft drafted), eb_tokens = draft_tokens (db_draft drafted),
                     eb_session_id = session_id scope, eb_spans_by_text = db_spans_by_text drafted,
                     eb_placements = draft_placements (db_draft drafted),
                     eb_ner_stage_ran = db_ner_stage_ran drafted\<rparr>, w')))"

definition encode_one ::
  "'w PiiService \<Rightarrow> string \<Rightarrow> TokenScope \<Rightarrow> string \<Rightarrow> string list option \<Rightarrow> 'w \<times> draws
   \<Rightarrow> (pii_error + EncodedText) \<times> ('w \<times> draws)" where
  "encode_one svc t scope language entities w =
     (case svc_encode svc [t] scope language entities None w of
        (Inl err, w') \<Rightarrow> (Inl err, w')
      | (Inr batch, w') \<Rightarrow>
          (Inr \<lparr>et_text = eb_texts batch ! 0, et_tokens = eb_tokens batch, et_session_id = eb_session_id batch\<rparr>, w'))"

text \<open>Values the codec recovers from the token alone; a codec error leaves the token unresolved.\<close>

definition self_contained :: "'w PiiService \<Rightarrow> string list \<Rightarrow> (string, string) dict" where
  "self_contained svc tokens =
     dict_of (List.map_filter
       (\<lambda>t. case codec_recover (svc_codec svc) t of Some (Inr v) \<Rightarrow> Some (t, v) | _ \<Rightarrow> None) tokens)"

definition svc_decode ::
  "'w PiiService \<Rightarrow> string list \<Rightarrow> TokenScope \<Rightarrow> 'w \<times> draws \<Rightarrow> (pii_error + string list) \<times> ('w \<times> draws)" where
  "svc_decode svc texts scope w =
     (let candidates = py_sorted id (canonical_tokens texts) in
      if candidates = [] then (Inr texts, w)
      else
        (let recovered = self_contained svc candidates;
             deferred = filter (\<lambda>t. map_of recovered t = None) candidates
         in case st_get_many (svc_store svc) scope deferred w of
              (Inl err, w') \<Rightarrow> (Inl err, w')
            | (Inr stored, w') \<Rightarrow>
                (let resolved = dict_update recovered stored
                 in (Inr (map (\<lambda>t. decode_text t resolved) texts), w'))))"

definition decode_one ::
  "'w PiiService \<Rightarrow> string \<Rightarrow> TokenScope \<Rightarrow> 'w \<times> draws \<Rightarrow> (pii_error + string) \<times> ('w \<times> draws)" where
  "decode_one svc t scope w =
     (case svc_decode svc [t] scope w of
        (Inl err, w') \<Rightarrow> (Inl err, w')
      | (Inr restored_texts, w') \<Rightarrow> (Inr (restored_texts ! 0), w'))"

section \<open>Detection\<close>

text \<open>What a stage reports is inside the text and of the vocabulary.\<close>

definition stage_ok :: "PiiDetector \<Rightarrow> string \<Rightarrow> string \<Rightarrow> string list option \<Rightarrow> bool" where
  "stage_ok stage t language entities =
     (case stage t language entities of
        Inl err \<Rightarrow> True
      | Inr spans \<Rightarrow> list_all (\<lambda>sp. span_in sp (length t) \<and> entity_type sp \<in> set ENTITY_VOCABULARY) spans)"

definition detector_ok :: "CascadingDetector \<Rightarrow> string \<Rightarrow> string \<Rightarrow> string list option \<Rightarrow> bool" where
  "detector_ok self t language entities \<longleftrightarrow> stage_ok (rules_stage self) t language entities \<and>
     (case ner_stage self of None \<Rightarrow> True | Some ner \<Rightarrow> stage_ok ner t language entities)"

lemma cascade_spans_ok:
  assumes "detector_ok self t lang ents" "cascade_detect self t lang ents = Inr r"
  shows "spans_ok t (result_spans r)"
proof -
  consider "result_spans r = []"
    | rs where "result_spans r = merge_spans t [rs]" "rules_stage self t lang ents = Inr rs"
    | rs ner ns where "result_spans r = merge_spans t [rs, ns]" "rules_stage self t lang ents = Inr rs"
        "ner_stage self = Some ner" "ner t lang ents = Inr ns"
    using assms(2) by (auto simp: cascade_detect_def Let_def split: sum.splits option.splits if_splits)
  then show ?thesis
  proof cases
    case 1
    then show ?thesis by (simp add: spans_ok_def)
  next
    case 2
    with assms(1) have "detected_ok t [rs]" by (simp add: detector_ok_def stage_ok_def detected_ok_def list_all_iff)
    with 2 show ?thesis by (simp add: merge_spans_ok)
  next
    case 3
    with assms(1) have "detected_ok t [rs, ns]" by (auto simp: detector_ok_def stage_ok_def detected_ok_def list_all_iff)
    with 3 show ?thesis by (simp add: merge_spans_ok)
  qed
qed

lemma detect_many_Inr:
  "detect_many svc texts lang ents = Inr ds \<longleftrightarrow>
     length ds = length texts \<and> (\<forall>i < length texts. cascade_detect (svc_detector svc) (texts ! i) lang ents = Inr (ds ! i))"
proof
  assume d: "detect_many svc texts lang ents = Inr ds"
  let ?rs = "map (\<lambda>t. cascade_detect (svc_detector svc) t lang ents) texts"
  from d have n: "first_error ?rs = None" and ds: "ds = map projr ?rs"
    by (auto simp: detect_many_def Let_def split: option.splits)
  have "\<exists>x. cascade_detect (svc_detector svc) (texts ! i) lang ents = Inr x" if "i < length texts" for i
    using n that by (auto simp: first_error_None)
  then show "length ds = length texts \<and> (\<forall>i < length texts. cascade_detect (svc_detector svc) (texts ! i) lang ents = Inr (ds ! i))"
    unfolding ds by force
next
  assume r: "length ds = length texts \<and> (\<forall>i < length texts. cascade_detect (svc_detector svc) (texts ! i) lang ents = Inr (ds ! i))"
  then have "map (\<lambda>t. cascade_detect (svc_detector svc) t lang ents) texts = map Inr ds" by (intro nth_equalityI) auto
  moreover have "first_error (map Inr ds) = None" by (simp add: first_error_None)
  ultimately show "detect_many svc texts lang ents = Inr ds" by (simp add: detect_many_def comp_def)
qed

lemma svc_draft_Inr:
  assumes "svc_draft svc texts lang ents is_rev k = (Inr dr, k')"
    and "\<forall>t \<in> set texts. detector_ok (svc_detector svc) t lang ents"
  shows "encode_batch texts (db_spans_by_text dr) (svc_codec svc) is_rev k = (Inr (db_draft dr), k')"
    and "length (db_spans_by_text dr) = length texts"
    and "\<forall>i < length texts. spans_ok (texts ! i) (db_spans_by_text dr ! i)"
proof -
  obtain ds where ds: "detect_many svc texts lang ents = Inr ds" and sp: "db_spans_by_text dr = map result_spans ds"
    and "encode_batch texts (map result_spans ds) (svc_codec svc) is_rev k = (Inr (db_draft dr), k')"
    using assms(1) by (auto simp: svc_draft_def Let_def split: sum.splits prod.splits)
  then show "encode_batch texts (db_spans_by_text dr) (svc_codec svc) is_rev k = (Inr (db_draft dr), k')" by simp
  note d = ds [unfolded detect_many_Inr]
  then show "length (db_spans_by_text dr) = length texts" by (simp add: sp)
  show "\<forall>i < length texts. spans_ok (texts ! i) (db_spans_by_text dr ! i)"
    using d assms(2) by (auto simp: sp intro!: cascade_spans_ok [where lang = lang and ents = ents])
qed

section \<open>Decoding depends on the tokens of the text alone\<close>

lemma render_cong:
  "(\<And>t. t \<in> set (tokens_in ps) \<Longrightarrow> f t = g t) \<Longrightarrow> render f ps = render g ps"
  by (induction ps rule: tokens_in.induct) auto

lemma decode_text_cong:
  assumes "\<And>c. c \<in> set (canonical_tokens [t]) \<Longrightarrow> map_of m c = map_of m' c"
  shows "decode_text t m = decode_text t m'"
  unfolding decode_render
proof (rule render_cong)
  fix tok assume "tok \<in> set (tokens_in (scan 0 t))"
  then have "canonical tok \<in> set (canonical_tokens [t])" by (simp add: canonical_tokens_def find_tokens_def)
  with assms show "restored m tok = restored m' tok" by (simp add: restored_def)
qed

lemma canonical_tokens_mono: "t \<in> set texts \<Longrightarrow> set (canonical_tokens [t]) \<subseteq> set (canonical_tokens texts)"
  by (auto simp: canonical_tokens_def)

lemma self_contained_None:
  assumes "\<And>t. t \<in> set ts \<Longrightarrow> codec_recover (svc_codec svc) t = None"
  shows "self_contained svc ts = []"
proof -
  have "List.map_filter (\<lambda>t. case codec_recover (svc_codec svc) t of Some (Inr v) \<Rightarrow> Some (t, v) | _ \<Rightarrow> None) ts = []"
    using assms by (auto simp: List.map_filter_def filter_empty_conv)
  then show ?thesis by (simp add: self_contained_def)
qed

lemma draft_mapping_distinct:
  "encode_batch texts sbt codec is_rev k = (Inr draft, k') \<Longrightarrow> distinct (map fst (draft_mapping draft))"
  by (auto simp: encode_batch_def Let_def split: if_splits prod.splits option.splits)

lemma length_draft_texts:
  "encode_batch texts sbt codec is_rev k = (Inr draft, k') \<Longrightarrow> length (draft_texts draft) = length texts"
  by (auto simp: encode_batch_def Let_def split: if_splits prod.splits option.splits)

section \<open>The stack\<close>

text \<open>
  A codec that resolves through its store, over a store that loses nothing: what the service needs of
  both for a lossless round trip.
\<close>

locale pii_stack = batch_codec codec reversible + durable_token_store "st_put_many store" "st_get_many store" storable holds invar
  for codec :: PiiCodec and reversible :: "string \<Rightarrow> bool" and store :: "'w PiiTokenStore"
    and storable :: "string \<Rightarrow> bool" and holds :: "'w \<times> draws \<Rightarrow> TokenScope \<Rightarrow> string \<Rightarrow> string option" and invar :: "'w \<times> draws \<Rightarrow> bool" +
  assumes no_recover: "codec_recover codec t = None"
    and all_storable: "storable v"
    and draws_irrelevant: "invar (x, k) \<Longrightarrow> invar (x, k') \<and> holds (x, k) = holds (x, k')"
begin

lemma decode_resolves:
  assumes svc: "svc_codec svc = codec" "svc_store svc = store" and "invar w" and m: "\<And>t. map_of m t = holds w sc t"
  shows "svc_decode svc texts sc w = (Inr (map (\<lambda>t. decode_text t m) texts), w)"
proof (cases "canonical_tokens texts = []")
  case True
  then have "decode_text t m = t" if "t \<in> set texts" for t
    using canonical_tokens_mono [OF that] decode_text_cong [of t m "[]"] by (simp add: decode_text_def)
  then have "map (\<lambda>t. decode_text t m) texts = texts" by (rule map_idI)
  with True show ?thesis by (simp add: svc_decode_def py_sorted_def)
next
  case False
  let ?cs = "py_sorted id (canonical_tokens texts)"
  have ne: "?cs \<noteq> []" using False by (metis length_0_conv length_py_sorted)
  obtain d where d: "st_get_many store sc ?cs w = (Inr d, w)" "distinct (map fst d)" "\<forall>t \<in> set ?cs. map_of d t = holds w sc t"
    using get_complete [OF assms(3), of sc ?cs] by blast
  have "self_contained svc ?cs = []" by (rule self_contained_None) (simp add: svc no_recover)
  then have "svc_decode svc texts sc w = (Inr (map (\<lambda>t. decode_text t (dict_update [] d)) texts), w)"
    using ne d(1) by (simp add: svc_decode_def svc)
  moreover have "decode_text t (dict_update [] d) = decode_text t m" if "t \<in> set texts" for t
    using canonical_tokens_mono [OF that] d(2,3) m
    by (intro decode_text_cong) (auto simp: map_of_dict_update map_of_rev_distinct)
  ultimately show ?thesis by simp
qed

text \<open>What is stored of a scope after an encode into it is the draft's mapping.\<close>

lemma encode_stores:
  assumes svc: "svc_codec svc = codec" "svc_store svc = store" and inv: "invar w" and new: "\<And>t. holds w sc t = None"
    and enc: "svc_encode svc texts sc lang ents is_rev w = (Inr batch, w')"
  obtains dr k where "svc_draft svc texts lang ents is_rev (snd w) = (Inr dr, k)" "eb_texts batch = draft_texts (db_draft dr)"
    "eb_spans_by_text batch = db_spans_by_text dr" "invar w'" "\<And>t. map_of (draft_mapping (db_draft dr)) t = holds w' sc t"
proof -
  obtain dr k where dr: "svc_draft svc texts lang ents is_rev (snd w) = (Inr dr, k)"
    and eb: "eb_texts batch = draft_texts (db_draft dr)" "eb_spans_by_text batch = db_spans_by_text dr"
    and put: "draft_mapping (db_draft dr) = [] \<and> w' = (fst w, k) \<or>
      st_put_many store sc (draft_mapping (db_draft dr)) (fst w, k) = (None, w')"
    using enc by (auto simp: svc_encode_def svc split: prod.splits sum.splits option.splits if_splits)
  obtain sbt k0 where e: "encode_batch texts sbt (svc_codec svc) is_rev k0 = (Inr (db_draft dr), k)"
    using dr by (auto simp: svc_draft_def Let_def split: sum.splits prod.splits)
  let ?m = "draft_mapping (db_draft dr)"
  have w: "invar (fst w, k)" "\<And>t. holds (fst w, k) sc t = None"
    using draws_irrelevant [of "fst w" "snd w" k] inv new by (auto simp del: split_paired_All)
  show thesis
  proof (cases "?m = [] \<and> w' = (fst w, k)")
    case True
    with w that [OF dr eb] show ?thesis by simp
  next
    case False
    then have p: "st_put_many store sc ?m (fst w, k) = (None, w')" using put by blast
    have st: "\<forall>v \<in> snd ` set ?m. storable v" using all_storable by blast
    note ps = put_sound [OF w(1) st p]
    note pc = put_complete [OF w(1) draft_mapping_distinct [OF e] p]
    have "map_of ?m t = holds w' sc t" for t
    proof (cases "holds w' sc t")
      case None
      with pc show ?thesis by (metis map_of_SomeD not_None_eq)
    next
      case (Some v)
      with ps w(2) have "(t, v) \<in> set ?m" by fastforce
      with Some draft_mapping_distinct [OF e] show ?thesis by simp
    qed
    with ps that [OF dr eb] show ?thesis by blast
  qed
qed

lemma stack_roundtrip:
  assumes svc: "svc_codec svc = codec" "svc_store svc = store" and "invar w" "\<And>t. holds w sc t = None"
    and "svc_encode svc texts sc lang ents is_rev w = (Inr batch, w')"
    and "\<forall>t \<in> set texts. detector_ok (svc_detector svc) t lang ents"
    and "\<forall>i < length texts. unescaped (texts ! i) (eb_spans_by_text batch ! i)"
    and "\<And>sp. (case is_rev of None \<Rightarrow> True | Some g \<Rightarrow> g sp) \<longleftrightarrow> reversible (entity_type sp)"
  shows "svc_decode svc (eb_texts batch) sc w' =
    (Inr (map2 (\<lambda>t spans. replace_spans (\<lambda>sp. if reversible (entity_type sp) then text_from sp t else mint_masked (entity_type sp)) t 0 spans)
       texts (eb_spans_by_text batch)), w')"
proof -
  obtain dr k where dr: "svc_draft svc texts lang ents is_rev (snd w) = (Inr dr, k)" "eb_texts batch = draft_texts (db_draft dr)"
    "eb_spans_by_text batch = db_spans_by_text dr" "invar w'" "\<And>t. map_of (draft_mapping (db_draft dr)) t = holds w' sc t"
    by (rule encode_stores [OF assms(1-5)]) blast
  note e = svc_draft_Inr [OF dr(1) assms(6), unfolded svc(1)]
  have "svc_decode svc (eb_texts batch) sc w' = (Inr (map (\<lambda>t. decode_text t (draft_mapping (db_draft dr))) (eb_texts batch)), w')"
    by (rule decode_resolves [OF svc dr(4,5)])
  moreover have "decode_text (eb_texts batch ! i) (draft_mapping (db_draft dr)) =
      replace_spans (\<lambda>sp. if reversible (entity_type sp) then text_from sp (texts ! i) else mint_masked (entity_type sp))
        (texts ! i) 0 (eb_spans_by_text batch ! i)" if "i < length texts" for i
    unfolding dr(2,3)
    by (rule batch_roundtrip [OF e(1,2) _ assms(8) that]) (use e(3) assms(7) dr(3) in auto)
  moreover have "length (eb_texts batch) = length texts" using length_draft_texts [OF e(1)] dr(2) by simp
  moreover have "length (eb_spans_by_text batch) = length texts" using e(2) dr(3) by simp
  ultimately show ?thesis by (auto intro: nth_equalityI)
qed

end

interpretation request_stack: pii_stack "ActionAwareCodec PlaceholderCodec actions dflt" "\<lambda>e. action_for actions dflt e \<noteq> MASK"
    RequestScopedStore "\<lambda>_. True" "\<lambda>w sc. map_of (fst w)" "\<lambda>_. True"
  for actions dflt
  by unfold_locales (simp_all add: ActionAwareCodec_def PlaceholderCodec_def)

section \<open>Properties of the service\<close>

text \<open>
  C23: Encoding and then decoding a request restores it. With the codec and the store of an in-flight
  request (placeholders under any per-entity actions, the request's own token map, empty at the start) and
  detection stages that report spans of the vocabulary inside the texts, if encoding succeeds then
  decoding the encoded texts succeeds and answers every source text with exactly its masked entities
  masked, unless a backslash directly precedes a detected value. Nothing is assumed of the order, overlap or blank
  edges of what the stages report, nor of the tokens the source texts contain.
\<close>

theorem service_roundtrip:
  assumes "svc_codec svc = ActionAwareCodec PlaceholderCodec actions dflt" "svc_store svc = RequestScopedStore"
    and "svc_encode svc texts sc lang ents (Some (is_reversible actions dflt)) ([], k) = (Inr batch, w)"
    and "\<forall>t \<in> set texts. detector_ok (svc_detector svc) t lang ents"
    and "\<forall>i < length texts. unescaped (texts ! i) (eb_spans_by_text batch ! i)"
  shows "svc_decode svc (eb_texts batch) sc w =
    (Inr (map2 (\<lambda>t spans. replace_spans (\<lambda>sp. if is_reversible actions dflt sp then text_from sp t else mint_masked (entity_type sp)) t 0 spans)
       texts (eb_spans_by_text batch)), w)"
  using request_stack.stack_roundtrip [OF assms(1,2) _ _ assms(3-5)] by (simp add: is_reversible_def)

definition sample_service :: "backing PiiService" where
  "sample_service =
     \<lparr>svc_detector = \<lparr>rules_stage = (\<lambda>t l e. Inr [\<lparr>entity_type = ''PERSON'', span_start = 0, span_end = 3, score = 1, detector = RULES\<rparr>]),
        ner_stage = None, stage_policy = ALWAYS, low_confidence_threshold = 1 / 2, cascade_fail_closed = True\<rparr>,
      svc_codec = ActionAwareCodec PlaceholderCodec [] ENCODE, svc_store = RequestScopedStore\<rparr>"

definition request_scope :: TokenScope where
  "request_scope = \<lparr>namespace = ''ns'', session_id = ''request''\<rparr>"

definition sample_batch :: EncodedBatch where
  "sample_batch =
     (let sp = \<lparr>entity_type = ''PERSON'', span_start = 0, span_end = 3, score = 1, detector = RULES\<rparr>
      in \<lparr>eb_texts = [''<PERSON_1> paid''],
          eb_tokens = [\<lparr>issued_token = ''<PERSON_1>'', issued_entity = ''PERSON'', issued_codec = ''placeholder''\<rparr>],
          eb_session_id = ''request'', eb_spans_by_text = [ [sp] ],
          eb_placements = [\<lparr>text_index = 0, placed_span = sp, placed_token = ''<PERSON_1>''\<rparr>], eb_ner_stage_ran = False\<rparr>)"

lemma sample_service_encodes:
  "svc_encode sample_service [''Bob paid''] request_scope ''en'' None (Some (is_reversible [] ENCODE)) ([], 0)
     = (Inr sample_batch, ([(''<PERSON_1>'', ''Bob'')], 0))"
  by code_simp

lemma sample_detector_ok: "detector_ok (svc_detector sample_service) ''Bob paid'' ''en'' None"
proof -
  have "''PERSON'' \<in> set ENTITY_VOCABULARY" by code_simp
  then show ?thesis by (simp add: sample_service_def detector_ok_def stage_ok_def span_in_def)
qed

theorem service_roundtrip_witness:
  "svc_decode sample_service [''<PERSON_1> paid''] request_scope ([(''<PERSON_1>'', ''Bob'')], 0)
     = (Inr [''Bob paid''], ([(''<PERSON_1>'', ''Bob'')], 0))"
proof -
  have "svc_codec sample_service = ActionAwareCodec PlaceholderCodec [] ENCODE" "svc_store sample_service = RequestScopedStore"
    by (simp_all add: sample_service_def)
  from service_roundtrip [OF this sample_service_encodes] sample_detector_ok show ?thesis
    by (simp add: sample_batch_def Let_def unescaped_def is_reversible_def action_for_def text_from_def py_slice_def py_index_def)
qed

text \<open>
  C24: Encoding fails closed. When the detection of any text of a batch fails, encoding answers the
  failure of the first such text, and neither the store nor the random draws have been touched: no text of the
  batch leaves the service, encoded or not, and no value is stored.
\<close>

theorem encode_fails_closed:
  assumes "i < length texts" "cascade_detect (svc_detector svc) (texts ! i) lang ents = Inl err"
    and "\<forall>j < i. \<exists>r. cascade_detect (svc_detector svc) (texts ! j) lang ents = Inr r"
  shows "svc_encode svc texts sc lang ents is_rev w = (Inl err, w)"
proof -
  let ?f = "\<lambda>t. cascade_detect (svc_detector svc) t lang ents"
  have fe: "first_error (map Inr xs @ Inl err # rs) = Some err" for xs rs by (induction xs) simp_all
  have "map ?f (take i texts) = map Inr (map (projr \<circ> ?f) (take i texts))"
    using assms(1,3) by (intro nth_equalityI) fastforce+
  moreover have "map ?f texts = map ?f (take i texts) @ Inl err # map ?f (drop (Suc i) texts)"
    using assms(1,2) by (subst id_take_nth_drop [OF assms(1)]) simp
  ultimately have "first_error (map ?f texts) = Some err" by (metis fe)
  then have "detect_many svc texts lang ents = Inl err" by (simp add: detect_many_def)
  then show ?thesis by (simp add: svc_encode_def svc_draft_def)
qed

theorem encode_fails_closed_witness:
  "svc_encode (sample_service\<lparr>svc_detector := (svc_detector sample_service)\<lparr>rules_stage :=
       (\<lambda>t l e. if t = ''x'' then Inl (DetectorUnavailable RULES ''timeout'') else Inr [])\<rparr>\<rparr>)
     [''Bob'', ''x''] request_scope ''en'' None None ([], 0) = (Inl (DetectorUnavailable RULES ''timeout''), ([], 0))"
  by (rule encode_fails_closed [where i = 1])
     (auto simp: sample_service_def cascade_detect_def less_Suc_eq)



end
