(* ===== verification/Config.thy ===== *)
theory Config
  imports Service
begin

text \<open>
  \<open>litellm/pii/config.py\<close>: settings from the environment, and the service assembled from them. What is
  outside the code is one record: the environment, the digest and the cipher of the cryptography package,
  the random draws, the HTTP client and \<open>str\<close> of an object.
\<close>

record Externals =
  ext_getenv :: "string \<Rightarrow> string option"
  ext_sha256 :: "bytes \<Rightarrow> bytes"
  ext_urandom :: urandom
  ext_encrypt :: aes_encrypt
  ext_decrypt :: aes_decrypt
  ext_post_json :: JsonPoster
  ext_str :: "pyobj \<Rightarrow> string"

section \<open>\<open>int(s)\<close>\<close>

text \<open>
  Blanks around, one sign, digits with single underscores between them; \<open>None\<close> is the \<open>ValueError\<close>.
\<close>

fun int_digits :: "bool \<Rightarrow> nat \<Rightarrow> string \<Rightarrow> nat option" where
  "int_digits after_digit n [] = (if after_digit then Some n else None)"
| "int_digits after_digit n (c # cs) =
     (if is_digit c then int_digits True (10 * n + (of_char c - 48)) cs
      else if c = CHR ''_'' \<and> after_digit then int_digits False n cs
      else None)"

definition py_int :: "string \<Rightarrow> int option" where
  "py_int s =
     (let t = strip s in
      if t \<noteq> [] \<and> hd t = CHR ''-'' then map_option (\<lambda>n. - int n) (int_digits False 0 (tl t))
      else if t \<noteq> [] \<and> hd t = CHR ''+'' then map_option int (int_digits False 0 (tl t))
      else map_option int (int_digits False 0 t))"

section \<open>Settings\<close>

definition DEFAULT_NER_STAGE_POLICY :: NerStagePolicy where "DEFAULT_NER_STAGE_POLICY = ALWAYS"

definition ENV_ANALYZER_API_BASE :: string where "ENV_ANALYZER_API_BASE = ''PRESIDIO_ANALYZER_API_BASE''"
definition ENV_NER_API_BASE :: string where "ENV_NER_API_BASE = ''LITELLM_PII_NER_API_BASE''"
definition ENV_NER_STAGE_POLICY :: string where "ENV_NER_STAGE_POLICY = ''LITELLM_PII_NER_STAGE_POLICY''"
definition ENV_SESSION_TTL :: string where "ENV_SESSION_TTL = ''LITELLM_PII_SESSION_TTL_SECONDS''"
definition ENV_REQUIRE_NER :: string where "ENV_REQUIRE_NER = ''LITELLM_PII_REQUIRE_NER''"
definition ENV_LANGUAGE :: string where "ENV_LANGUAGE = ''LITELLM_PII_LANGUAGE''"
definition ENV_NER_MAX_CHARS :: string where "ENV_NER_MAX_CHARS = ''LITELLM_PII_NER_MAX_CHARS''"
definition ENV_NER_LABEL_MAP :: string where "ENV_NER_LABEL_MAP = ''LITELLM_PII_NER_LABEL_MAP''"

definition DEFAULT_LANGUAGE :: string where "DEFAULT_LANGUAGE = ''en''"

definition FALSEY :: "string list" where "FALSEY = [''0'', ''false'', ''no'', ''off'']"

definition int_from_env :: "(string \<Rightarrow> string option) \<Rightarrow> string \<Rightarrow> int \<Rightarrow> int" where
  "int_from_env getenv name fallback =
     (case getenv name of
        None \<Rightarrow> fallback
      | Some raw \<Rightarrow> (case py_int raw of None \<Rightarrow> fallback | Some n \<Rightarrow> n))"

definition bool_from_env :: "(string \<Rightarrow> string option) \<Rightarrow> string \<Rightarrow> bool \<Rightarrow> bool" where
  "bool_from_env getenv name fallback =
     (case getenv name of None \<Rightarrow> fallback | Some raw \<Rightarrow> str_lower (strip raw) \<notin> set FALSEY)"

text \<open>\<open>NerStagePolicy(raw)\<close>: the member with that value, \<open>None\<close> for the \<open>ValueError\<close>.\<close>

definition NerStagePolicy_of :: "string \<Rightarrow> NerStagePolicy option" where
  "NerStagePolicy_of raw = List.find (\<lambda>p. NerStagePolicy_value p = raw) [NEVER, ON_MISS, ON_LOW_CONFIDENCE, ALWAYS]"

definition getenv_or :: "(string \<Rightarrow> string option) \<Rightarrow> string \<Rightarrow> string \<Rightarrow> string" where
  "getenv_or getenv name fallback = (case getenv name of None \<Rightarrow> fallback | Some raw \<Rightarrow> raw)"

definition policy_from_env :: "(string \<Rightarrow> string option) \<Rightarrow> NerStagePolicy" where
  "policy_from_env getenv =
     (case NerStagePolicy_of (getenv_or getenv ENV_NER_STAGE_POLICY (NerStagePolicy_value DEFAULT_NER_STAGE_POLICY)) of
        None \<Rightarrow> DEFAULT_NER_STAGE_POLICY | Some p \<Rightarrow> p)"

record PiiSettings =
  s_analyzer_api_base :: "string option"
  s_ner_api_base :: "string option"
  s_ner_stage_policy :: NerStagePolicy
  s_ner_score_threshold :: rat
  s_session_ttl_seconds :: int
  s_fail_closed :: bool
  s_require_ner :: bool
  s_language :: string
  s_ner_max_chars :: int
  s_ner_label_map :: string

definition settings_from_env :: "(string \<Rightarrow> string option) \<Rightarrow> PiiSettings" where
  "settings_from_env getenv =
     \<lparr>s_analyzer_api_base = getenv ENV_ANALYZER_API_BASE,
      s_ner_api_base = getenv ENV_NER_API_BASE,
      s_ner_stage_policy = policy_from_env getenv,
      s_ner_score_threshold = DEFAULT_NER_SCORE_THRESHOLD,
      s_session_ttl_seconds = int_from_env getenv ENV_SESSION_TTL DEFAULT_SESSION_TTL_SECONDS,
      s_fail_closed = True,
      s_require_ner = bool_from_env getenv ENV_REQUIRE_NER True,
      s_language = getenv_or getenv ENV_LANGUAGE DEFAULT_LANGUAGE,
      s_ner_max_chars = int_from_env getenv ENV_NER_MAX_CHARS DEFAULT_MAX_CHARS,
      s_ner_label_map = getenv_or getenv ENV_NER_LABEL_MAP DEFAULT_LABEL_MAP_NAME\<rparr>"

section \<open>Assembly\<close>

datatype CodecId = placeholder_id | handle_id | encrypted_id

definition env_cipher :: "Externals \<Rightarrow> ValueCipher" where
  "env_cipher ext = cipher_from_env (ext_getenv ext) (ext_sha256 ext) (ext_urandom ext) (ext_encrypt ext) (ext_decrypt ext)"

fun build_codec :: "Externals \<Rightarrow> CodecId \<Rightarrow> PiiCodec" where
  "build_codec ext placeholder_id = PlaceholderCodec"
| "build_codec ext handle_id = HandleCodec (ext_urandom ext)"
| "build_codec ext encrypted_id = EncryptedCodec (env_cipher ext)"

definition unmet_requirement :: "PiiSettings \<Rightarrow> string option" where
  "unmet_requirement settings =
     (if is_empty_str (s_analyzer_api_base settings) then
        Some (ENV_ANALYZER_API_BASE @ '' is not set, so no PII detection can run'')
      else if s_require_ner settings \<and> is_empty_str (s_ner_api_base settings) then
        Some (ENV_NER_API_BASE @ '' is not set. The rules stage covers only pattern and checksum ''
          @ ''entities, so names and other model-detected entities would reach the provider in the ''
          @ ''clear. Point it at the NER service, or set '' @ ENV_REQUIRE_NER @ ''=false to accept that.'')
      else None)"

definition build_ner_stage :: "Externals \<Rightarrow> PiiSettings \<Rightarrow> PiiDetector option" where
  "build_ner_stage ext settings =
     (if is_empty_str (s_ner_api_base settings) then None
      else Some (ChunkedDetector
        (piiranha_detect (ext_str ext) (ext_post_json ext)
           \<lparr>ner_base = the (s_ner_api_base settings), ner_threshold = s_ner_score_threshold settings,
            ner_api_key = None, ner_labels = label_map_by_name (Some (s_ner_label_map settings))\<rparr>)
        (s_ner_max_chars settings) DEFAULT_OVERLAP_CHARS))"

definition mints_unique_tokens :: "CodecId \<Rightarrow> bool" where
  "mints_unique_tokens codec = (codec \<noteq> placeholder_id)"

definition build_detector :: "Externals \<Rightarrow> PiiSettings \<Rightarrow> CascadingDetector option" where
  "build_detector ext settings =
     (if unmet_requirement settings \<noteq> None then None
      else Some
        \<lparr>rules_stage = presidio_detect (ext_str ext) (ext_post_json ext)
           \<lparr>analyzer_api_base = the (s_analyzer_api_base settings), ad_hoc_recognizers = None, rules_score_threshold = None\<rparr>,
         ner_stage = build_ner_stage ext settings,
         stage_policy = s_ner_stage_policy settings,
         low_confidence_threshold = s_ner_score_threshold settings,
         cascade_fail_closed = s_fail_closed settings\<rparr>)"

definition build_session_store :: "Externals \<Rightarrow> 'c AsyncKeyValueCache \<Rightarrow> PiiSettings \<Rightarrow> 'c PiiTokenStore" where
  "build_session_store ext cache settings = DualCacheStore cache (env_cipher ext) (s_session_ttl_seconds settings)"

text \<open>\<open>settings or PiiSettings.from_env()\<close>: a dataclass instance is truthy.\<close>

definition settings_or_env :: "Externals \<Rightarrow> PiiSettings option \<Rightarrow> PiiSettings" where
  "settings_or_env ext settings = (case settings of None \<Rightarrow> settings_from_env (ext_getenv ext) | Some s \<Rightarrow> s)"

definition build_service ::
  "Externals \<Rightarrow> 'c AsyncKeyValueCache \<Rightarrow> PiiSettings option \<Rightarrow> CodecId \<Rightarrow> 'c PiiService option" where
  "build_service ext cache settings codec =
     (let resolved = settings_or_env ext settings in
      case build_detector ext resolved of
        None \<Rightarrow> None
      | Some d \<Rightarrow>
          Some \<lparr>svc_detector = d, svc_codec = build_codec ext codec, svc_store = build_session_store ext cache resolved\<rparr>)"

section \<open>Integers from the environment\<close>

lemma int_digits_run:
  "\<forall>c \<in> set ds. is_digit c \<Longrightarrow> int_digits True n ds = Some (foldl (\<lambda>n c. 10 * n + (of_char c - 48)) n ds)"
  by (induction ds arbitrary: n) auto

lemma int_digits_all:
  "\<forall>c \<in> set ds. is_digit c \<Longrightarrow> ds \<noteq> [] \<Longrightarrow> int_digits False n ds = Some (foldl (\<lambda>n c. 10 * n + (of_char c - 48)) n ds)"
  by (cases ds) (auto simp: int_digits_run)

lemma foldl_show_nat: "foldl (\<lambda>m c. 10 * m + (of_char c - 48)) 0 (show_nat n) = n"
proof (induction n rule: show_nat.induct)
  case (1 n)
  have d: "(of_char (digit_char k) :: nat) - 48 = k" if "k < 10" for k
    using that by (simp add: digit_char_def)
  show ?case
  proof (cases "n < 10")
    case True
    then show ?thesis by (subst show_nat.simps) (simp add: d)
  next
    case False
    then show ?thesis using 1 by (subst show_nat.simps) (simp add: d)
  qed
qed

text \<open>
  An integer setting is read as it is written: \<open>int\<close> of the decimal notation of a number is that
  number, whatever blanks surround it, so a limit set in the environment is the limit in force.
\<close>

lemma py_int_show:
  assumes "\<forall>c \<in> set pre. is_space c" "\<forall>c \<in> set post. is_space c"
  shows "py_int (pre @ show_int n @ post) = Some n"
proof -
  have d: "is_digit c" if "c \<in> set (show_nat m)" for c m using show_nat_digits that by blast
  have ne: "\<not> is_space (hd (show_nat m))" "\<not> is_space (last (show_nat m))" for m
    by (rule digit_not_space, rule d [of _ m], simp)+
  have minus: "\<not> is_space (CHR ''-'')" by (simp add: is_space_def)
  have hl: "show_int n \<noteq> []" "\<not> is_space (hd (show_int n))" "\<not> is_space (last (show_int n))"
    using ne minus by (simp_all add: show_int_def)
  have "strip (pre @ show_int n @ post) = show_int n"
  proof -
    have "lstrip (pre @ show_int n @ post) = show_int n @ post"
      using assms(1) hl by (cases "show_int n") (auto simp: lstrip_def dropWhile_append)
    moreover have "rstrip (show_int n @ post) = show_int n"
      using assms(2) hl by (cases "show_int n" rule: rev_cases) (auto simp: rstrip_def dropWhile_append)
    ultimately show ?thesis by (simp add: strip_def)
  qed
  moreover have dig: "int_digits False 0 (show_nat m) = Some m" for m
    using int_digits_all [OF show_nat_digits] foldl_show_nat by simp
  moreover have "hd (show_nat m) \<noteq> CHR ''-''" "hd (show_nat m) \<noteq> CHR ''+''" for m
    using d [of "hd (show_nat m)" m] by (auto simp: is_digit_def)
  ultimately show ?thesis by (simp add: py_int_def Let_def show_int_def)
qed

lemma py_int_show_witness: "py_int '' -42 '' = Some (- 42)"
proof -
  have "show_int (- 42) = ''-42''" by code_simp
  then show ?thesis using py_int_show [of "'' ''" "'' ''" "- 42"] by (simp add: is_space_def)
qed

section \<open>The default deployment\<close>

text \<open>
  C36: A service configured from the environment runs both stages on every text. Unless the staging
  policy or the model requirement is overridden, a service that can be built at all has a model stage,
  and whenever it answers a detection, both stages have answered and the result merges both answers:
  a missing setting or a failing stage is an error, never a text that only the rules have seen.
\<close>

theorem default_service_runs_both_stages:
  assumes "build_service ext cache None codec = Some svc"
    and "ext_getenv ext ENV_NER_STAGE_POLICY = None" "ext_getenv ext ENV_REQUIRE_NER = None"
    and "svc_detect svc t lang ents = Inr r"
  shows "\<exists>ner rs ns. ner_stage (svc_detector svc) = Some ner \<and> rules_stage (svc_detector svc) t lang ents = Inr rs
    \<and> ner t lang ents = Inr ns \<and> result_spans r = merge_spans t [rs, ns] \<and> ner_stage_ran r"
proof -
  let ?s = "settings_from_env (ext_getenv ext)"
  have pol: "s_ner_stage_policy ?s = ALWAYS" "s_require_ner ?s" "s_fail_closed ?s"
    using assms(2,3)
    by (simp_all add: settings_from_env_def policy_from_env_def getenv_or_def DEFAULT_NER_STAGE_POLICY_def
        NerStagePolicy_of_def bool_from_env_def)
  obtain d where d: "build_detector ext ?s = Some d" "svc_detector svc = d"
    using assms(1) by (auto simp: build_service_def settings_or_env_def Let_def split: option.splits)
  then have "\<not> is_empty_str (s_ner_api_base ?s)" using pol(2) by (auto simp: build_detector_def unmet_requirement_def split: if_splits)
  then obtain ner where ner: "ner_stage d = Some ner" "stage_policy d = ALWAYS" "cascade_fail_closed d"
    using d(1) pol by (auto simp: build_detector_def build_ner_stage_def split: if_splits)
  with assms(4) d(2) show ?thesis
    by (auto simp: svc_detect_def cascade_detect_def Let_def split: sum.splits)
qed

definition sample_externals :: Externals where
  "sample_externals =
     \<lparr>ext_getenv = (\<lambda>name. if name = ENV_ANALYZER_API_BASE \<or> name = ENV_NER_API_BASE then Some ''h'' else None),
      ext_sha256 = (\<lambda>b. b), ext_urandom = (\<lambda>k n. replicate n (CHR ''n'')), ext_encrypt = (\<lambda>key nonce p aad. p),
      ext_decrypt = (\<lambda>key nonce b aad. Inr b), ext_post_json = (\<lambda>url payload. JsonResponse 200 (PList [])), ext_str = (\<lambda>x. [])\<rparr>"

definition sample_kv :: "unit AsyncKeyValueCache" where
  "sample_kv = \<lparr>kv_set = (\<lambda>k v t c. (None, c)), kv_batch_get = (\<lambda>ks c. (Inr (PList (map (\<lambda>k. PNone) ks)), c))\<rparr>"

theorem default_service_runs_both_stages_witness:
  "\<exists>svc r. build_service sample_externals sample_kv None handle_id = Some svc \<and> svc_detect svc ''Bob'' ''en'' None = Inr r \<and> ner_stage_ran r"
proof -
  let ?b = "build_service sample_externals sample_kv None handle_id"
  have none: "ext_getenv sample_externals ENV_NER_STAGE_POLICY = None" "ext_getenv sample_externals ENV_REQUIRE_NER = None"
    by (simp_all add: sample_externals_def ENV_NER_STAGE_POLICY_def ENV_REQUIRE_NER_def ENV_ANALYZER_API_BASE_def ENV_NER_API_BASE_def)
  have "unmet_requirement (settings_from_env (ext_getenv sample_externals)) = None" by code_simp
  then have "?b \<noteq> None" by (simp add: build_service_def settings_or_env_def build_detector_def Let_def)
  then obtain svc where svc: "?b = Some svc" by blast
  have "map_option (\<lambda>svc. isl (svc_detect svc ''Bob'' ''en'' None)) ?b = Some False" by code_simp
  then obtain r where r: "svc_detect svc ''Bob'' ''en'' None = Inr r"
    using svc by (cases "svc_detect svc ''Bob'' ''en'' None") auto
  from default_service_runs_both_stages [OF svc none r] svc r show ?thesis by blast
qed

end
