(* ===== verification/Activity.thy ===== *)
theory Activity
  imports Config "HOL-Library.Sublist"
begin

text \<open>
  \<open>litellm/pii/activity.py\<close>: the events that say what the anonymizer did, and the bounded log that keeps the
  latest of them and hands them to live subscribers. The identifier and the time of an event are arguments, since a
  random UUID and the clock give them. A subscriber is a number, with the queue it reads from.
\<close>

definition ENV_CAPTURE_TEXT :: string where "ENV_CAPTURE_TEXT = ''LITELLM_PII_ACTIVITY_CAPTURE_TEXT''"
definition ENV_CAPACITY :: string where "ENV_CAPACITY = ''LITELLM_PII_ACTIVITY_CAPACITY''"
definition DEFAULT_CAPACITY :: nat where "DEFAULT_CAPACITY = 500"
definition SUBSCRIBER_BACKLOG :: nat where "SUBSCRIBER_BACKLOG = 64"

type_synonym ActionLookup = "string \<Rightarrow> SpanAction"

datatype PiiSurface = GUARDRAIL | ENDPOINT | EXTENSION

datatype PiiDirection = DETECT_TEXT | ENCODE_TEXT | DECODE_TEXT

datatype PiiOutcome = Applied | Blocked string | Failed string | Unscanned string

record TokenPlacement =
  tp_token :: string
  tp_entity_type :: string
  tp_detector :: DetectorKind
  tp_score :: rat
  tp_action :: SpanAction
  tp_text_index :: nat
  tp_start :: int
  tp_end :: int
  tp_value :: string

record TextCapture =
  cap_before :: "string list"
  cap_after :: "string list"
  cap_placements :: "TokenPlacement list"

record BrowserContext =
  bc_host :: string
  bc_trust_class :: string
  bc_action :: string

type_synonym counts = "(string, nat) dict"

record PiiActivityEvent =
  ev_id :: string
  ev_at :: int
  ev_surface :: PiiSurface
  ev_direction :: PiiDirection
  ev_outcome :: PiiOutcome
  ev_duration_ms :: rat
  ev_entity_counts :: counts
  ev_action_counts :: counts
  ev_token_count :: nat
  ev_resolved_count :: nat
  ev_ner_stage_ran :: bool
  ev_request_id :: "string option"
  ev_session_id :: "string option"
  ev_key_alias :: "string option"
  ev_user_id :: "string option"
  ev_model :: "string option"
  ev_guardrail_name :: "string option"
  ev_browser :: "BrowserContext option"
  ev_capture :: "TextCapture option"

section \<open>Settings\<close>

definition str_to_bool :: "string option \<Rightarrow> bool option" where
  "str_to_bool s = (case s of
     None \<Rightarrow> None
   | Some v \<Rightarrow>
       (let value_lower = str_lower (strip v) in
        if value_lower = ''true'' then Some True
        else if value_lower = ''false'' then Some False
        else None))"

definition capture_enabled :: "(string \<Rightarrow> string option) \<Rightarrow> bool" where
  "capture_enabled getenv = (str_to_bool (getenv ENV_CAPTURE_TEXT) = Some True)"

definition capacity_from_env :: "(string \<Rightarrow> string option) \<Rightarrow> nat" where
  "capacity_from_env getenv = (case getenv ENV_CAPACITY of
     None \<Rightarrow> DEFAULT_CAPACITY
   | Some raw \<Rightarrow>
       (case py_int raw of
          None \<Rightarrow> DEFAULT_CAPACITY
        | Some parsed \<Rightarrow> if 0 < parsed then nat parsed else DEFAULT_CAPACITY))"

section \<open>Counting\<close>

text \<open>\<open>dict(Counter(values))\<close>: a count for each value, in the order they first come.\<close>

definition counts_of :: "string list \<Rightarrow> counts" where
  "counts_of vals =
     fold (\<lambda>v m. AList.update v (Suc (case map_of m v of None \<Rightarrow> 0 | Some n \<Rightarrow> n)) m) vals []"

definition entity_counts_of :: "PiiSpan list list \<Rightarrow> counts" where
  "entity_counts_of spans_by_text = counts_of (map entity_type (concat spans_by_text))"

definition action_counts_of :: "PiiSpan list list \<Rightarrow> ActionLookup \<Rightarrow> counts" where
  "action_counts_of spans_by_text lookup_action =
     counts_of (map (\<lambda>sp. SpanAction_value (lookup_action (entity_type sp))) (concat spans_by_text))"

section \<open>Captures\<close>

text \<open>An index past the texts raises, which ends the capture.\<close>

definition placements_of :: "string list \<Rightarrow> Placement list \<Rightarrow> ActionLookup \<Rightarrow> pii_error + TokenPlacement list" where
  "placements_of texts ps lookup_action =
     (if list_ex (\<lambda>p. length texts \<le> text_index p) ps then Inl (Raised ''IndexError'')
      else Inr (map (\<lambda>p.
        \<lparr>tp_token = placed_token p, tp_entity_type = entity_type (placed_span p), tp_detector = detector (placed_span p),
         tp_score = score (placed_span p), tp_action = lookup_action (entity_type (placed_span p)), tp_text_index = text_index p,
         tp_start = span_start (placed_span p), tp_end = span_end (placed_span p),
         tp_value = text_from (placed_span p) (texts ! text_index p)\<rparr>) ps))"

definition capture_of ::
  "(string \<Rightarrow> string option) \<Rightarrow> string list \<Rightarrow> string list \<Rightarrow> Placement list \<Rightarrow> ActionLookup \<Rightarrow> pii_error + TextCapture option" where
  "capture_of getenv before after ps lookup_action =
     (if \<not> capture_enabled getenv then Inr None
      else map_sum id (\<lambda>placed. Some \<lparr>cap_before = before, cap_after = after, cap_placements = placed\<rparr>)
             (placements_of before ps lookup_action))"

record DecodeTally =
  tally_entity_counts :: counts
  tally_token_count :: nat
  tally_resolved_count :: nat

definition decode_tally :: "string list \<Rightarrow> string list \<Rightarrow> DecodeTally" where
  "decode_tally before after =
     (let present = canonical_tokens before;
          parsed = map parse present
      in \<lparr>tally_entity_counts = counts_of (map parsed_entity (List.map_filter id parsed)),
          tally_token_count = length present,
          tally_resolved_count = length (filter (\<lambda>t. t \<notin> set (canonical_tokens after)) present)\<rparr>)"

definition new_event ::
  "string \<times> int \<Rightarrow> PiiSurface \<Rightarrow> PiiDirection \<Rightarrow> PiiOutcome \<Rightarrow> rat \<Rightarrow> counts \<Rightarrow> counts \<Rightarrow> nat \<Rightarrow> nat \<Rightarrow> bool
   \<Rightarrow> string option \<Rightarrow> string option \<Rightarrow> string option \<Rightarrow> string option \<Rightarrow> string option \<Rightarrow> string option
   \<Rightarrow> BrowserContext option \<Rightarrow> TextCapture option \<Rightarrow> PiiActivityEvent" where
  "new_event stamp surface direction outcome duration entity_counts action_counts tokens resolved ner
     request session alias user model guardrail browser capture =
     \<lparr>ev_id = fst stamp, ev_at = snd stamp, ev_surface = surface, ev_direction = direction, ev_outcome = outcome,
      ev_duration_ms = duration, ev_entity_counts = entity_counts, ev_action_counts = action_counts, ev_token_count = tokens,
      ev_resolved_count = resolved, ev_ner_stage_ran = ner, ev_request_id = request, ev_session_id = session,
      ev_key_alias = alias, ev_user_id = user, ev_model = model, ev_guardrail_name = guardrail, ev_browser = browser,
      ev_capture = capture\<rparr>"

text \<open>What a caller of \<open>new_event\<close> passes beside what it did: identifier and time, and the duration.\<close>

type_synonym stamp = "(string \<times> int) \<times> rat"

section \<open>The log\<close>

record PiiActivityLog =
  log_capacity :: nat
  log_events :: "PiiActivityEvent list"
  log_subscribers :: "(nat, PiiActivityEvent list) dict"

definition new_log :: "nat \<Rightarrow> PiiActivityLog" where
  "new_log capacity = \<lparr>log_capacity = capacity, log_events = [], log_subscribers = []\<rparr>"

text \<open>\<open>deque(maxlen=n)\<close>: an append drops the oldest entries beyond the length.\<close>

definition deque_append :: "nat \<Rightarrow> 'a list \<Rightarrow> 'a \<Rightarrow> 'a list" where
  "deque_append n xs x = drop (Suc (length xs) - n) (xs @ [x])"

definition offer :: "PiiActivityEvent \<Rightarrow> PiiActivityEvent list \<Rightarrow> PiiActivityEvent list" where
  "offer event queue = (if length queue < SUBSCRIBER_BACKLOG then queue @ [event] else queue)"

definition record_event :: "PiiActivityEvent \<Rightarrow> PiiActivityLog \<Rightarrow> PiiActivityLog" where
  "record_event event alog = alog\<lparr>log_events := deque_append (log_capacity alog) (log_events alog) event,
     log_subscribers := map (\<lambda>(s, queue). (s, offer event queue)) (log_subscribers alog)\<rparr>"

definition event_matches ::
  "PiiSurface option \<Rightarrow> PiiDirection option \<Rightarrow> string option \<Rightarrow> PiiActivityEvent \<Rightarrow> bool" where
  "event_matches surface direction request event =
     ((surface = None \<or> Some (ev_surface event) = surface)
      \<and> (direction = None \<or> Some (ev_direction event) = direction)
      \<and> (request = None \<or> ev_request_id event = request))"

definition recent ::
  "nat \<Rightarrow> PiiSurface option \<Rightarrow> PiiDirection option \<Rightarrow> string option \<Rightarrow> PiiActivityLog \<Rightarrow> PiiActivityEvent list" where
  "recent limit surface direction request alog =
     take limit (filter (event_matches surface direction request) (rev (log_events alog)))"

text \<open>Entering \<open>subscribe\<close> adds an empty queue, leaving it discards the queue.\<close>

definition subscribe :: "nat \<Rightarrow> PiiActivityLog \<Rightarrow> PiiActivityLog" where
  "subscribe s alog = alog\<lparr>log_subscribers := log_subscribers alog @ [(s, [])]\<rparr>"

definition unsubscribe :: "nat \<Rightarrow> PiiActivityLog \<Rightarrow> PiiActivityLog" where
  "unsubscribe s alog = alog\<lparr>log_subscribers := AList.delete s (log_subscribers alog)\<rparr>"

text \<open>\<open>queue.get()\<close>: the oldest event of the queue; on an empty queue it waits, and the answer is \<open>None\<close>.\<close>

definition queue_get :: "nat \<Rightarrow> PiiActivityLog \<Rightarrow> PiiActivityEvent option \<times> PiiActivityLog" where
  "queue_get s alog = (case map_of (log_subscribers alog) s of
     Some (event # rest) \<Rightarrow> (Some event, alog\<lparr>log_subscribers := AList.update s rest (log_subscribers alog)\<rparr>)
   | _ \<Rightarrow> (None, alog))"

section \<open>Reachable logs\<close>

text \<open>
  \<open>log_run c alog evs got\<close>: a log of capacity \<open>c\<close> after recording \<open>evs\<close>, oldest first, however the subscribers
  came, read and went in between; \<open>got s\<close> is what subscriber \<open>s\<close> has read since it came.
\<close>

inductive log_run :: "nat \<Rightarrow> PiiActivityLog \<Rightarrow> PiiActivityEvent list \<Rightarrow> (nat \<Rightarrow> PiiActivityEvent list) \<Rightarrow> bool" for c where
  run_new: "log_run c (new_log c) [] (\<lambda>_. [])"
| run_record: "log_run c alog evs got \<Longrightarrow> log_run c (record_event event alog) (evs @ [event]) got"
| run_subscribe: "log_run c alog evs got \<Longrightarrow> s \<notin> fst ` set (log_subscribers alog) \<Longrightarrow>
    log_run c (subscribe s alog) evs (got(s := []))"
| run_get: "log_run c alog evs got \<Longrightarrow> queue_get s alog = (Some event, alog') \<Longrightarrow>
    log_run c alog' evs (got(s := got s @ [event]))"
| run_unsubscribe: "log_run c alog evs got \<Longrightarrow> log_run c (unsubscribe s alog) evs got"

lemma deque_append_drop: "deque_append c (drop (length evs - c) evs) e = drop (Suc (length evs) - c) (evs @ [e])"
proof (cases "length evs \<le> c")
  case False
  then have "Suc c - c + (length evs - c) = Suc (length evs) - c" by simp
  with False show ?thesis by (cases c) (simp_all add: deque_append_def Suc_diff_le)
qed (simp add: deque_append_def)

lemma subseq_snocI: "subseq a b \<Longrightarrow> subseq (a @ [x]) (b @ [x])"
  by (simp add: list_emb_append_mono)

lemma log_run_invariant:
  assumes "log_run c alog evs got"
  shows "log_capacity alog = c \<and> log_events alog = drop (length evs - c) evs \<and> distinct (map fst (log_subscribers alog))
    \<and> (\<forall>(s, queue) \<in> set (log_subscribers alog). length queue \<le> SUBSCRIBER_BACKLOG \<and> subseq (got s @ queue) evs)"
  using assms
proof induction
  case run_new
  then show ?case by (simp add: new_log_def)
next
  case (run_record alog evs got event)
  have "length (offer event q) \<le> SUBSCRIBER_BACKLOG \<and> subseq (g @ offer event q) (evs @ [event])"
    if "length q \<le> SUBSCRIBER_BACKLOG" "subseq (g @ q) evs" for q g
    using that subseq_snocI [OF that(2), of event] by (auto simp: offer_def intro: subseq_order.order_trans)
  with run_record.IH show ?case
    by (auto simp: record_event_def deque_append_drop comp_def case_prod_unfold)
next
  case (run_subscribe alog evs got s)
  then have "(t, q) \<in> set (log_subscribers alog) \<Longrightarrow> t \<noteq> s \<and> length q \<le> SUBSCRIBER_BACKLOG \<and> subseq (got t @ q) evs" for t q
    by force
  with run_subscribe show ?case by (auto simp: subscribe_def)
next
  case (run_get alog evs got s event alog')
  then obtain rest where r: "map_of (log_subscribers alog) s = Some (event # rest)"
    "alog' = alog\<lparr>log_subscribers := AList.update s rest (log_subscribers alog)\<rparr>"
    by (auto simp: queue_get_def split: option.splits list.splits)
  from map_of_SomeD [OF r(1)] run_get.IH have "length (event # rest) \<le> SUBSCRIBER_BACKLOG" "subseq (got s @ event # rest) evs"
    by auto
  moreover have d: "distinct (map fst (AList.update s rest (log_subscribers alog)))" using run_get.IH by (simp add: distinct_update)
  moreover have "(t = s \<and> q = rest) \<or> (t \<noteq> s \<and> (t, q) \<in> set (log_subscribers alog))"
    if "(t, q) \<in> set (AList.update s rest (log_subscribers alog))" for t q
  proof -
    have "map_of (AList.update s rest (log_subscribers alog)) t = Some q" using d that by (rule map_of_is_SomeI)
    then show ?thesis by (cases "t = s") (auto simp: update_conv' dest: map_of_SomeD)
  qed
  ultimately show ?case using run_get.IH r(2) by fastforce
next
  case (run_unsubscribe alog evs got s)
  have "set (AList.delete s (log_subscribers alog)) \<subseteq> set (log_subscribers alog)" by (auto simp: AList.delete_eq)
  with run_unsubscribe.IH show ?case by (auto simp: unsubscribe_def distinct_delete)
qed

text \<open>
  C19: The activity log is bounded, and a reader never holds it up. However recordings, reads and
  subscriptions interleave, a log of capacity c holds exactly the last c recorded events in order, a read
  answers the newest of them that match, newest first and at most as many as asked for, and every subscriber's
  queue stays within the backlog and is, with what was read from it, a subsequence of what was recorded: a subscriber
  that stops reading loses events, in no other order, and recording always goes through.
\<close>

theorem activity_log_bounded:
  assumes "log_run c alog evs got"
  shows "log_events alog = drop (length evs - c) evs \<and> length (log_events alog) \<le> c
    \<and> recent limit surface direction request alog =
        take limit (filter (event_matches surface direction request) (take c (rev evs)))
    \<and> (\<forall>(s, queue) \<in> set (log_subscribers alog). length queue \<le> SUBSCRIBER_BACKLOG \<and> subseq (got s @ queue) evs)"
proof -
  note inv = log_run_invariant [OF assms]
  have "rev (drop (length evs - c) evs) = take c (rev evs)" by (simp add: rev_drop) (cases "c \<le> length evs"; simp)
  with inv show ?thesis by (simp add: recent_def)
qed

definition sample_event :: "string \<Rightarrow> PiiActivityEvent" where
  "sample_event eid = new_event (eid, 0) GUARDRAIL ENCODE_TEXT Applied 1 [] [] 0 0 True None None None None None None None None"

theorem activity_log_bounded_witness:
  "recent 5 (Some GUARDRAIL) None None (record_event (sample_event ''c'') (record_event (sample_event ''b'') (record_event (sample_event ''a'') (new_log 2))))
    = [sample_event ''c'', sample_event ''b'']"
proof -
  have "log_run 2 (record_event (sample_event ''c'') (record_event (sample_event ''b'') (record_event (sample_event ''a'') (new_log 2))))
      ((([] @ [sample_event ''a'']) @ [sample_event ''b'']) @ [sample_event ''c'']) (\<lambda>_. [])"
    by (intro run_record run_new)
  from activity_log_bounded [OF this, of 5 "Some GUARDRAIL" None None] show ?thesis
    by (simp add: event_matches_def sample_event_def new_event_def)
qed

section \<open>Counts\<close>

lemma counts_fold:
  "map_of (fold (\<lambda>v m. AList.update v (Suc (case map_of m v of None \<Rightarrow> 0 | Some n \<Rightarrow> n)) m) vals m0) x =
    (if x \<in> set vals then Some (count_list vals x + (case map_of m0 x of None \<Rightarrow> 0 | Some n \<Rightarrow> n)) else map_of m0 x)"
proof (induction vals arbitrary: m0)
  case (Cons v vals)
  show ?case unfolding fold_Cons comp_def Cons.IH by (auto simp: update_conv' split: option.splits)
qed simp

lemma map_of_counts_of: "map_of (counts_of vals) x = (if x \<in> set vals then Some (count_list vals x) else None)"
  by (simp add: counts_of_def counts_fold)

text \<open>What was present before and is not after was resolved; what was resolved was present.\<close>

lemma decode_tally_bounds: "tally_resolved_count (decode_tally before after) \<le> tally_token_count (decode_tally before after)"
  by (simp add: decode_tally_def Let_def)

lemma capture_gated: "\<not> capture_enabled getenv \<Longrightarrow> capture_of getenv before after ps f = Inr None"
  by (simp add: capture_of_def)

end
