(* ===== verification/Vault_Cipher.thy ===== *)
theory Vault_Cipher
  imports Ciphers
begin

text \<open>
  The vault's security boundary: \<open>litellm/pii/vault/scope.py\<close>, \<open>authorization.py\<close>, \<open>keys.py\<close> and
  \<open>cipher.py\<close>. HKDF, the secret manager and AES-GCM are parameters; the caches of derived keys and of
  ciphers (\<open>lru_cache\<close>) hold results of pure functions and are not visible. \<open>opened.decode\<close> stands
  outside the \<open>try\<close> of \<open>open_sealed\<close>, so its exception is \<open>Raised\<close>.
\<close>

section \<open>Scopes and authorization\<close>

datatype VaultScopeType = KEY | USER | TEAM | ORGANIZATION

fun VaultScopeType_value :: "VaultScopeType \<Rightarrow> string" where
  "VaultScopeType_value KEY = ''key''"
| "VaultScopeType_value USER = ''user''"
| "VaultScopeType_value TEAM = ''team''"
| "VaultScopeType_value ORGANIZATION = ''organization''"

definition VaultScopeType_of :: "string \<Rightarrow> VaultScopeType option" where
  "VaultScopeType_of raw = List.find (\<lambda>t. VaultScopeType_value t = raw) [KEY, USER, TEAM, ORGANIZATION]"

record VaultScope =
  scope_type :: VaultScopeType
  scope_id :: string

record CallerIdentity =
  key_hash :: "string option"
  user_id :: "string option"
  team_id :: "string option"
  organization_id :: "string option"
  can_decode :: bool
  can_decode_any :: bool

fun scope_id_for :: "CallerIdentity \<Rightarrow> VaultScopeType \<Rightarrow> string option" where
  "scope_id_for identity KEY = key_hash identity"
| "scope_id_for identity USER = user_id identity"
| "scope_id_for identity TEAM = team_id identity"
| "scope_id_for identity ORGANIZATION = organization_id identity"

definition belongs_to :: "CallerIdentity \<Rightarrow> VaultScope \<Rightarrow> bool" where
  "belongs_to identity scope = (scope_id_for identity (scope_type scope) = Some (scope_id scope))"

definition scope_to_mint :: "CallerIdentity \<Rightarrow> VaultScopeType \<Rightarrow> pii_error + VaultScope" where
  "scope_to_mint identity requested =
     (if is_empty_str (scope_id_for identity requested) then
        Inl (VaultForbidden (''caller has no '' @ VaultScopeType_value requested @ '' to mint a token against''))
      else Inr \<lparr>scope_type = requested, scope_id = the (scope_id_for identity requested)\<rparr>)"

definition authorize_decode :: "CallerIdentity \<Rightarrow> VaultScope \<Rightarrow> pii_error option" where
  "authorize_decode identity scope =
     (if \<not> can_decode identity \<and> \<not> can_decode_any identity then
        Some (VaultForbidden ''key lacks the allow_pii_decode permission'')
      else if can_decode_any identity \<or> belongs_to identity scope then None
      else Some (VaultForbidden
        (''token is scoped to a '' @ VaultScopeType_value (scope_type scope) @ '' the caller does not belong to'')))"

definition used_break_glass :: "CallerIdentity \<Rightarrow> VaultScope \<Rightarrow> bool" where
  "used_break_glass identity scope = (can_decode_any identity \<and> \<not> belongs_to identity scope)"

section \<open>Keys\<close>

text \<open>\<open>HKDF(SHA256, length, salt, info).derive(ikm)\<close>.\<close>

type_synonym hkdf = "nat \<Rightarrow> bytes \<Rightarrow> bytes \<Rightarrow> bytes \<Rightarrow> bytes"

definition HKDF_SALT :: bytes where "HKDF_SALT = ''litellm-pii-v1''"

definition VAULT_KEY_BYTES :: nat where "VAULT_KEY_BYTES = 32"

definition DEFAULT_KEY_VERSION :: int where "DEFAULT_KEY_VERSION = 1"

record PiiKeyProvider =
  current_version :: int
  key_for :: "VaultScope \<Rightarrow> int \<Rightarrow> pii_error + bytes"

definition key_info :: "string \<Rightarrow> string \<Rightarrow> int \<Rightarrow> bytes" where
  "key_info sty sid version = utf8_encode (sty @ '':'' @ sid @ '':'' @ show_int version)"

definition derive_key :: "hkdf \<Rightarrow> string \<Rightarrow> string \<Rightarrow> string \<Rightarrow> int \<Rightarrow> bytes" where
  "derive_key hkdf ikm sty sid version = hkdf VAULT_KEY_BYTES HKDF_SALT (key_info sty sid version) (utf8_encode ikm)"

definition DerivedKeyProvider :: "hkdf \<Rightarrow> string \<Rightarrow> int \<Rightarrow> PiiKeyProvider" where
  "DerivedKeyProvider hkdf secret version =
     \<lparr>current_version = version,
      key_for = (\<lambda>scope v.
        if secret = [] then Inl (KeyUnavailable ''no PII vault secret configured'')
        else Inr (derive_key hkdf secret (VaultScopeType_value (scope_type scope)) (scope_id scope) v))\<rparr>"

text \<open>\<open>SecretReader.async_read_secret\<close> may raise, and may answer no secret.\<close>

type_synonym SecretReader = "string \<Rightarrow> string + string option"

definition secret_name :: "string \<Rightarrow> VaultScope \<Rightarrow> int \<Rightarrow> string" where
  "secret_name name_prefix scope version =
     name_prefix @ ''/'' @ VaultScopeType_value (scope_type scope) @ ''/'' @ scope_id scope @ ''/v'' @ show_int version"

definition SecretManagerKeyProvider :: "hkdf \<Rightarrow> SecretReader \<Rightarrow> string \<Rightarrow> int \<Rightarrow> PiiKeyProvider" where
  "SecretManagerKeyProvider hkdf reader name_prefix version =
     \<lparr>current_version = version,
      key_for = (\<lambda>scope v.
        (let name = secret_name name_prefix scope v in
         case reader name of
           Inl exc \<Rightarrow> Inl (KeyUnavailable (''secret manager read failed ('' @ exc @ '')''))
         | Inr secret \<Rightarrow>
             if is_empty_str secret then Inl (KeyUnavailable (''no secret at '' @ name))
             else Inr (derive_key hkdf (the secret) (VaultScopeType_value (scope_type scope)) (scope_id scope) v)))\<rparr>"

section \<open>The cipher\<close>

definition VAULT_PREFIX :: string where "VAULT_PREFIX = ''p1:gcm:''"

definition VAULT_NONCE_BYTES :: nat where "VAULT_NONCE_BYTES = 12"

definition AAD_SEPARATOR :: char where "AAD_SEPARATOR = CHR 0x00"

record SealedValue =
  sv_ciphertext :: string
  sv_key_version :: int

definition aad_for :: "string \<Rightarrow> VaultScope \<Rightarrow> int \<Rightarrow> bytes" where
  "aad_for token scope version =
     utf8_encode token @ AAD_SEPARATOR # utf8_encode (VaultScopeType_value (scope_type scope))
       @ AAD_SEPARATOR # utf8_encode (scope_id scope) @ AAD_SEPARATOR # utf8_encode (show_int version)"

definition open_sealed :: "aes_decrypt \<Rightarrow> bytes \<Rightarrow> SealedValue \<Rightarrow> string \<Rightarrow> VaultScope \<Rightarrow> pii_error + string" where
  "open_sealed aes_decrypt key sealed token scope =
     (if \<not> startswith (sv_ciphertext sealed) VAULT_PREFIX then Inl (DecodeFailed ''missing PII vault prefix'')
      else
        (let failed = (\<lambda>exc. Inl (DecodeFailed (''vault unseal failed ('' @ exc @ '')''))) in
         case urlsafe_b64decode (drop (length VAULT_PREFIX) (sv_ciphertext sealed)) of
           Inl exc \<Rightarrow> failed exc
         | Inr raw \<Rightarrow>
             (case aes_decrypt key (take VAULT_NONCE_BYTES raw) (drop VAULT_NONCE_BYTES raw)
                     (Some (aad_for token scope (sv_key_version sealed))) of
                Inl exc \<Rightarrow> failed exc
              | Inr opened \<Rightarrow>
                  (case utf8_decode opened of None \<Rightarrow> Inl (Raised ''UnicodeDecodeError'') | Some v \<Rightarrow> Inr v))))"

record VaultCipher =
  vc_keys :: PiiKeyProvider
  vc_urandom :: urandom
  vc_encrypt :: aes_encrypt
  vc_decrypt :: aes_decrypt

definition checked_key :: "VaultCipher \<Rightarrow> VaultScope \<Rightarrow> int \<Rightarrow> pii_error + bytes" where
  "checked_key cipher scope version =
     (case key_for (vc_keys cipher) scope version of
        Inl err \<Rightarrow> Inl err
      | Inr key \<Rightarrow>
          if length key \<noteq> VAULT_KEY_BYTES then
            Inl (KeyUnavailable (''key provider returned '' @ show_nat (length key) @ '' bytes, expected '' @ show_nat VAULT_KEY_BYTES))
          else Inr key)"

definition vault_seal ::
  "VaultCipher \<Rightarrow> string \<Rightarrow> string \<Rightarrow> VaultScope \<Rightarrow> draws \<Rightarrow> (pii_error + SealedValue) \<times> draws" where
  "vault_seal cipher plaintext token scope k =
     (let version = current_version (vc_keys cipher) in
      case checked_key cipher scope version of
        Inl err \<Rightarrow> (Inl err, k)
      | Inr key \<Rightarrow>
          (let nonce = vc_urandom cipher k VAULT_NONCE_BYTES;
               blob = vc_encrypt cipher key nonce (utf8_encode plaintext) (Some (aad_for token scope version))
           in (Inr \<lparr>sv_ciphertext = VAULT_PREFIX @ urlsafe_b64encode (nonce @ blob), sv_key_version = version\<rparr>, Suc k)))"

definition vault_unseal :: "VaultCipher \<Rightarrow> SealedValue \<Rightarrow> string \<Rightarrow> VaultScope \<Rightarrow> pii_error + string" where
  "vault_unseal cipher sealed token scope =
     (case checked_key cipher scope (sv_key_version sealed) of
        Inl err \<Rightarrow> Inl err
      | Inr key \<Rightarrow> open_sealed (vc_decrypt cipher) key sealed token scope)"

section \<open>Authorization\<close>

text \<open>A caller mints where it belongs, and an allowed decode that is not break-glass stays where it belongs.\<close>

lemma scope_to_mint_belongs: "scope_to_mint identity requested = Inr scope \<Longrightarrow> belongs_to identity scope"
  by (auto simp: scope_to_mint_def belongs_to_def is_empty_str_def split: if_splits option.splits)

lemma authorized_belongs: "authorize_decode identity scope = None \<Longrightarrow> used_break_glass identity scope \<or> belongs_to identity scope"
  by (auto simp: authorize_decode_def used_break_glass_def split: if_splits)

section \<open>Binding\<close>

lemma utf8_encode_inject [simp]: "utf8_encode a = utf8_encode b \<longleftrightarrow> a = b"
  by (metis option.inject utf8_roundtrip)

lemma utf8_encode_ascii: "\<forall>c \<in> set s. (of_char c :: nat) < 128 \<Longrightarrow> utf8_encode s = s"
  by (induction s) (simp_all add: utf8_encode_def utf8_char_def)

lemma utf8_encode_append: "utf8_encode (a @ b) = utf8_encode a @ utf8_encode b"
  by (simp add: utf8_encode_def)

lemma utf8_char_nul: "c \<noteq> CHR 0x00 \<Longrightarrow> CHR 0x00 \<notin> set (utf8_char c)"
proof -
  assume c: "c \<noteq> CHR 0x00"
  have z: "char_of m \<noteq> CHR 0x00" if "0 < m" "m < 256" for m :: nat
  proof
    assume "char_of m = CHR 0x00"
    then have "(of_char (char_of m :: char) :: nat) = 0" by simp
    with that show False by (simp add: of_char_of_byte)
  qed
  have "(of_char c :: nat) < 256" by simp
  then have "char_of (192 + (of_char c :: nat) div 64) \<noteq> CHR 0x00" "char_of (128 + (of_char c :: nat) mod 64) \<noteq> CHR 0x00"
    by (intro z; linarith | simp)+
  with c show ?thesis by (auto simp: utf8_char_def Let_def)
qed

lemma utf8_encode_nul: "CHR 0x00 \<notin> set s \<Longrightarrow> CHR 0x00 \<notin> set (utf8_encode s)"
proof (induction s)
  case (Cons c s)
  then have "CHR 0x00 \<notin> set (utf8_char c)" by (intro utf8_char_nul) auto
  with Cons show ?case by (simp add: utf8_encode_def)
qed (simp add: utf8_encode_def)

lemma VaultScopeType_value_inject [simp]: "VaultScopeType_value a = VaultScopeType_value b \<longleftrightarrow> a = b"
  by (cases a; cases b) simp_all

lemma VaultScopeType_value_plain: "CHR 0x00 \<notin> set (VaultScopeType_value t)" "CHR '':'' \<notin> set (VaultScopeType_value t)"
  by (cases t; simp)+

lemma show_int_plain: "CHR 0x00 \<notin> set (show_int n)" "CHR '':'' \<notin> set (show_int n)"
  using show_int_chars [of n] by (auto simp: is_digit_def)

text \<open>The associated data names its row, the derivation info its scope and version, without ambiguity.\<close>

lemma vault_binding_unambiguous:
  assumes "CHR 0x00 \<notin> set t" "CHR 0x00 \<notin> set t'" "CHR 0x00 \<notin> set (scope_id sc)" "CHR 0x00 \<notin> set (scope_id sc')"
  shows "(aad_for t sc v = aad_for t' sc' v' \<longleftrightarrow>
      t = t' \<and> scope_type sc = scope_type sc' \<and> scope_id sc = scope_id sc' \<and> v = v')
    \<and> (key_info (VaultScopeType_value (scope_type sc)) (scope_id sc) v = key_info (VaultScopeType_value (scope_type sc')) (scope_id sc') v' \<longleftrightarrow>
      scope_type sc = scope_type sc' \<and> scope_id sc = scope_id sc' \<and> v = v')"
proof
  note nul = utf8_encode_nul [OF assms(1)] utf8_encode_nul [OF assms(2)] utf8_encode_nul [OF assms(3)] utf8_encode_nul [OF assms(4)]
    utf8_encode_nul [OF VaultScopeType_value_plain(1)]
  show "aad_for t sc v = aad_for t' sc' v' \<longleftrightarrow>
      t = t' \<and> scope_type sc = scope_type sc' \<and> scope_id sc = scope_id sc' \<and> v = v'"
  proof
    assume "aad_for t sc v = aad_for t' sc' v'"
    note 1 = append_sep_eq [OF nul(1,2) this [unfolded aad_for_def AAD_SEPARATOR_def]]
    note 2 = append_sep_eq [OF nul(5,5) 1 [THEN conjunct2]]
    note 3 = append_sep_eq [OF nul(3,4) 2 [THEN conjunct2]]
    from 1 2 3 show "t = t' \<and> scope_type sc = scope_type sc' \<and> scope_id sc = scope_id sc' \<and> v = v'"
      by (auto dest: show_int_inj)
  qed (simp add: aad_for_def)
  show "key_info (VaultScopeType_value (scope_type sc)) (scope_id sc) v = key_info (VaultScopeType_value (scope_type sc')) (scope_id sc') v' \<longleftrightarrow>
      scope_type sc = scope_type sc' \<and> scope_id sc = scope_id sc' \<and> v = v'"
  proof
    assume "key_info (VaultScopeType_value (scope_type sc)) (scope_id sc) v = key_info (VaultScopeType_value (scope_type sc')) (scope_id sc') v'"
    then have "VaultScopeType_value (scope_type sc) @ CHR '':'' # scope_id sc @ CHR '':'' # show_int v
        = VaultScopeType_value (scope_type sc') @ CHR '':'' # scope_id sc' @ CHR '':'' # show_int v'"
      by (simp add: key_info_def)
    note 1 = append_sep_eq [OF VaultScopeType_value_plain(2) VaultScopeType_value_plain(2) this]
    note 2 = append_sep_eq_last [OF show_int_plain(2) show_int_plain(2) 1 [THEN conjunct2]]
    from 1 2 show "scope_type sc = scope_type sc' \<and> scope_id sc = scope_id sc' \<and> v = v'" by (auto dest: show_int_inj)
  qed simp
qed

section \<open>Sealing and opening\<close>

text \<open>What the vault relies on of AES-GCM: a ciphertext opens under its own key and associated data, and under no other.\<close>

definition aead_binds :: "aes_encrypt \<Rightarrow> aes_decrypt \<Rightarrow> bool" where
  "aead_binds enc dec \<longleftrightarrow> (\<forall>key key' nonce p q aad aad'.
     dec key' nonce (enc key nonce p aad) aad' = Inr q \<longleftrightarrow> key' = key \<and> aad' = aad \<and> q = p)"

lemma vault_seal_Inr:
  assumes "vault_seal c v t sc k = (Inr s, k')"
  obtains key where "checked_key c sc (sv_key_version s) = Inr key"
    "sv_ciphertext s = VAULT_PREFIX @ urlsafe_b64encode (vc_urandom c k VAULT_NONCE_BYTES
      @ vc_encrypt c key (vc_urandom c k VAULT_NONCE_BYTES) (utf8_encode v) (Some (aad_for t sc (sv_key_version s))))"
  using assms by (auto simp: vault_seal_def Let_def split: sum.splits)

lemma vault_unseal_sealed:
  assumes b: "aead_binds (vc_encrypt c) (vc_decrypt c)" and d: "draws_sized (vc_urandom c)"
    and s: "vault_seal c v t sc k = (Inr s, k')"
  shows "vault_unseal c s t' sc' = Inr u \<longleftrightarrow>
    checked_key c sc' (sv_key_version s) = checked_key c sc (sv_key_version s)
    \<and> aad_for t' sc' (sv_key_version s) = aad_for t sc (sv_key_version s) \<and> u = v"
proof -
  obtain key where key: "checked_key c sc (sv_key_version s) = Inr key"
    and ct: "sv_ciphertext s = VAULT_PREFIX @ urlsafe_b64encode (vc_urandom c k VAULT_NONCE_BYTES
      @ vc_encrypt c key (vc_urandom c k VAULT_NONCE_BYTES) (utf8_encode v) (Some (aad_for t sc (sv_key_version s))))"
    by (rule vault_seal_Inr [OF s])
  have n: "length (vc_urandom c k VAULT_NONCE_BYTES) = VAULT_NONCE_BYTES" using d by (simp add: draws_sized_def)
  show ?thesis
  proof (cases "checked_key c sc' (sv_key_version s)")
    case (Inl e)
    then show ?thesis by (simp add: vault_unseal_def key)
  next
    case (Inr key')
    let ?dec = "vc_decrypt c key' (vc_urandom c k VAULT_NONCE_BYTES)
      (vc_encrypt c key (vc_urandom c k VAULT_NONCE_BYTES) (utf8_encode v) (Some (aad_for t sc (sv_key_version s))))
      (Some (aad_for t' sc' (sv_key_version s)))"
    have dec: "?dec = Inr q \<longleftrightarrow> key' = key \<and> aad_for t' sc' (sv_key_version s) = aad_for t sc (sv_key_version s) \<and> q = utf8_encode v" for q
      using b unfolding aead_binds_def by (metis option.inject)
    have "vault_unseal c s t' sc' = Inr u \<longleftrightarrow> (\<exists>q. ?dec = Inr q \<and> utf8_decode q = Some u)"
      using Inr n by (auto simp: vault_unseal_def open_sealed_def ct split: sum.splits option.splits)
    also have "\<dots> \<longleftrightarrow> key' = key \<and> aad_for t' sc' (sv_key_version s) = aad_for t sc (sv_key_version s) \<and> u = v"
      unfolding dec by auto
    finally show ?thesis using key Inr by simp
  qed
qed

text \<open>
  C14: A stored value opens in its own row and nowhere else. A value sealed for a token in a scope is
  opened by that token in that scope to exactly the value, and by no other token and in no other scope to
  anything: copying a ciphertext between rows or scopes never resolves it. Assumed of AES-GCM is that it opens a
  ciphertext under its own key and associated data only, and of tokens and scope ids that they contain no NUL.
\<close>

theorem vault_opens_only_in_place:
  assumes "aead_binds (vc_encrypt c) (vc_decrypt c)" "draws_sized (vc_urandom c)" "vault_seal c v t sc k = (Inr s, k')"
    and "CHR 0x00 \<notin> set t" "CHR 0x00 \<notin> set t'" "CHR 0x00 \<notin> set (scope_id sc)" "CHR 0x00 \<notin> set (scope_id sc')"
  shows "vault_unseal c s t' sc' = Inr u \<longleftrightarrow> t' = t \<and> sc' = sc \<and> u = v"
proof -
  have "sc' = sc \<longleftrightarrow> scope_type sc = scope_type sc' \<and> scope_id sc = scope_id sc'" by auto
  then show ?thesis
    using vault_unseal_sealed [OF assms(1-3), of t' sc' u] vault_binding_unambiguous [OF assms(4-7)]
      vault_binding_unambiguous [OF assms(5,4,7,6)] by auto
qed

text \<open>A toy cipher that binds: key and associated data are written, self-delimiting, before the text.\<close>

definition delimited :: "bytes \<Rightarrow> bytes" where
  "delimited bs = concat (map (\<lambda>c. [CHR ''x'', c]) bs) @ ''e''"

definition toy_tag :: "bytes \<Rightarrow> bytes option \<Rightarrow> bytes" where
  "toy_tag key aad = delimited key @ (case aad of None \<Rightarrow> ''n'' | Some a \<Rightarrow> CHR ''s'' # delimited a)"

definition toy_encrypt :: aes_encrypt where "toy_encrypt key nonce p aad = toy_tag key aad @ p"

definition toy_decrypt :: aes_decrypt where
  "toy_decrypt key nonce b aad =
     (if startswith b (toy_tag key aad) then Inr (drop (length (toy_tag key aad)) b) else Inl ''InvalidTag'')"

lemma delimited_inject: "delimited a @ r = delimited b @ s \<longleftrightarrow> a = b \<and> r = s"
  by (induction a arbitrary: b; rename_tac b, case_tac b) (auto simp: delimited_def)

lemma toy_binds: "aead_binds toy_encrypt toy_decrypt"
proof -
  have t: "toy_tag key aad @ r = toy_tag key' aad' @ s \<longleftrightarrow> key = key' \<and> aad = aad' \<and> r = s" for key key' aad aad' r s
    using delimited_inject by (auto simp: toy_tag_def split: option.splits)
  have "toy_decrypt key' nonce (toy_tag key aad @ p) aad' = Inr q \<longleftrightarrow> (toy_tag key aad @ p = toy_tag key' aad' @ q)" for key key' nonce aad aad' p q
    unfolding toy_decrypt_def startswith_iff by (metis append_eq_conv_conj sum.distinct(1) sum.inject(2))
  then show ?thesis unfolding aead_binds_def toy_encrypt_def t by auto
qed

definition toy_cipher :: VaultCipher where
  "toy_cipher = \<lparr>vc_keys = DerivedKeyProvider (\<lambda>n salt info ikm. replicate n (CHR ''k'')) ''root'' 1, vc_urandom = (\<lambda>k n. replicate n (CHR ''n'')),
     vc_encrypt = toy_encrypt, vc_decrypt = toy_decrypt\<rparr>"

lemma toy_cipher_laws:
  "aead_binds (vc_encrypt toy_cipher) (vc_decrypt toy_cipher)" "draws_sized (vc_urandom toy_cipher)"
  "checked_key toy_cipher sc n = Inr (replicate 32 (CHR ''k''))"
  using toy_binds
  by (simp_all add: toy_cipher_def draws_sized_def checked_key_def DerivedKeyProvider_def derive_key_def VAULT_KEY_BYTES_def)

theorem vault_opens_only_in_place_witness:
  "let sc = \<lparr>scope_type = KEY, scope_id = ''k''\<rparr>; sealed = projr (fst (vault_seal toy_cipher ''Zo'' ''<PERSON:a>'' sc 0))
   in vault_unseal toy_cipher sealed ''<PERSON:a>'' sc = Inr ''Zo'' \<and> vault_unseal toy_cipher sealed ''<PERSON:b>'' sc \<noteq> Inr ''Zo''"
proof -
  let ?sc = "\<lparr>scope_type = KEY, scope_id = ''k''\<rparr>"
  obtain s k' where s: "vault_seal toy_cipher ''Zo'' ''<PERSON:a>'' ?sc 0 = (Inr s, k')"
    by (simp add: vault_seal_def toy_cipher_laws Let_def)
  show ?thesis
    using vault_opens_only_in_place [OF toy_cipher_laws(1,2) s, of "''<PERSON:a>''" ?sc] s
      vault_opens_only_in_place [OF toy_cipher_laws(1,2) s, of "''<PERSON:b>''" ?sc]
    by (simp add: Let_def)
qed

end
