(* ===== verification/Vault_Repository.thy ===== *)
theory Vault_Repository
  imports Vault_Cipher
begin

text \<open>
  \<open>litellm/pii/vault/repository.py\<close>: rows and their records, the query clauses and the repository.
  Prisma is outside the code: its table actions are a record of operations over a database state, any of which may
  raise (the class name of the exception is the answer). \<open>prisma_table\<close> states the documented meaning of
  the clauses the code writes, over the records of the table; the properties assume it. The clock is an argument.
\<close>

section \<open>Rows and records\<close>

definition DEFAULT_ALGORITHM :: string where "DEFAULT_ALGORITHM = ''aes-256-gcm''"

definition BY_TOKEN_ID :: "(string, string) dict" where "BY_TOKEN_ID = [(''token_id'', ''asc'')]"

record VaultRow =
  token_id :: string
  row_entity_type :: string
  ciphertext :: string
  key_version :: int
  row_scope :: VaultScope
  row_session_id :: "string option"
  subject_id :: "string option"
  created_by :: "string option"
  expires_at :: "int option"
  created_at :: "int option"

definition opt_str :: "string option \<Rightarrow> pyobj" where
  "opt_str s = (case s of None \<Rightarrow> PNone | Some t \<Rightarrow> PStr t)"

definition opt_time :: "int option \<Rightarrow> pyobj" where
  "opt_time t = (case t of None \<Rightarrow> PNone | Some n \<Rightarrow> PTime n)"

type_synonym record_dict = "(string, pyobj) dict"

definition row_to_record :: "VaultRow \<Rightarrow> record_dict" where
  "row_to_record row =
     [(''token_id'', PStr (token_id row)),
      (''entity_type'', PStr (row_entity_type row)),
      (''ciphertext'', PStr (ciphertext row)),
      (''key_version'', PInt (key_version row)),
      (''algorithm'', PStr DEFAULT_ALGORITHM),
      (''scope_type'', PStr (VaultScopeType_value (scope_type (row_scope row)))),
      (''scope_id'', PStr (scope_id (row_scope row))),
      (''session_id'', opt_str (row_session_id row)),
      (''subject_id'', opt_str (subject_id row)),
      (''created_by'', opt_str (created_by row)),
      (''expires_at'', opt_time (expires_at row))]"

definition text_of :: "record_dict \<Rightarrow> string \<Rightarrow> string option" where
  "text_of rec column = as_str (obj_get rec column)"

definition record_to_row :: "record_dict \<Rightarrow> VaultRow option" where
  "record_to_row rec =
     (case (text_of rec ''token_id'', text_of rec ''ciphertext'', text_of rec ''scope_id'',
            Option.bind (text_of rec ''scope_type'') VaultScopeType_of) of
        (Some tid, Some ct, Some sid, Some sty) \<Rightarrow>
          Some \<lparr>token_id = tid,
                row_entity_type = (case text_of rec ''entity_type'' of None \<Rightarrow> [] | Some e \<Rightarrow> e),
                ciphertext = ct,
                key_version = (case as_int (obj_get rec ''key_version'') of None \<Rightarrow> 1 | Some v \<Rightarrow> v),
                row_scope = \<lparr>scope_type = sty, scope_id = sid\<rparr>,
                row_session_id = text_of rec ''session_id'',
                subject_id = text_of rec ''subject_id'',
                created_by = text_of rec ''created_by'',
                expires_at = as_time (obj_get rec ''expires_at''),
                created_at = as_time (obj_get rec ''created_at'')\<rparr>
      | _ \<Rightarrow> None)"

section \<open>Clauses\<close>

text \<open>A \<open>where\<close> clause: columns with a value or an operator, and \<open>OR\<close> with a list of such clauses.\<close>

definition scope_clause :: "VaultScope \<Rightarrow> record_dict" where
  "scope_clause scope = [(''scope_type'', PStr (VaultScopeType_value (scope_type scope))), (''scope_id'', PStr (scope_id scope))]"

definition live_filter :: "VaultScope \<Rightarrow> int \<Rightarrow> record_dict" where
  "live_filter scope now =
     scope_clause scope @
     [(''OR'', PList [PDict [(''expires_at'', PNone)], PDict [(''expires_at'', PDict [(''gt'', PTime now)])]])]"

definition scan_filters :: "string option \<Rightarrow> string option \<Rightarrow> string option \<Rightarrow> record_dict" where
  "scan_filters entity subject after_token_id =
     (let keyset = (if is_empty_str after_token_id then PNone else PDict [(''gt'', PStr (the after_token_id))]);
          supplied = [(''entity_type'', opt_str entity), (''subject_id'', opt_str subject), (''token_id'', keyset)]
      in dict_of (filter (\<lambda>(c, v). v \<noteq> PNone) supplied))"

section \<open>The table\<close>

record 'd VaultTable =
  tb_create_many :: "record_dict list \<Rightarrow> bool \<Rightarrow> 'd \<Rightarrow> string option \<times> 'd"
  tb_find_many :: "record_dict \<Rightarrow> (string, string) dict option \<Rightarrow> int option \<Rightarrow> 'd \<Rightarrow> string + record_dict list"
  tb_delete_many :: "record_dict \<Rightarrow> 'd \<Rightarrow> string option \<times> 'd"

text \<open>
  What Prisma answers a row as: a mapping, a model whose \<open>model_dump\<close> answers an object, or an object without
  one.
\<close>

datatype prisma_record = Mapping_record record_dict | Model_record pyobj | Opaque_record

definition as_mapping :: "prisma_record \<Rightarrow> record_dict" where
  "as_mapping r = (case r of
     Mapping_record d \<Rightarrow> d
   | Model_record dumped \<Rightarrow> (case as_dict dumped of None \<Rightarrow> [] | Some d \<Rightarrow> d)
   | Opaque_record \<Rightarrow> [])"

record 'd PrismaTableActions =
  pr_create_many :: "record_dict list \<Rightarrow> bool \<Rightarrow> 'd \<Rightarrow> string option \<times> 'd"
  pr_find_many :: "record_dict \<Rightarrow> (string, string) dict option \<Rightarrow> int option \<Rightarrow> 'd \<Rightarrow> string + prisma_record list"
  pr_delete_many :: "record_dict \<Rightarrow> 'd \<Rightarrow> string option \<times> 'd"

text \<open>An empty \<open>order\<close> and a zero \<open>take\<close> are not passed on.\<close>

definition PrismaVaultTable :: "'d PrismaTableActions \<Rightarrow> 'd VaultTable" where
  "PrismaVaultTable actions =
     \<lparr>tb_create_many = pr_create_many actions,
      tb_find_many = (\<lambda>clause order tk d.
        map_sum id (map as_mapping)
          (pr_find_many actions clause (if order = Some [] then None else order) (if tk = Some 0 then None else tk) d)),
      tb_delete_many = pr_delete_many actions\<rparr>"

section \<open>The repository\<close>

definition insert_many :: "'d VaultTable \<Rightarrow> VaultRow list \<Rightarrow> 'd \<Rightarrow> string option \<times> 'd" where
  "insert_many tbl rows d = tb_create_many tbl (map row_to_record rows) True d"

definition find_live :: "'d VaultTable \<Rightarrow> VaultScope \<Rightarrow> string list \<Rightarrow> int \<Rightarrow> 'd \<Rightarrow> string + VaultRow list" where
  "find_live tbl scope token_ids now d =
     (if token_ids = [] then Inr []
      else map_sum id (List.map_filter record_to_row)
        (tb_find_many tbl (dict_update (live_filter scope now) [(''token_id'', PDict [(''in'', PList (map PStr token_ids))])]) None None d))"

definition delete_session :: "'d VaultTable \<Rightarrow> VaultScope \<Rightarrow> string \<Rightarrow> 'd \<Rightarrow> string option \<times> 'd" where
  "delete_session tbl scope session d = tb_delete_many tbl (scope_clause scope @ [(''session_id'', PStr session)]) d"

definition delete_subject :: "'d VaultTable \<Rightarrow> VaultScope \<Rightarrow> string \<Rightarrow> 'd \<Rightarrow> string option \<times> 'd" where
  "delete_subject tbl scope subject d = tb_delete_many tbl (scope_clause scope @ [(''subject_id'', PStr subject)]) d"

definition find_session :: "'d VaultTable \<Rightarrow> VaultScope \<Rightarrow> string \<Rightarrow> int \<Rightarrow> 'd \<Rightarrow> string + VaultRow list" where
  "find_session tbl scope session now d =
     map_sum id (List.map_filter record_to_row)
       (tb_find_many tbl (dict_update (live_filter scope now) [(''session_id'', PStr session)]) None None d)"

definition find_subject :: "'d VaultTable \<Rightarrow> VaultScope \<Rightarrow> string \<Rightarrow> int \<Rightarrow> 'd \<Rightarrow> string + VaultRow list" where
  "find_subject tbl scope subject now d =
     map_sum id (List.map_filter record_to_row)
       (tb_find_many tbl (dict_update (live_filter scope now) [(''subject_id'', PStr subject)]) None None d)"

definition repo_scan ::
  "'d VaultTable \<Rightarrow> VaultScope \<Rightarrow> int \<Rightarrow> int \<Rightarrow> string option \<Rightarrow> string option \<Rightarrow> string option \<Rightarrow> 'd \<Rightarrow> string + VaultRow list" where
  "repo_scan tbl scope now limit entity subject after_token_id d =
     map_sum id (List.map_filter record_to_row)
       (tb_find_many tbl (dict_update (live_filter scope now) (scan_filters entity subject after_token_id)) (Some BY_TOKEN_ID) (Some limit) d)"

definition repo_sweep_expired :: "'d VaultTable \<Rightarrow> int \<Rightarrow> 'd \<Rightarrow> string option \<times> 'd" where
  "repo_sweep_expired tbl now d = tb_delete_many tbl [(''expires_at'', PDict [(''lt'', PTime now)])] d"

section \<open>What the clauses mean\<close>

fun pv_less :: "pyobj \<Rightarrow> pyobj \<Rightarrow> bool" where
  "pv_less (PTime a) (PTime b) = (a < b)"
| "pv_less (PInt a) (PInt b) = (a < b)"
| "pv_less (PStr a) (PStr b) = (a < b)"
| "pv_less _ _ = False"

text \<open>A comparison with null holds of no record.\<close>

definition column_matches :: "record_dict \<Rightarrow> string \<times> pyobj \<Rightarrow> bool" where
  "column_matches rec cv = (case cv of (column, v) \<Rightarrow>
     (case v of
        PDict [(op, x)] \<Rightarrow>
          if op = ''gt'' then pv_less x (obj_get rec column)
          else if op = ''lt'' then pv_less (obj_get rec column) x
          else if op = ''in'' then (case as_list x of None \<Rightarrow> False | Some xs \<Rightarrow> obj_get rec column \<in> set xs)
          else False
      | _ \<Rightarrow> obj_get rec column = v))"

definition clause_matches :: "record_dict \<Rightarrow> record_dict \<Rightarrow> bool" where
  "clause_matches clause rec = list_all (\<lambda>(column, v).
     if column = ''OR'' then
       (case as_list v of None \<Rightarrow> False
        | Some cs \<Rightarrow> list_ex (\<lambda>c. case as_dict c of None \<Rightarrow> False | Some cl \<Rightarrow> list_all (column_matches rec) cl) cs)
     else column_matches rec (column, v)) clause"

definition token_of_record :: "record_dict \<Rightarrow> string" where
  "token_of_record rec = (case as_str (obj_get rec ''token_id'') of None \<Rightarrow> [] | Some t \<Rightarrow> t)"

definition select_records :: "record_dict \<Rightarrow> (string, string) dict option \<Rightarrow> int option \<Rightarrow> record_dict list \<Rightarrow> record_dict list" where
  "select_records clause order tk rows =
     (let hits = filter (clause_matches clause) rows;
          ordered = (if order = Some BY_TOKEN_ID then sort_key token_of_record hits else hits)
      in case tk of None \<Rightarrow> ordered | Some n \<Rightarrow> take (nat n) ordered)"

text \<open>\<open>create_many\<close> with \<open>skip_duplicates\<close>: a record whose token is already a row is not written. The database stamps the rest.\<close>

fun add_records :: "pyobj \<Rightarrow> record_dict list \<Rightarrow> record_dict list \<Rightarrow> record_dict list" where
  "add_records stamp [] rows = rows"
| "add_records stamp (rec # recs) rows =
     (if token_of_record rec \<in> token_of_record ` set rows then add_records stamp recs rows
      else add_records stamp recs (rows @ [rec @ [(''created_at'', stamp)]]))"

definition prisma_table :: "'d VaultTable \<Rightarrow> ('d \<Rightarrow> record_dict list) \<Rightarrow> bool" where
  "prisma_table tbl rows \<longleftrightarrow>
     (\<forall>clause order tk d. tb_find_many tbl clause order tk d = Inr (select_records clause order tk (rows d)))
   \<and> (\<forall>data d. \<exists>stamp d'. tb_create_many tbl data True d = (None, d') \<and> rows d' = add_records stamp data (rows d))
   \<and> (\<forall>clause d. \<exists>d'. tb_delete_many tbl clause d = (None, d') \<and> rows d' = filter (\<lambda>r. \<not> clause_matches clause r) (rows d))"

section \<open>The table as a list of rows\<close>

text \<open>
  The abstract view: the rows a table holds. Every record of the table was written by the repository, and
  the token is the primary key.
\<close>

definition written :: "record_dict \<Rightarrow> bool" where
  "written rec \<longleftrightarrow> (\<exists>row stamp. rec = row_to_record row @ [(''created_at'', stamp)])"

definition table_ok :: "('d \<Rightarrow> record_dict list) \<Rightarrow> 'd \<Rightarrow> bool" where
  "table_ok rows d \<longleftrightarrow> (\<forall>rec \<in> set (rows d). written rec) \<and> distinct (map token_of_record (rows d))"

definition vault_rows :: "('d \<Rightarrow> record_dict list) \<Rightarrow> 'd \<Rightarrow> VaultRow list" where
  "vault_rows rows d = List.map_filter record_to_row (rows d)"

definition is_live :: "VaultScope \<Rightarrow> int \<Rightarrow> VaultRow \<Rightarrow> bool" where
  "is_live scope now row = (row_scope row = scope \<and> (case expires_at row of None \<Rightarrow> True | Some e \<Rightarrow> now < e))"

definition passes :: "string option \<Rightarrow> string option \<Rightarrow> string option \<Rightarrow> VaultRow \<Rightarrow> bool" where
  "passes entity subject after_token_id row =
     ((case entity of None \<Rightarrow> True | Some e \<Rightarrow> row_entity_type row = e)
      \<and> (case subject of None \<Rightarrow> True | Some s \<Rightarrow> subject_id row = Some s)
      \<and> (is_empty_str after_token_id \<or> the after_token_id < token_id row))"

lemma columns [simp]:
  "obj_get (row_to_record r @ x) ''token_id'' = PStr (token_id r)"
  "obj_get (row_to_record r @ x) ''entity_type'' = PStr (row_entity_type r)"
  "obj_get (row_to_record r @ x) ''ciphertext'' = PStr (ciphertext r)"
  "obj_get (row_to_record r @ x) ''key_version'' = PInt (key_version r)"
  "obj_get (row_to_record r @ x) ''scope_type'' = PStr (VaultScopeType_value (scope_type (row_scope r)))"
  "obj_get (row_to_record r @ x) ''scope_id'' = PStr (scope_id (row_scope r))"
  "obj_get (row_to_record r @ x) ''session_id'' = opt_str (row_session_id r)"
  "obj_get (row_to_record r @ x) ''subject_id'' = opt_str (subject_id r)"
  "obj_get (row_to_record r @ x) ''created_by'' = opt_str (created_by r)"
  "obj_get (row_to_record r @ x) ''expires_at'' = opt_time (expires_at r)"
  "obj_get (row_to_record r @ [(''created_at'', s)]) ''created_at'' = s"
  by (simp_all add: obj_get_def row_to_record_def)

lemma opt_obj [simp]:
  "as_str (opt_str s) = s" "as_time (opt_time t) = t" "opt_str s = PStr u \<longleftrightarrow> s = Some u" "opt_time t = PNone \<longleftrightarrow> t = None"
  by (auto simp: opt_str_def opt_time_def split: option.splits)

lemma VaultScopeType_of_value [simp]: "VaultScopeType_of (VaultScopeType_value t) = Some t"
  by (cases t) (simp_all add: VaultScopeType_of_def)

lemma record_roundtrip:
  "record_to_row (row_to_record row @ [(''created_at'', stamp)]) = Some (row\<lparr>created_at := as_time stamp\<rparr>)"
  by (simp add: record_to_row_def text_of_def)

lemma row_to_record_alone: "record_to_row (row_to_record row) = Some (row\<lparr>created_at := None\<rparr>)"
proof -
  have "obj_get (row_to_record row) c = obj_get (row_to_record row @ [(''created_at'', PNone)]) c" for c
    by (simp add: obj_get_def map_add_def split: option.splits)
  then show ?thesis using record_roundtrip [of row PNone] by (simp add: record_to_row_def text_of_def)
qed

lemma written_row:
  assumes "written rec"
  obtains row stamp where "rec = row_to_record row @ [(''created_at'', stamp)]" "record_to_row rec = Some (row\<lparr>created_at := as_time stamp\<rparr>)"
  using assms by (auto simp: written_def record_roundtrip)

lemma token_of_written: "written rec \<Longrightarrow> record_to_row rec = Some row \<Longrightarrow> token_of_record rec = token_id row"
  by (auto elim!: written_row simp: token_of_record_def)

text \<open>The clauses on a written record, in terms of its row.\<close>

lemma live_matches:
  assumes "written rec" "record_to_row rec = Some row"
  shows "clause_matches (live_filter scope now) rec \<longleftrightarrow> is_live scope now row"
  using assms
  by (cases scope) (auto elim!: written_row simp: clause_matches_def column_matches_def live_filter_def scope_clause_def is_live_def
      opt_time_def split: option.splits)

lemma column_text_matches:
  assumes "written rec" "record_to_row rec = Some row"
  shows "column_matches rec (''session_id'', PStr s) \<longleftrightarrow> row_session_id row = Some s"
    "column_matches rec (''subject_id'', PStr s) \<longleftrightarrow> subject_id row = Some s"
    "column_matches rec (''entity_type'', PStr s) \<longleftrightarrow> row_entity_type row = s"
    "column_matches rec (''token_id'', PDict [(''gt'', PStr s)]) \<longleftrightarrow> s < token_id row"
    "column_matches rec (''token_id'', PDict [(''in'', PList (map PStr ts))]) \<longleftrightarrow> token_id row \<in> set ts"
    "clause_matches (scope_clause scope) rec \<longleftrightarrow> row_scope row = scope"
    "column_matches rec (''expires_at'', PDict [(''lt'', PTime now)]) \<longleftrightarrow> (case expires_at row of None \<Rightarrow> False | Some e \<Rightarrow> e < now)"
  using assms by (cases scope; auto elim!: written_row simp: column_matches_def clause_matches_def scope_clause_def opt_time_def split: option.splits)+

lemma clause_matches_append: "clause_matches (a @ b) rec \<longleftrightarrow> clause_matches a rec \<and> clause_matches b rec"
  by (simp add: clause_matches_def)

lemma clause_matches_one: "c \<noteq> ''OR'' \<Longrightarrow> clause_matches [(c, v)] rec \<longleftrightarrow> column_matches rec (c, v)"
  by (simp add: clause_matches_def)

lemma live_update: "c \<notin> {''scope_type'', ''scope_id'', ''OR''} \<Longrightarrow>
  dict_update (live_filter scope now) [(c, v)] = live_filter scope now @ [(c, v)]"
  by (auto simp: dict_update_def live_filter_def scope_clause_def)

text \<open>Selecting records of a table is filtering its rows.\<close>

lemma select_rows:
  assumes "\<forall>rec \<in> set recs. written rec" and m: "\<And>rec row. rec \<in> set recs \<Longrightarrow> record_to_row rec = Some row \<Longrightarrow> Q rec \<longleftrightarrow> P row"
  shows "List.map_filter record_to_row (filter Q recs) = filter P (List.map_filter record_to_row recs)"
  using assms
proof (induction recs)
  case (Cons rec recs)
  obtain row where r: "record_to_row rec = Some row" using Cons.prems(1) by (auto elim: written_row)
  have "Q rec \<longleftrightarrow> P row" using Cons.prems(2) r by simp
  moreover have "List.map_filter record_to_row (filter Q recs) = filter P (List.map_filter record_to_row recs)"
    using Cons.prems by (intro Cons.IH) auto
  ultimately show ?case using r by (simp add: List.map_filter_simps)
qed (simp add: List.map_filter_simps)

lemma map_filter_written: "\<forall>rec \<in> set recs. written rec \<Longrightarrow> List.map_filter record_to_row recs = map (the \<circ> record_to_row) recs"
  by (induction recs) (auto simp: List.map_filter_simps elim: written_row)

lemma insort_written:
  assumes "written rec" "\<forall>r \<in> set recs. written r"
  shows "map (the \<circ> record_to_row) (insort_key token_of_record rec recs)
    = insort_key token_id (the (record_to_row rec)) (map (the \<circ> record_to_row) recs)"
proof -
  have t: "token_of_record r = token_id (the (record_to_row r))" if "written r" for r
    using that by (auto elim!: written_row simp: token_of_record_def)
  show ?thesis using assms by (induction recs) (simp_all add: t)
qed

lemma sort_written:
  "\<forall>r \<in> set recs. written r \<Longrightarrow> map (the \<circ> record_to_row) (sort_key token_of_record recs) = sort_key token_id (map (the \<circ> record_to_row) recs)"
proof (induction recs)
  case (Cons r recs)
  then have "\<forall>x \<in> set (sort_key token_of_record recs). written x" "written r" by simp_all
  from insort_written [OF this(2,1)] Cons show ?case by (simp add: comp_def)
qed simp

text \<open>What each operation does to the rows; adding rows is adding records.\<close>

fun add_rows :: "int option \<Rightarrow> VaultRow list \<Rightarrow> VaultRow list \<Rightarrow> VaultRow list" where
  "add_rows stamp [] old = old"
| "add_rows stamp (row # rows) old =
     (if token_id row \<in> token_id ` set old then add_rows stamp rows old
      else add_rows stamp rows (old @ [row\<lparr>created_at := stamp\<rparr>]))"

lemma add_records_rows:
  assumes "\<forall>r \<in> set recs. written r" "distinct (map token_of_record recs)"
  shows "(\<forall>r \<in> set (add_records stamp (map row_to_record rs) recs). written r)
    \<and> distinct (map token_of_record (add_records stamp (map row_to_record rs) recs))
    \<and> List.map_filter record_to_row (add_records stamp (map row_to_record rs) recs) = add_rows (as_time stamp) rs (List.map_filter record_to_row recs)"
  using assms
proof (induction rs arbitrary: recs)
  case (Cons row rs)
  let ?rec = "row_to_record row @ [(''created_at'', stamp)]"
  have t: "token_of_record (row_to_record row) = token_id row"
    by (simp add: token_of_record_def row_to_record_def obj_get_def)
  have k: "token_id ` set (List.map_filter record_to_row recs) = token_of_record ` set recs"
  proof -
    have "token_id (the (record_to_row r)) = token_of_record r" if "r \<in> set recs" for r
      using Cons.prems(1) that by (auto elim!: written_row simp: token_of_record_def)
    then show ?thesis using Cons.prems(1) by (simp add: map_filter_written image_image cong: image_cong)
  qed
  have w: "written ?rec" "token_of_record ?rec = token_id row" by (auto simp: written_def token_of_record_def)
  show ?case
  proof (cases "token_id row \<in> token_of_record ` set recs")
    case True
    with Cons.IH [OF Cons.prems] show ?thesis by (simp add: t k)
  next
    case False
    have "\<forall>r \<in> set (recs @ [?rec]). written r" "distinct (map token_of_record (recs @ [?rec]))"
      using Cons.prems w False by auto
    note ih = Cons.IH [OF this]
    have e: "List.map_filter record_to_row (recs @ [?rec]) = List.map_filter record_to_row recs @ [row\<lparr>created_at := as_time stamp\<rparr>]"
      by (simp add: List.map_filter_def record_roundtrip)
    from ih [unfolded e] False show ?thesis by (simp add: t k)
  qed
qed simp

section \<open>The repository on rows\<close>

lemma find_rows:
  assumes "prisma_table tbl rows" "table_ok rows d"
    and "\<And>rec row. rec \<in> set (rows d) \<Longrightarrow> record_to_row rec = Some row \<Longrightarrow> clause_matches cl rec \<longleftrightarrow> P row"
  shows "map_sum id (List.map_filter record_to_row) (tb_find_many tbl cl None None d) = Inr (filter P (vault_rows rows d))"
  using select_rows [of "rows d" "clause_matches cl" P] assms
  by (simp add: prisma_table_def table_ok_def select_records_def vault_rows_def)

lemma delete_rows:
  assumes "prisma_table tbl rows" "table_ok rows d"
    and m: "\<And>rec row. rec \<in> set (rows d) \<Longrightarrow> record_to_row rec = Some row \<Longrightarrow> clause_matches cl rec \<longleftrightarrow> P row"
  shows "\<exists>d'. tb_delete_many tbl cl d = (None, d') \<and> table_ok rows d' \<and> vault_rows rows d' = filter (\<lambda>r. \<not> P r) (vault_rows rows d)"
proof -
  obtain d' where d': "tb_delete_many tbl cl d = (None, d')" "rows d' = filter (\<lambda>r. \<not> clause_matches cl r) (rows d)"
    using assms(1) unfolding prisma_table_def by blast
  have w: "\<forall>rec \<in> set (rows d). written rec" using assms(2) by (simp add: table_ok_def)
  have "table_ok rows d'" using assms(2) by (auto simp: table_ok_def d'(2) distinct_map_filter)
  moreover have "vault_rows rows d' = filter (\<lambda>r. \<not> P r) (vault_rows rows d)"
    unfolding vault_rows_def d'(2) using m by (intro select_rows [OF w]) auto
  ultimately show ?thesis using d'(1) by blast
qed

lemma scan_rows:
  assumes "prisma_table tbl rows" "table_ok rows d"
    and "\<And>rec row. rec \<in> set (rows d) \<Longrightarrow> record_to_row rec = Some row \<Longrightarrow> clause_matches cl rec \<longleftrightarrow> P row"
  shows "map_sum id (List.map_filter record_to_row) (tb_find_many tbl cl (Some BY_TOKEN_ID) (Some n) d)
    = Inr (take (nat n) (sort_key token_id (filter P (vault_rows rows d))))"
proof -
  let ?hits = "filter (clause_matches cl) (rows d)"
  have w: "\<forall>r \<in> set (rows d). written r" using assms(2) by (simp add: table_ok_def)
  then have "\<forall>r \<in> set (take (nat n) (sort_key token_of_record ?hits)). written r" by (auto dest!: in_set_takeD)
  then have "List.map_filter record_to_row (take (nat n) (sort_key token_of_record ?hits))
      = take (nat n) (map (the \<circ> record_to_row) (sort_key token_of_record ?hits))"
    by (simp add: map_filter_written take_map)
  also have "\<dots> = take (nat n) (sort_key token_id (List.map_filter record_to_row ?hits))"
    using w by (simp add: sort_written map_filter_written)
  also have "List.map_filter record_to_row ?hits = filter P (vault_rows rows d)"
    unfolding vault_rows_def using assms(3) by (intro select_rows [OF w]) auto
  finally show ?thesis using assms(1) by (simp add: prisma_table_def select_records_def Let_def)
qed

lemma scan_clause:
  assumes "written rec" "record_to_row rec = Some row"
  shows "clause_matches (dict_update (live_filter scope now) (scan_filters entity subject cursor)) rec \<longleftrightarrow>
    is_live scope now row \<and> passes entity subject cursor row"
proof -
  have "dict_update (live_filter scope now) (scan_filters entity subject cursor) = live_filter scope now @ scan_filters entity subject cursor"
    by (auto simp: dict_update_def dict_of_def live_filter_def scope_clause_def scan_filters_def opt_str_def Let_def split: option.splits)
  moreover have "clause_matches (scan_filters entity subject cursor) rec \<longleftrightarrow> passes entity subject cursor row"
    using column_text_matches [OF assms]
    by (auto simp: scan_filters_def passes_def opt_str_def clause_matches_def dict_of_def dict_update_def Let_def split: option.splits)
  ultimately show ?thesis by (simp add: clause_matches_append live_matches [OF assms])
qed

lemma written_in: "table_ok rows d \<Longrightarrow> rec \<in> set (rows d) \<Longrightarrow> written rec"
  by (simp add: table_ok_def)

lemma repository_reads:
  assumes "prisma_table tbl rows" "table_ok rows d"
  shows "find_live tbl sc ids now d = Inr (filter (\<lambda>r. is_live sc now r \<and> token_id r \<in> set ids) (vault_rows rows d))"
    and "find_session tbl sc x now d = Inr (filter (\<lambda>r. is_live sc now r \<and> row_session_id r = Some x) (vault_rows rows d))"
    and "find_subject tbl sc x now d = Inr (filter (\<lambda>r. is_live sc now r \<and> subject_id r = Some x) (vault_rows rows d))"
    and "repo_scan tbl sc now n entity subject cursor d =
        Inr (take (nat n) (sort_key token_id (filter (\<lambda>r. is_live sc now r \<and> passes entity subject cursor r) (vault_rows rows d))))"
proof -
  note w = written_in [OF assms(2)]
  note c = live_update clause_matches_append clause_matches_one live_matches column_text_matches
  show "find_live tbl sc ids now d = Inr (filter (\<lambda>r. is_live sc now r \<and> token_id r \<in> set ids) (vault_rows rows d))"
  proof (cases "ids = []")
    case False
    then show ?thesis unfolding find_live_def by (simp only: if_False) (rule find_rows [OF assms], simp add: c w)
  qed (simp add: find_live_def)
  show "find_session tbl sc x now d = Inr (filter (\<lambda>r. is_live sc now r \<and> row_session_id r = Some x) (vault_rows rows d))"
    unfolding find_session_def by (rule find_rows [OF assms]) (simp add: c w)
  show "find_subject tbl sc x now d = Inr (filter (\<lambda>r. is_live sc now r \<and> subject_id r = Some x) (vault_rows rows d))"
    unfolding find_subject_def by (rule find_rows [OF assms]) (simp add: c w)
  show "repo_scan tbl sc now n entity subject cursor d =
        Inr (take (nat n) (sort_key token_id (filter (\<lambda>r. is_live sc now r \<and> passes entity subject cursor r) (vault_rows rows d))))"
    unfolding repo_scan_def by (rule scan_rows [OF assms]) (rule scan_clause [OF w])
qed

lemma repository_deletes:
  assumes "prisma_table tbl rows" "table_ok rows d"
  shows "\<exists>d'. delete_session tbl sc x d = (None, d') \<and> table_ok rows d'
        \<and> vault_rows rows d' = filter (\<lambda>r. \<not> (row_scope r = sc \<and> row_session_id r = Some x)) (vault_rows rows d)"
    and "\<exists>d'. delete_subject tbl sc x d = (None, d') \<and> table_ok rows d'
        \<and> vault_rows rows d' = filter (\<lambda>r. \<not> (row_scope r = sc \<and> subject_id r = Some x)) (vault_rows rows d)"
    and "\<exists>d'. repo_sweep_expired tbl now d = (None, d') \<and> table_ok rows d'
        \<and> vault_rows rows d' = filter (\<lambda>r. case expires_at r of None \<Rightarrow> True | Some e \<Rightarrow> now \<le> e) (vault_rows rows d)"
proof -
  note w = written_in [OF assms(2)]
  note c = clause_matches_append clause_matches_one column_text_matches
  show "\<exists>d'. delete_session tbl sc x d = (None, d') \<and> table_ok rows d'
        \<and> vault_rows rows d' = filter (\<lambda>r. \<not> (row_scope r = sc \<and> row_session_id r = Some x)) (vault_rows rows d)"
    unfolding delete_session_def by (rule delete_rows [OF assms]) (simp add: c w)
  show "\<exists>d'. delete_subject tbl sc x d = (None, d') \<and> table_ok rows d'
        \<and> vault_rows rows d' = filter (\<lambda>r. \<not> (row_scope r = sc \<and> subject_id r = Some x)) (vault_rows rows d)"
    unfolding delete_subject_def by (rule delete_rows [OF assms]) (simp add: c w)
  have e: "(\<not> (case expires_at r of None \<Rightarrow> False | Some e \<Rightarrow> e < now)) = (case expires_at r of None \<Rightarrow> True | Some e \<Rightarrow> now \<le> e)" for r :: VaultRow
    by (auto split: option.splits)
  have "\<exists>d'. repo_sweep_expired tbl now d = (None, d') \<and> table_ok rows d'
        \<and> vault_rows rows d' = filter (\<lambda>r. \<not> (case expires_at r of None \<Rightarrow> False | Some e \<Rightarrow> e < now)) (vault_rows rows d)"
    unfolding repo_sweep_expired_def by (rule delete_rows [OF assms]) (simp add: c w)
  then show "\<exists>d'. repo_sweep_expired tbl now d = (None, d') \<and> table_ok rows d'
        \<and> vault_rows rows d' = filter (\<lambda>r. case expires_at r of None \<Rightarrow> True | Some e \<Rightarrow> now \<le> e) (vault_rows rows d)"
    unfolding e .
qed

lemma insert_many_rows:
  assumes "prisma_table tbl rows" "table_ok rows d"
  obtains stamp d' where "insert_many tbl new d = (None, d')" "table_ok rows d'" "vault_rows rows d' = add_rows stamp new (vault_rows rows d)"
proof -
  obtain stamp d' where d': "tb_create_many tbl (map row_to_record new) True d = (None, d')"
    "rows d' = add_records stamp (map row_to_record new) (rows d)"
    using assms(1) unfolding prisma_table_def by blast
  have "\<forall>r \<in> set (rows d). written r" "distinct (map token_of_record (rows d))" using assms(2) by (simp_all add: table_ok_def)
  from add_records_rows [OF this, of stamp new] d' that [of d' "as_time stamp"] show thesis
    by (simp add: insert_many_def table_ok_def vault_rows_def)
qed

text \<open>
  C16: The repository implements a list of rows. Over a database that gives the clauses their documented
  meaning, every read answers exactly the live rows it names (of the scope, not expired, and of the tokens,
  session, subject or page asked for), a page being the next rows in token order; every deletion removes exactly
  the rows it names and keeps the table well-formed; and an insert adds exactly the rows whose token is new.
\<close>

theorem repository_refines_rows:
  assumes "prisma_table tbl rows" "table_ok rows d"
  shows "find_live tbl sc ids now d = Inr (filter (\<lambda>r. is_live sc now r \<and> token_id r \<in> set ids) (vault_rows rows d))
    \<and> find_session tbl sc x now d = Inr (filter (\<lambda>r. is_live sc now r \<and> row_session_id r = Some x) (vault_rows rows d))
    \<and> find_subject tbl sc x now d = Inr (filter (\<lambda>r. is_live sc now r \<and> subject_id r = Some x) (vault_rows rows d))
    \<and> repo_scan tbl sc now n entity subject cursor d =
        Inr (take (nat n) (sort_key token_id (filter (\<lambda>r. is_live sc now r \<and> passes entity subject cursor r) (vault_rows rows d))))
    \<and> (\<exists>d'. delete_session tbl sc x d = (None, d') \<and> table_ok rows d'
        \<and> vault_rows rows d' = filter (\<lambda>r. \<not> (row_scope r = sc \<and> row_session_id r = Some x)) (vault_rows rows d))
    \<and> (\<exists>d'. delete_subject tbl sc x d = (None, d') \<and> table_ok rows d'
        \<and> vault_rows rows d' = filter (\<lambda>r. \<not> (row_scope r = sc \<and> subject_id r = Some x)) (vault_rows rows d))
    \<and> (\<exists>d'. repo_sweep_expired tbl now d = (None, d') \<and> table_ok rows d'
        \<and> vault_rows rows d' = filter (\<lambda>r. case expires_at r of None \<Rightarrow> True | Some e \<Rightarrow> now \<le> e) (vault_rows rows d))
    \<and> (\<exists>stamp d'. insert_many tbl new d = (None, d') \<and> table_ok rows d' \<and> vault_rows rows d' = add_rows stamp new (vault_rows rows d))"
proof (intro conjI)
  obtain stamp d' where "insert_many tbl new d = (None, d')" "table_ok rows d'" "vault_rows rows d' = add_rows stamp new (vault_rows rows d)"
    by (rule insert_many_rows [OF assms])
  then show "\<exists>stamp d'. insert_many tbl new d = (None, d') \<and> table_ok rows d' \<and> vault_rows rows d' = add_rows stamp new (vault_rows rows d)"
    by blast
qed (intro repository_reads [OF assms] repository_deletes [OF assms])+

text \<open>A table in memory, for examples.\<close>

definition memory_table :: "record_dict list VaultTable" where
  "memory_table = \<lparr>tb_create_many = (\<lambda>data skip d. (None, add_records (PTime 0) data d)),
     tb_find_many = (\<lambda>cl order tk d. Inr (select_records cl order tk d)),
     tb_delete_many = (\<lambda>cl d. (None, filter (\<lambda>r. \<not> clause_matches cl r) d))\<rparr>"

lemma memory_table_prisma: "prisma_table memory_table id"
  by (auto simp: prisma_table_def memory_table_def)

definition sample_row :: VaultRow where
  "sample_row = \<lparr>token_id = ''<PERSON:ab>'', row_entity_type = ''PERSON'', ciphertext = ''c'', key_version = 1,
     row_scope = \<lparr>scope_type = KEY, scope_id = ''k''\<rparr>, row_session_id = Some ''s'', subject_id = None, created_by = None,
     expires_at = Some 9, created_at = Some 0\<rparr>"

definition sample_table :: "record_dict list" where
  "sample_table = [row_to_record sample_row @ [(''created_at'', PTime 0)]]"

lemma sample_table_ok: "table_ok id sample_table" "vault_rows id sample_table = [sample_row]"
  by (auto simp: table_ok_def sample_table_def written_def vault_rows_def record_roundtrip List.map_filter_simps sample_row_def)

theorem repository_refines_rows_witness:
  "find_live memory_table (row_scope sample_row) [''<PERSON:ab>''] 5 sample_table = Inr [sample_row]
    \<and> find_live memory_table (row_scope sample_row) [''<PERSON:ab>''] 9 sample_table = Inr []"
  using repository_refines_rows [OF memory_table_prisma sample_table_ok(1), of "row_scope sample_row" "[''<PERSON:ab>'']" 5]
    repository_refines_rows [OF memory_table_prisma sample_table_ok(1), of "row_scope sample_row" "[''<PERSON:ab>'']" 9]
  by (simp add: sample_table_ok(2) is_live_def) (simp add: sample_row_def)

end
