(* ===== verification/Vault_Store.thy ===== *)
theory Vault_Store
  imports Vault_Repository
begin

text \<open>
  \<open>litellm/pii/vault/store.py\<close> and \<open>sweep.py\<close>: the persistent store of sealed rows over a database, and
  the sweeper of expired rows. The state is the database and the number of random draws made so far; the clock is an
  argument, in microseconds. A database failure becomes a value in \<open>guarded\<close>.
\<close>

definition DEFAULT_RETENTION_DAYS :: int where "DEFAULT_RETENTION_DAYS = 30"

definition days :: "int \<Rightarrow> int" where "days n = n * 86400 * 1000000"

definition guarded_failure :: "string \<Rightarrow> string \<Rightarrow> pii_error" where
  "guarded_failure what exc = StoreUnavailable (''PII vault '' @ what @ '' failed ('' @ exc @ '')'')"

definition guarded_read :: "string + 'a \<Rightarrow> string \<Rightarrow> pii_error + 'a" where
  "guarded_read answer what = map_sum (guarded_failure what) id answer"

definition guarded_write :: "string option \<times> 'd \<Rightarrow> string \<Rightarrow> pii_error option \<times> 'd" where
  "guarded_write answer what = (map_option (guarded_failure what) (fst answer), snd answer)"

record MintRequest =
  mr_token :: string
  mr_entity_type :: string
  mr_value :: string

record 'd DatabaseTokenStore =
  vs_table :: "'d VaultTable"
  vs_cipher :: VaultCipher
  retention_days :: int

fun seal_mints ::
  "VaultCipher \<Rightarrow> VaultScope \<Rightarrow> MintRequest list \<Rightarrow> draws \<Rightarrow> (MintRequest \<times> (pii_error + SealedValue)) list \<times> draws" where
  "seal_mints cipher scope [] k = ([], k)"
| "seal_mints cipher scope (mint # mints) k =
     (case vault_seal cipher (mr_value mint) (mr_token mint) scope k of (blob, k1) \<Rightarrow>
      case seal_mints cipher scope mints k1 of (rest, k2) \<Rightarrow> ((mint, blob) # rest, k2))"

definition row_of_mint ::
  "VaultScope \<Rightarrow> string \<Rightarrow> string option \<Rightarrow> string option \<Rightarrow> int \<Rightarrow> MintRequest \<Rightarrow> SealedValue \<Rightarrow> VaultRow" where
  "row_of_mint scope session subject creator expiry mint blob =
     \<lparr>token_id = mr_token mint, row_entity_type = mr_entity_type mint, ciphertext = sv_ciphertext blob,
      key_version = sv_key_version blob, row_scope = scope, row_session_id = Some session, subject_id = subject,
      created_by = creator, expires_at = Some expiry, created_at = None\<rparr>"

definition vault_put_many ::
  "'d DatabaseTokenStore \<Rightarrow> VaultScope \<Rightarrow> string \<Rightarrow> MintRequest list \<Rightarrow> string option \<Rightarrow> string option \<Rightarrow> int
   \<Rightarrow> 'd \<times> draws \<Rightarrow> pii_error option \<times> ('d \<times> draws)" where
  "vault_put_many store scope session mints subject creator now w =
     (case w of (d, k) \<Rightarrow>
      if mints = [] then (None, (d, k))
      else
        (let expiry = now + days (retention_days store) in
         case seal_mints (vs_cipher store) scope mints k of (sealed, k') \<Rightarrow>
         case List.find (\<lambda>(mint, blob). isl blob) sealed of
           Some (mint, blob) \<Rightarrow> (Some (StoreUnavailable (error_reason (projl blob))), (d, k'))
         | None \<Rightarrow>
             (case guarded_write (insert_many (vs_table store)
                     (map (\<lambda>(mint, blob). row_of_mint scope session subject creator expiry mint (projr blob)) sealed) d) ''write'' of
                (err, d') \<Rightarrow> (err, (d', k')))))"

definition sealed_of :: "VaultRow \<Rightarrow> SealedValue" where
  "sealed_of row = \<lparr>sv_ciphertext = ciphertext row, sv_key_version = key_version row\<rparr>"

definition is_Raised :: "pii_error + 'a \<Rightarrow> bool" where
  "is_Raised r = (case r of Inl (Raised _) \<Rightarrow> True | _ \<Rightarrow> False)"

text \<open>
  The rows opened in turn: an exception ends the read, a row that does not open is dropped.
\<close>

definition open_rows :: "VaultCipher \<Rightarrow> VaultScope \<Rightarrow> VaultRow list \<Rightarrow> pii_error + (string, string) dict" where
  "open_rows cipher scope rs =
     (let opened = map (\<lambda>r. (token_id r, vault_unseal cipher (sealed_of r) (token_id r) scope)) rs in
      case List.find (\<lambda>(t, r). is_Raised r) opened of
        Some (t, r) \<Rightarrow> Inl (projl r)
      | None \<Rightarrow> Inr (dict_of (List.map_filter (\<lambda>(t, r). case r of Inl e \<Rightarrow> None | Inr v \<Rightarrow> Some (t, v)) opened)))"

definition vault_get_many ::
  "'d DatabaseTokenStore \<Rightarrow> VaultScope \<Rightarrow> string list \<Rightarrow> int \<Rightarrow> 'd \<Rightarrow> pii_error + (string, string) dict" where
  "vault_get_many store scope tokens now d =
     (if tokens = [] then Inr []
      else (case guarded_read (find_live (vs_table store) scope tokens now d) ''read'' of
          Inl err \<Rightarrow> Inl err
        | Inr rs \<Rightarrow> open_rows (vs_cipher store) scope rs))"

definition vault_session_tokens :: "'d DatabaseTokenStore \<Rightarrow> VaultScope \<Rightarrow> string \<Rightarrow> int \<Rightarrow> 'd \<Rightarrow> pii_error + VaultRow list" where
  "vault_session_tokens store scope session now d = guarded_read (find_session (vs_table store) scope session now d) ''read''"

definition vault_revoke_session :: "'d DatabaseTokenStore \<Rightarrow> VaultScope \<Rightarrow> string \<Rightarrow> 'd \<Rightarrow> pii_error option \<times> 'd" where
  "vault_revoke_session store scope session d = guarded_write (delete_session (vs_table store) scope session d) ''delete''"

definition vault_revoke_subject :: "'d DatabaseTokenStore \<Rightarrow> VaultScope \<Rightarrow> string \<Rightarrow> 'd \<Rightarrow> pii_error option \<times> 'd" where
  "vault_revoke_subject store scope subject d = guarded_write (delete_subject (vs_table store) scope subject d) ''delete''"

definition vault_export_subject ::
  "'d DatabaseTokenStore \<Rightarrow> VaultScope \<Rightarrow> string \<Rightarrow> int \<Rightarrow> 'd \<Rightarrow> pii_error + (string, string) dict" where
  "vault_export_subject store scope subject now d =
     (case guarded_read (find_subject (vs_table store) scope subject now d) ''read'' of
        Inl err \<Rightarrow> Inl err
      | Inr rs \<Rightarrow> open_rows (vs_cipher store) scope rs)"

definition vault_sweep_expired :: "'d DatabaseTokenStore \<Rightarrow> int \<Rightarrow> 'd \<Rightarrow> pii_error option \<times> 'd" where
  "vault_sweep_expired store now d = guarded_write (repo_sweep_expired (vs_table store) now d) ''sweep''"

section \<open>The sweeper\<close>

definition PII_VAULT_SWEEP_JOB_NAME :: string where "PII_VAULT_SWEEP_JOB_NAME = ''pii_vault_sweep''"

definition DEFAULT_SWEEP_INTERVAL_SECONDS :: int where "DEFAULT_SWEEP_INTERVAL_SECONDS = 3600"

text \<open>The lock over its own state; an answer that is not \<open>True\<close> is not a lock.\<close>

record 'l CronLock =
  acquire_lock :: "string \<Rightarrow> 'l \<Rightarrow> bool option \<times> 'l"
  release_lock :: "string \<Rightarrow> 'l \<Rightarrow> 'l"

record ('d, 'l) PiiVaultSweeper =
  sweeper_store :: "'d DatabaseTokenStore"
  sweeper_lock :: "'l CronLock option"

definition sweep :: "('d, 'l) PiiVaultSweeper \<Rightarrow> int \<Rightarrow> 'd \<times> 'l \<Rightarrow> 'd \<times> 'l" where
  "sweep self now w =
     (case w of (d, l) \<Rightarrow>
      (case sweeper_lock self of
         None \<Rightarrow> (snd (vault_sweep_expired (sweeper_store self) now d), l)
       | Some lock \<Rightarrow>
           (case acquire_lock lock PII_VAULT_SWEEP_JOB_NAME l of (answer, l1) \<Rightarrow>
              if answer \<noteq> Some True then (d, l1)
              else (snd (vault_sweep_expired (sweeper_store self) now d), release_lock lock PII_VAULT_SWEEP_JOB_NAME l1))))"

section \<open>Reading\<close>

lemma open_rows_sound:
  assumes "open_rows cipher sc rs = Inr m" "map_of m t = Some v"
  shows "\<exists>r \<in> set rs. token_id r = t \<and> vault_unseal cipher (sealed_of r) t sc = Inr v"
proof -
  let ?opened = "map (\<lambda>r. (token_id r, vault_unseal cipher (sealed_of r) (token_id r) sc)) rs"
  from assms(1) have "m = dict_of (List.map_filter (\<lambda>(t, r). case r of Inl e \<Rightarrow> None | Inr v \<Rightarrow> Some (t, v)) ?opened)"
    by (auto simp: open_rows_def Let_def split: option.splits)
  with assms(2) have "(t, v) \<in> set (List.map_filter (\<lambda>(t, r). case r of Inl e \<Rightarrow> None | Inr v \<Rightarrow> Some (t, v)) ?opened)"
    using set_dict_of_sub map_of_SomeD by fastforce
  then show ?thesis by (auto simp: List.map_filter_def split: sum.splits)
qed

lemma open_rows_complete:
  assumes "\<forall>r \<in> set rs. vault_unseal cipher (sealed_of r) (token_id r) sc = Inr (f (token_id r))"
  shows "\<exists>m. open_rows cipher sc rs = Inr m \<and> (\<forall>t. map_of m t = (if t \<in> token_id ` set rs then Some (f t) else None))"
proof -
  have o: "map (\<lambda>r. (token_id r, vault_unseal cipher (sealed_of r) (token_id r) sc)) rs = map (\<lambda>r. (token_id r, Inr (f (token_id r)))) rs"
    using assms by simp
  have "List.find (\<lambda>(t, r). is_Raised r) (map (\<lambda>r. (token_id r, Inr (f (token_id r)) :: pii_error + string)) rs) = None"
    by (auto simp: find_None_iff is_Raised_def)
  then have "open_rows cipher sc rs = Inr (dict_of (map (\<lambda>r. (token_id r, f (token_id r))) rs))"
    unfolding open_rows_def o by (simp add: List.map_filter_def comp_def)
  moreover have "map_of (dict_of (map (\<lambda>r. (token_id r, f (token_id r))) rs)) t = (if t \<in> token_id ` set rs then Some (f t) else None)" for t
  proof (cases "t \<in> token_id ` set rs")
    case True
    then have "(t, f t) \<in> set (map (\<lambda>r. (token_id r, f (token_id r))) rs)" by auto
    moreover have "map_of (dict_of (map (\<lambda>r. (token_id r, f (token_id r))) rs)) t = Some (f t)
      \<longleftrightarrow> (t, f t) \<in> set (map (\<lambda>r. (token_id r, f (token_id r))) rs)"
      by (rule dict_of_functional) auto
    ultimately show ?thesis using True by simp
  next
    case False
    then show ?thesis using set_dict_of_keys [of "map (\<lambda>r. (token_id r, f (token_id r))) rs"]
      by (simp add: map_of_eq_None_iff image_image)
  qed
  ultimately show ?thesis by blast
qed

lemma vault_get_many_rows:
  assumes "prisma_table (vs_table store) rows" "table_ok rows d"
  shows "vault_get_many store sc ts now d =
    open_rows (vs_cipher store) sc (filter (\<lambda>r. is_live sc now r \<and> token_id r \<in> set ts) (vault_rows rows d))"
proof (cases "ts = []")
  case True
  then show ?thesis by (simp add: vault_get_many_def open_rows_def List.map_filter_simps)
next
  case False
  then show ?thesis using repository_reads(1) [OF assms] by (simp add: vault_get_many_def guarded_read_def)
qed

section \<open>Writing\<close>

lemma seal_mints_open:
  assumes "aead_binds (vc_encrypt c) (vc_decrypt c)" "draws_sized (vc_urandom c)"
    and "checked_key c sc (current_version (vc_keys c)) = Inr key" "seal_mints c sc mints k = (sealed, k')"
  shows "map fst sealed = mints \<and> (\<forall>(m, b) \<in> set sealed. \<exists>s. b = Inr s \<and> vault_unseal c s (mr_token m) sc = Inr (mr_value m))"
  using assms(4)
proof (induction mints arbitrary: k k' sealed)
  case (Cons m mints)
  obtain s k1 where s: "vault_seal c (mr_value m) (mr_token m) sc k = (Inr s, k1)"
    using assms(3) by (simp add: vault_seal_def Let_def)
  obtain rest k2 where r: "seal_mints c sc mints k1 = (rest, k2)" by fastforce
  have sealed: "sealed = (m, Inr s) # rest" using Cons.prems s r by simp
  with Cons.IH [OF r] vault_unseal_sealed [OF assms(1,2) s] r Cons.prems s show ?case by auto
qed simp

lemma add_rows_set: "r \<in> set (add_rows stamp new old) \<Longrightarrow> r \<in> set old \<or> (\<exists>n \<in> set new. r = n\<lparr>created_at := stamp\<rparr>)"
proof (induction new arbitrary: old)
  case (Cons n new)
  show ?case
  proof (cases "token_id n \<in> token_id ` set old")
    case True
    with Cons show ?thesis by auto
  next
    case False
    with Cons.prems have "r \<in> set (add_rows stamp new (old @ [n\<lparr>created_at := stamp\<rparr>]))" by simp
    from Cons.IH [OF this] show ?thesis by auto
  qed
qed simp

lemma add_rows_tokens: "token_id ` set (add_rows stamp new old) = token_id ` set old \<union> token_id ` set new"
  by (induction new arbitrary: old) auto

lemma sealed_of_row_of_mint: "sealed_of ((row_of_mint sc session subject creator e m s)\<lparr>created_at := stamp\<rparr>) = s"
  by (cases s) (simp add: sealed_of_def row_of_mint_def)

lemma vault_put_get:
  assumes "prisma_table (vs_table store) rows" "table_ok rows d"
    and cipher: "aead_binds (vc_encrypt (vs_cipher store)) (vc_decrypt (vs_cipher store))" "draws_sized (vc_urandom (vs_cipher store))"
      "checked_key (vs_cipher store) sc (current_version (vc_keys (vs_cipher store))) = Inr key"
    and val: "\<And>m. m \<in> set mints \<Longrightarrow> mr_value m = f (mr_token m)"
    and new: "mr_token ` set mints \<inter> token_id ` set (vault_rows rows d) = {}"
  shows "\<exists>d' k'. vault_put_many store sc session mints subject creator now (d, k) = (None, (d', k')) \<and> table_ok rows d'
    \<and> (\<forall>ts now'. now' < now + days (retention_days store) \<longrightarrow> set ts \<inter> token_id ` set (vault_rows rows d) = {} \<longrightarrow>
        (\<exists>m. vault_get_many store sc ts now' d' = Inr m \<and>
          (\<forall>t. map_of m t = (if t \<in> set ts \<inter> mr_token ` set mints then Some (f t) else None))))"
proof (cases "mints = []")
  case True
  have "\<exists>m. vault_get_many store sc ts now' d = Inr m \<and> (\<forall>t. map_of m t = None)"
    if "set ts \<inter> token_id ` set (vault_rows rows d) = {}" for ts now'
  proof -
    have n: "filter (\<lambda>r. is_live sc now' r \<and> token_id r \<in> set ts) (vault_rows rows d) = []"
      using that by (auto simp: filter_empty_conv)
    show ?thesis unfolding vault_get_many_rows [OF assms(1,2)] n by (simp add: open_rows_def List.map_filter_simps)
  qed
  with True assms(2) show ?thesis by (simp add: vault_put_many_def)
next
  case False
  let ?c = "vs_cipher store" and ?e = "now + days (retention_days store)"
  obtain sealed k' where s: "seal_mints ?c sc mints k = (sealed, k')" by fastforce
  note so = seal_mints_open [OF cipher s]
  then have nf: "List.find (\<lambda>(mint, blob). isl blob) sealed = None" by (fastforce simp: find_None_iff)
  let ?new = "map (\<lambda>(mint, blob). row_of_mint sc session subject creator ?e mint (projr blob)) sealed"
  obtain stamp d' where d': "insert_many (vs_table store) ?new d = (None, d')" "table_ok rows d'"
    "vault_rows rows d' = add_rows stamp ?new (vault_rows rows d)"
    by (rule insert_many_rows [OF assms(1,2)])
  have put: "vault_put_many store sc session mints subject creator now (d, k) = (None, (d', k'))"
    using False s nf d'(1) by (simp add: vault_put_many_def guarded_write_def Let_def)
  have tok: "token_id ` set ?new = mr_token ` set mints"
  proof -
    have "token_id ` set ?new = (\<lambda>p. mr_token (fst p)) ` set sealed" by (force simp: row_of_mint_def split_beta)
    also have "\<dots> = mr_token ` set (map fst sealed)" by (simp add: image_image)
    finally show ?thesis using so by simp
  qed
  have opens: "is_live sc now' r \<and> vault_unseal ?c (sealed_of r) (token_id r) sc = Inr (f (token_id r))"
    if "r = n\<lparr>created_at := stamp\<rparr>" "n \<in> set ?new" "now' < ?e" for r n now'
  proof -
    from that obtain m b where mb: "(m, b) \<in> set sealed" "n = row_of_mint sc session subject creator ?e m (projr b)" by auto
    then have "m \<in> set mints" using so by force
    moreover have "\<exists>s. b = Inr s \<and> vault_unseal ?c s (mr_token m) sc = Inr (mr_value m)" using so mb(1) by fastforce
    moreover have "token_id r = mr_token m" "is_live sc now' r" using that(1,3) mb(2) by (simp_all add: row_of_mint_def is_live_def)
    ultimately show ?thesis using that(1) mb(2) val [of m] by (auto simp: sealed_of_row_of_mint)
  qed
  have "\<exists>m. vault_get_many store sc ts now' d' = Inr m \<and> (\<forall>t. map_of m t = (if t \<in> set ts \<inter> mr_token ` set mints then Some (f t) else None))"
    if lt: "now' < ?e" and fresh: "set ts \<inter> token_id ` set (vault_rows rows d) = {}" for ts now'
  proof -
    let ?rs = "filter (\<lambda>r. is_live sc now' r \<and> token_id r \<in> set ts) (vault_rows rows d')"
    have in_new: "\<exists>n \<in> set ?new. r = n\<lparr>created_at := stamp\<rparr>" if "r \<in> set (vault_rows rows d')" "token_id r \<in> set ts" for r
      using add_rows_set [of r stamp ?new "vault_rows rows d"] that fresh d'(3) by auto
    have "\<forall>r \<in> set ?rs. vault_unseal ?c (sealed_of r) (token_id r) sc = Inr (f (token_id r))"
    proof
      fix r assume "r \<in> set ?rs"
      then have "r \<in> set (vault_rows rows d')" "token_id r \<in> set ts" by auto
      from in_new [OF this] obtain n where "n \<in> set ?new" "r = n\<lparr>created_at := stamp\<rparr>" by blast
      from opens [OF this(2,1) lt] show "vault_unseal ?c (sealed_of r) (token_id r) sc = Inr (f (token_id r))" by blast
    qed
    from open_rows_complete [OF this] obtain m where m: "open_rows ?c sc ?rs = Inr m"
      "\<forall>t. map_of m t = (if t \<in> token_id ` set ?rs then Some (f t) else None)" by blast
    have "token_id ` set ?rs = set ts \<inter> mr_token ` set mints"
    proof
      show "token_id ` set ?rs \<subseteq> set ts \<inter> mr_token ` set mints"
      proof
        fix t assume "t \<in> token_id ` set ?rs"
        then obtain r where r: "r \<in> set (vault_rows rows d')" "token_id r \<in> set ts" "t = token_id r" by auto
        from in_new [OF r(1,2)] obtain n where "n \<in> set ?new" "r = n\<lparr>created_at := stamp\<rparr>" by blast
        then have "token_id r \<in> token_id ` set ?new" by (metis imageI VaultRow.select_convs(1) VaultRow.surjective VaultRow.update_convs(10))
        with r tok show "t \<in> set ts \<inter> mr_token ` set mints" by simp
      qed
      show "set ts \<inter> mr_token ` set mints \<subseteq> token_id ` set ?rs"
      proof
        fix t assume t: "t \<in> set ts \<inter> mr_token ` set mints"
        then have "t \<in> token_id ` set (vault_rows rows d')" using tok by (simp add: d'(3) add_rows_tokens del: set_map)
        then obtain r where r: "r \<in> set (vault_rows rows d')" "token_id r = t" by auto
        from in_new [OF r(1)] t r(2) obtain n where "n \<in> set ?new" "r = n\<lparr>created_at := stamp\<rparr>" by auto
        from opens [OF this(2,1) lt] r t show "t \<in> token_id ` set ?rs" by auto
      qed
    qed
    with m vault_get_many_rows [OF assms(1) d'(2), of sc ts now'] show ?thesis by auto
  qed
  with put d'(2) show ?thesis by blast
qed

section \<open>Properties of the store\<close>

lemma filter_implied: "(\<And>x. x \<in> set xs \<Longrightarrow> P x \<Longrightarrow> Q x) \<Longrightarrow> filter P (filter Q xs) = filter P xs"
  by (induction xs) auto

lemma sweep_state:
  "fst (sweep self now (d, l)) = d \<or> fst (sweep self now (d, l)) = snd (repo_sweep_expired (vs_table (sweeper_store self)) now d)"
  by (auto simp: sweep_def vault_sweep_expired_def guarded_write_def split: option.splits prod.splits)

text \<open>
  C18: Sweeping is invisible to readers. After a sweep at any time, with or without the lock, every
  later read of tokens, of a session's rows or of a subject's export answers exactly what it would have answered
  without the sweep: expiry is enforced by the reads, and the sweep removes only what no read can answer.
\<close>

theorem sweep_invisible:
  assumes "prisma_table (vs_table store) rows" "table_ok rows d" "sweeper_store self = store"
    and "sweep self now (d, l) = (d', l')" "now \<le> now'"
  shows "vault_get_many store sc ts now' d' = vault_get_many store sc ts now' d
    \<and> vault_session_tokens store sc x now' d' = vault_session_tokens store sc x now' d
    \<and> vault_export_subject store sc x now' d' = vault_export_subject store sc x now' d"
proof (cases "d' = d")
  case False
  let ?keep = "\<lambda>r. case expires_at r of None \<Rightarrow> True | Some e \<Rightarrow> now \<le> e"
  obtain e where e: "repo_sweep_expired (vs_table store) now d = (None, e)" "table_ok rows e" "vault_rows rows e = filter ?keep (vault_rows rows d)"
    using repository_deletes(3) [OF assms(1,2)] by blast
  with sweep_state [of self now d l] assms(3,4) False have d': "d' = e" by simp
  have k: "is_live sc now' r \<Longrightarrow> ?keep r" for r using assms(5) by (auto simp: is_live_def split: option.splits)
  have f: "filter (\<lambda>r. is_live sc now' r \<and> P r) (vault_rows rows d') = filter (\<lambda>r. is_live sc now' r \<and> P r) (vault_rows rows d)" for P
    unfolding d' e(3) by (rule filter_implied) (use k in blast)
  have ok: "table_ok rows d'" using e(2) d' by simp
  show ?thesis
    using f repository_reads [OF assms(1) ok] repository_reads [OF assms(1,2)]
    by (simp add: vault_get_many_rows [OF assms(1) ok] vault_get_many_rows [OF assms(1,2)] vault_session_tokens_def vault_export_subject_def)
qed simp

definition sample_vault :: "record_dict list DatabaseTokenStore" where
  "sample_vault = \<lparr>vs_table = memory_table, vs_cipher = toy_cipher, retention_days = 30\<rparr>"

theorem sweep_invisible_witness:
  "vault_session_tokens sample_vault (row_scope sample_row) ''s'' 20 (fst (sweep \<lparr>sweeper_store = sample_vault, sweeper_lock = (None :: unit CronLock option)\<rparr> 15 (sample_table, ())))
    = vault_session_tokens sample_vault (row_scope sample_row) ''s'' 20 sample_table"
proof -
  obtain d' l' where s: "sweep \<lparr>sweeper_store = sample_vault, sweeper_lock = (None :: unit CronLock option)\<rparr> 15 (sample_table, ()) = (d', l')"
    by (metis surj_pair)
  have "prisma_table (vs_table sample_vault) id" by (simp add: sample_vault_def memory_table_prisma)
  from sweep_invisible [OF this sample_table_ok(1) _ s] s show ?thesis by simp
qed

lemma open_rows_Inr:
  "(\<exists>m. open_rows cipher sc rs = Inr m) \<longleftrightarrow> (\<forall>r \<in> set rs. \<not> is_Raised (vault_unseal cipher (sealed_of r) (token_id r) sc))"
proof -
  have "List.find (\<lambda>(t, r). is_Raised r) (map (\<lambda>r. (token_id r, vault_unseal cipher (sealed_of r) (token_id r) sc)) rs) = None
      \<longleftrightarrow> (\<forall>r \<in> set rs. \<not> is_Raised (vault_unseal cipher (sealed_of r) (token_id r) sc))"
    by (auto simp: find_None_iff)
  then show ?thesis by (auto simp: open_rows_def Let_def split: option.splits)
qed

lemma open_rows_map:
  assumes "distinct (map token_id rs)" "open_rows cipher sc rs = Inr m"
  shows "map_of m t = Some v \<longleftrightarrow> (\<exists>r \<in> set rs. token_id r = t \<and> vault_unseal cipher (sealed_of r) t sc = Inr v)"
proof
  let ?ps = "List.map_filter (\<lambda>(t, r). case r of Inl e \<Rightarrow> None | Inr v \<Rightarrow> Some (t, v))
    (map (\<lambda>r. (token_id r, vault_unseal cipher (sealed_of r) (token_id r) sc)) rs)"
  assume "\<exists>r \<in> set rs. token_id r = t \<and> vault_unseal cipher (sealed_of r) t sc = Inr v"
  then have "(t, v) \<in> set ?ps" by (force simp: List.map_filter_def)
  moreover have "u = u'" if p: "(s, u) \<in> set ?ps" and q: "(s, u') \<in> set ?ps" for s u u'
  proof -
    have in_ps: "\<exists>r \<in> set rs. token_id r = s \<and> vault_unseal cipher (sealed_of r) (token_id r) sc = Inr w" if "(s, w) \<in> set ?ps" for w
      using that by (auto simp: List.map_filter_def split: sum.splits)
    obtain r r' where r: "r \<in> set rs" "token_id r = s" "vault_unseal cipher (sealed_of r) (token_id r) sc = Inr u"
      "r' \<in> set rs" "token_id r' = s" "vault_unseal cipher (sealed_of r') (token_id r') sc = Inr u'"
      using in_ps [OF p] in_ps [OF q] by blast
    then have "r = r'" using assms(1) by (metis distinct_map inj_onD)
    with r show ?thesis by simp
  qed
  moreover have "m = dict_of ?ps" using assms(2) by (auto simp: open_rows_def Let_def split: option.splits)
  ultimately show "map_of m t = Some v" using dict_of_functional [of ?ps t v] by blast
next
  assume "map_of m t = Some v"
  with open_rows_sound [OF assms(2)] show "\<exists>r \<in> set rs. token_id r = t \<and> vault_unseal cipher (sealed_of r) t sc = Inr v" by blast
qed

lemma distinct_vault_rows: "table_ok rows d \<Longrightarrow> distinct (map token_id (vault_rows rows d))"
proof -
  assume ok: "table_ok rows d"
  have "token_id (the (record_to_row r)) = token_of_record r" if "r \<in> set (rows d)" for r
    using written_in [OF ok that] by (auto elim!: written_row simp: token_of_record_def)
  then have "map token_id (vault_rows rows d) = map token_of_record (rows d)"
    using ok by (simp add: table_ok_def vault_rows_def map_filter_written)
  with ok show ?thesis by (simp add: table_ok_def)
qed

lemma open_rows_without:
  assumes dist: "distinct (map token_id (filter P all))" and m: "open_rows cipher sc (filter P all) = Inr m"
    and all: "distinct (map token_id all)"
  shows "\<exists>m'. open_rows cipher sc (filter P (filter (\<lambda>r. \<not> gone r) all)) = Inr m' \<and>
    (\<forall>t. map_of m' t = (if \<exists>r \<in> set all. token_id r = t \<and> gone r then None else map_of m t))"
proof -
  let ?rs = "filter P (filter (\<lambda>r. \<not> gone r) all)"
  have sub: "r \<in> set ?rs \<longleftrightarrow> r \<in> set (filter P all) \<and> \<not> gone r" for r by auto
  have "\<forall>r \<in> set (filter P all). \<not> is_Raised (vault_unseal cipher (sealed_of r) (token_id r) sc)"
    using m open_rows_Inr by blast
  then have "\<forall>r \<in> set ?rs. \<not> is_Raised (vault_unseal cipher (sealed_of r) (token_id r) sc)" using sub by blast
  then obtain m' where m': "open_rows cipher sc ?rs = Inr m'" using open_rows_Inr by blast
  have "distinct (map token_id ?rs)" using all by (simp add: distinct_map_filter)
  note after = open_rows_map [OF this m'] and old = open_rows_map [OF dist m]
  have inj: "r = g" if "r \<in> set all" "g \<in> set all" "token_id r = token_id g" for r g
    using all that unfolding distinct_map inj_on_def by blast
  have "map_of m' t = (if \<exists>r \<in> set all. token_id r = t \<and> gone r then None else map_of m t)" for t
  proof (cases "\<exists>r \<in> set all. token_id r = t \<and> gone r")
    case True
    then obtain g where g: "g \<in> set all" "token_id g = t" "gone g" by blast
    have "map_of m' t \<noteq> Some v" for v
    proof
      assume "map_of m' t = Some v"
      then obtain r where "r \<in> set ?rs" "token_id r = t" unfolding after by blast
      then have "r \<in> set all" "\<not> gone r" by simp_all
      with inj [of r g] g \<open>token_id r = t\<close> show False by simp
    qed
    then have "map_of m' t = None" by (rule option_NoneI)
    with True show ?thesis by simp
  next
    case False
    have "map_of m' t = Some v \<longleftrightarrow> map_of m t = Some v" for v
      unfolding after old using False sub by auto
    then have "map_of m' t = map_of m t" by (rule option_eqI)
    then show ?thesis unfolding if_not_P [OF False] .
  qed
  with m' show ?thesis by blast
qed



end
