(* ===== verification/Vault_Search.thy ===== *)
theory Vault_Search
  imports Vault_Store
begin

text \<open>
  \<open>litellm/pii/vault/search.py\<close>: the paged scan of a scope that decrypts and compares. The Unicode tables
  (canonical decomposition without combining marks, and case folding) are parameters. The loop ends because every page that
  goes on has at least one row, which the candidate cap counts; the database is read, never written, so one
  state serves all pages.
\<close>

definition PAGE_SIZE :: int where "PAGE_SIZE = 1000"

definition DEFAULT_CANDIDATE_CAP :: int where "DEFAULT_CANDIDATE_CAP = 100000"

datatype MatchMode = EXACT | NORMALIZED | SUBSTRING

text \<open>\<open>s.split()\<close>: the maximal runs of characters that are not blanks.\<close>

function py_split :: "string \<Rightarrow> string list" where
  "py_split s =
     (let t = lstrip s in
      if t = [] then [] else takeWhile (\<lambda>c. \<not> is_space c) t # py_split (dropWhile (\<lambda>c. \<not> is_space c) t))"
  by pat_completeness auto
termination
proof (relation "measure length", simp)
  fix s t :: string assume t: "t = lstrip s" "t \<noteq> []"
  then have h: "\<not> is_space (hd t)" unfolding lstrip_def by (metis hd_dropWhile)
  have "length (dropWhile (\<lambda>c. \<not> is_space c) t) < length t"
  proof (cases t)
    case (Cons c r)
    with h have "dropWhile (\<lambda>c. \<not> is_space c) t = dropWhile (\<lambda>c. \<not> is_space c) r" by simp
    with length_dropWhile_le [of "\<lambda>c. \<not> is_space c" r] Cons show ?thesis by simp
  qed (use t in simp)
  also have "length t \<le> length s" using t(1) length_lstrip by simp
  finally show "(dropWhile (\<lambda>c. \<not> is_space c) t, s) \<in> measure length" by simp
qed

declare py_split.simps [simp del]

fun join_spaces :: "string list \<Rightarrow> string" where
  "join_spaces [] = []"
| "join_spaces [w] = w"
| "join_spaces (w # ws) = w @ '' '' @ join_spaces ws"

record UnicodeTables =
  unmarked :: "string \<Rightarrow> string"
  casefold :: "string \<Rightarrow> string"

definition normalize :: "UnicodeTables \<Rightarrow> string \<Rightarrow> string" where
  "normalize u t = join_spaces (py_split (casefold u (unmarked u t)))"

fun match_value :: "UnicodeTables \<Rightarrow> string \<Rightarrow> string \<Rightarrow> string \<Rightarrow> MatchMode \<Rightarrow> bool" where
  "match_value u v query normalized_query EXACT = (v = query)"
| "match_value u v query normalized_query NORMALIZED = (normalize u v = normalized_query)"
| "match_value u v query normalized_query SUBSTRING = contains (normalize u v) normalized_query"

record SearchHit =
  hit_token :: string
  hit_entity_type :: string
  hit_session_id :: "string option"
  hit_subject_id :: "string option"

record SearchResult =
  result_hits :: "SearchHit list"
  result_scanned :: int

text \<open>\<open>PiiSearchIndex\<close> and the index that stores nothing.\<close>

record PiiSearchIndex =
  index_terms :: "VaultScope \<Rightarrow> string \<Rightarrow> string \<Rightarrow> string list"
  query_terms :: "VaultScope \<Rightarrow> string \<Rightarrow> string \<Rightarrow> string list"

definition NullSearchIndex :: PiiSearchIndex where
  "NullSearchIndex = \<lparr>index_terms = (\<lambda>scope entity plaintext. []), query_terms = (\<lambda>scope entity query. [])\<rparr>"

definition hit_of :: "VaultRow \<Rightarrow> SearchHit" where
  "hit_of row = \<lparr>hit_token = token_id row, hit_entity_type = row_entity_type row,
     hit_session_id = row_session_id row, hit_subject_id = subject_id row\<rparr>"

definition hits_in ::
  "UnicodeTables \<Rightarrow> aes_decrypt \<Rightarrow> VaultRow list \<Rightarrow> (int, bytes) dict \<Rightarrow> VaultScope \<Rightarrow> string \<Rightarrow> string \<Rightarrow> MatchMode
   \<Rightarrow> pii_error + SearchHit list" where
  "hits_in u aes_decrypt rs keys scope query normalized_query mode =
     (let opened = List.map_filter (\<lambda>r. map_option
            (\<lambda>key. (r, open_sealed aes_decrypt key (sealed_of r) (token_id r) scope)) (map_of keys (key_version r))) rs
      in case List.find (\<lambda>(r, v). is_Raised v) opened of
           Some (r, v) \<Rightarrow> Inl (projl v)
         | None \<Rightarrow> Inr (List.map_filter (\<lambda>(r, v). case v of
               Inl e \<Rightarrow> None
             | Inr x \<Rightarrow> if match_value u x query normalized_query mode then Some (hit_of r) else None) opened))"

record 'd VaultSearch =
  sr_table :: "'d VaultTable"
  sr_cipher :: VaultCipher
  candidate_cap :: int
  page_size :: int

definition keys_for :: "VaultCipher \<Rightarrow> VaultScope \<Rightarrow> VaultRow list \<Rightarrow> pii_error + (int, bytes) dict" where
  "keys_for cipher scope rs =
     (let versions = sort (dedupe (map key_version rs));
          fetched = map (\<lambda>v. (v, checked_key cipher scope v)) versions
      in case List.find (\<lambda>(v, key). isl key) fetched of
           Some (v, key) \<Rightarrow> Inl (projl key)
         | None \<Rightarrow> Inr (map (\<lambda>(v, key). (v, projr key)) fetched))"

record SearchPage =
  page_hits :: "SearchHit list"
  page_cursor :: "string option"
  page_count :: int

definition search_page ::
  "UnicodeTables \<Rightarrow> 'd VaultSearch \<Rightarrow> VaultScope \<Rightarrow> string \<Rightarrow> string \<Rightarrow> MatchMode \<Rightarrow> string option \<Rightarrow> string option \<Rightarrow> int
   \<Rightarrow> string option \<Rightarrow> 'd \<Rightarrow> pii_error + SearchPage" where
  "search_page u self scope query normalized_query mode entity subject now cursor d =
     (case guarded_read (repo_scan (sr_table self) scope now (page_size self) entity subject cursor d) ''search'' of
        Inl err \<Rightarrow> Inl err
      | Inr rs \<Rightarrow>
          if rs = [] then Inr \<lparr>page_hits = [], page_cursor = None, page_count = 0\<rparr>
          else (case keys_for (sr_cipher self) scope rs of
              Inl err \<Rightarrow> Inl err
            | Inr keys \<Rightarrow>
                (case hits_in u (vc_decrypt (sr_cipher self)) rs keys scope query normalized_query mode of
                   Inl err \<Rightarrow> Inl err
                 | Inr hits \<Rightarrow>
                     Inr \<lparr>page_hits = hits, page_cursor = Some (token_id (last rs)), page_count = int (length rs)\<rparr>)))"

lemma search_page_count:
  "search_page u self scope q nq mode entity subject now cursor d = Inr p \<Longrightarrow> page_cursor p = Some c \<Longrightarrow> 1 \<le> page_count p"
proof -
  assume "search_page u self scope q nq mode entity subject now cursor d = Inr p" "page_cursor p = Some c"
  then obtain rs :: "VaultRow list" where "rs \<noteq> []" "page_count p = int (length rs)"
    by (auto simp: search_page_def split: sum.splits if_splits)
  then show ?thesis by (cases rs) auto
qed

text \<open>The walk: a page at a time, from a cursor, with the rows scanned and the hits found so far.\<close>

function search_loop ::
  "UnicodeTables \<Rightarrow> 'd VaultSearch \<Rightarrow> VaultScope \<Rightarrow> string \<Rightarrow> string \<Rightarrow> MatchMode \<Rightarrow> string option \<Rightarrow> string option \<Rightarrow> int
   \<Rightarrow> 'd \<Rightarrow> string option \<Rightarrow> int \<Rightarrow> SearchHit list \<Rightarrow> pii_error + SearchResult" where
  "search_loop u self scope query nq mode entity subject now d cursor scanned hits =
     (case search_page u self scope query nq mode entity subject now cursor d of
        Inl err \<Rightarrow> Inl err
      | Inr page \<Rightarrow>
          (case page_cursor page of
             None \<Rightarrow> Inr \<lparr>result_hits = hits, result_scanned = scanned\<rparr>
           | Some c \<Rightarrow>
               if candidate_cap self < scanned + page_count page
               then Inl (SearchRefused (scanned + page_count page) (candidate_cap self))
               else search_loop u self scope query nq mode entity subject now d (Some c) (scanned + page_count page)
                      (hits @ page_hits page)))"
  by pat_completeness auto
termination
  by (relation "measure (\<lambda>(u, self, scope, query, nq, mode, entity, subject, now, d, cursor, scanned, hits).
      nat (candidate_cap self + 1 - scanned))")
     (auto dest: search_page_count)

declare search_loop.simps [simp del]

definition search ::
  "UnicodeTables \<Rightarrow> 'd VaultSearch \<Rightarrow> VaultScope \<Rightarrow> string \<Rightarrow> MatchMode \<Rightarrow> string option \<Rightarrow> string option \<Rightarrow> int \<Rightarrow> 'd
   \<Rightarrow> pii_error + SearchResult" where
  "search u self scope query mode entity subject now d =
     search_loop u self scope query (normalize u query) mode entity subject now d None 0 []"

section \<open>One page\<close>

text \<open>The reference: a row matches if its value opens in the scope and compares.\<close>

definition row_matches :: "UnicodeTables \<Rightarrow> VaultCipher \<Rightarrow> VaultScope \<Rightarrow> string \<Rightarrow> string \<Rightarrow> MatchMode \<Rightarrow> VaultRow \<Rightarrow> bool" where
  "row_matches u cipher scope query nq mode r =
     (case vault_unseal cipher (sealed_of r) (token_id r) scope of
        Inl e \<Rightarrow> False | Inr v \<Rightarrow> match_value u v query nq mode)"

definition row_readable :: "VaultCipher \<Rightarrow> VaultScope \<Rightarrow> VaultRow \<Rightarrow> bool" where
  "row_readable cipher scope r \<longleftrightarrow> \<not> isl (checked_key cipher scope (key_version r))
     \<and> \<not> is_Raised (vault_unseal cipher (sealed_of r) (token_id r) scope)"

lemma keys_for_readable:
  assumes "\<forall>r \<in> set rs. \<not> isl (checked_key cipher scope (key_version r))"
  shows "\<exists>keys. keys_for cipher scope rs = Inr keys \<and> (\<forall>r \<in> set rs. map_of keys (key_version r) = Some (projr (checked_key cipher scope (key_version r))))"
proof -
  let ?vs = "sort (dedupe (map key_version rs))"
  have s: "set ?vs = key_version ` set rs" by simp
  have "List.find (\<lambda>(v, key). isl key) (map (\<lambda>v. (v, checked_key cipher scope v)) ?vs) = None"
    using assms s by (auto simp: find_None_iff)
  then have "keys_for cipher scope rs = Inr (map (\<lambda>v. (v, projr (checked_key cipher scope v))) ?vs)"
    by (simp add: keys_for_def comp_def)
  moreover have "map_of (map (\<lambda>v. (v, projr (checked_key cipher scope v))) ?vs) (key_version r) = Some (projr (checked_key cipher scope (key_version r)))"
    if "r \<in> set rs" for r
    using that s by (simp add: map_of_map_restrict)
  ultimately show ?thesis by blast
qed

lemma hits_in_readable:
  assumes "\<forall>r \<in> set rs. row_readable cipher scope r"
    and "\<forall>r \<in> set rs. map_of keys (key_version r) = Some (projr (checked_key cipher scope (key_version r)))"
  shows "hits_in u (vc_decrypt cipher) rs keys scope q nq mode = Inr (map hit_of (filter (row_matches u cipher scope q nq mode) rs))"
proof -
  have o: "open_sealed (vc_decrypt cipher) (projr (checked_key cipher scope (key_version r))) (sealed_of r) (token_id r) scope
      = vault_unseal cipher (sealed_of r) (token_id r) scope" if "r \<in> set rs" for r
    using assms(1) that by (auto simp: row_readable_def vault_unseal_def sealed_of_def split: sum.splits)
  have op: "List.map_filter (\<lambda>r. map_option (\<lambda>key. (r, open_sealed (vc_decrypt cipher) key (sealed_of r) (token_id r) scope)) (map_of keys (key_version r))) rs
      = map (\<lambda>r. (r, vault_unseal cipher (sealed_of r) (token_id r) scope)) rs"
    using assms(2) o by (induction rs) (simp_all add: List.map_filter_simps)
  have nr: "List.find (\<lambda>(r, v). is_Raised v) (map (\<lambda>r. (r, vault_unseal cipher (sealed_of r) (token_id r) scope)) rs) = None"
    using assms(1) by (auto simp: find_None_iff row_readable_def)
  have "List.map_filter (\<lambda>(r, v). case v of Inl e \<Rightarrow> None | Inr x \<Rightarrow> if match_value u x q nq mode then Some (hit_of r) else None)
      (map (\<lambda>r. (r, vault_unseal cipher (sealed_of r) (token_id r) scope)) rs) = map hit_of (filter (row_matches u cipher scope q nq mode) rs)"
    by (induction rs) (auto simp: List.map_filter_simps row_matches_def split: sum.splits)
  then show ?thesis by (simp add: hits_in_def op nr)
qed

section \<open>The walk is the filter\<close>

text \<open>The candidates of a search: the live rows that pass the metadata filters, in token order.\<close>

definition candidates :: "VaultScope \<Rightarrow> int \<Rightarrow> string option \<Rightarrow> string option \<Rightarrow> VaultRow list \<Rightarrow> VaultRow list" where
  "candidates scope now entity subject rs =
     sort_key token_id (filter (\<lambda>r. is_live scope now r \<and> passes entity subject None r) rs)"

lemma filter_after_nth:
  assumes "sorted_wrt (\<lambda>a b. f a < f b) xs" "i < length xs"
  shows "filter (\<lambda>r. f (xs ! i) < (f r :: 'b :: linorder)) xs = drop (Suc i) xs"
proof -
  have "filter (\<lambda>r. f (xs ! i) < f r) (take (Suc i) xs) = []"
  proof (rule filter_False, rule ballI)
    fix r assume "r \<in> set (take (Suc i) xs)"
    then obtain j where j: "j \<le> i" "j < length xs" "r = xs ! j" by (auto simp: in_set_conv_nth less_Suc_eq_le)
    show "\<not> f (xs ! i) < f r"
    proof (cases "j = i")
      case False
      with j assms(2) have "f (xs ! j) < f (xs ! i)" by (intro sorted_wrt_nth_less [OF assms(1)]) auto
      with j show ?thesis by simp
    qed (use j in simp)
  qed
  moreover have "filter (\<lambda>r. f (xs ! i) < f r) (drop (Suc i) xs) = drop (Suc i) xs"
  proof (rule filter_True, rule ballI)
    fix r assume "r \<in> set (drop (Suc i) xs)"
    then obtain k where k: "k < length xs - Suc i" "r = xs ! (Suc i + k)" by (auto simp: in_set_conv_nth)
    have "f (xs ! i) < f (xs ! (Suc i + k))" by (rule sorted_wrt_nth_less [OF assms(1)]) (use k in auto)
    then show "f (xs ! i) < f r" using k by simp
  qed
  ultimately show ?thesis by (metis append_take_drop_id filter_append self_append_conv2)
qed

lemma candidates_sorted:
  assumes "distinct (map token_id rs)"
  shows "sorted_wrt (\<lambda>a b. token_id a < token_id b) (candidates scope now entity subject rs)"
proof -
  let ?cs = "candidates scope now entity subject rs"
  have "sorted (map token_id ?cs)" by (simp add: candidates_def)
  moreover have "distinct (map token_id ?cs)"
    using assms by (simp add: candidates_def distinct_map inj_on_def)
  ultimately have "sorted_wrt (<) (map token_id ?cs)" by (simp add: strict_sorted_iff)
  then show ?thesis by (simp add: sorted_wrt_map)
qed

lemma scan_page:
  assumes "prisma_table (sr_table self) rows" "table_ok rows d" "\<forall>r \<in> set (vault_rows rows d). token_id r \<noteq> []"
    and "cs = candidates scope now entity subject (vault_rows rows d)" "j \<le> length cs"
    and "cursor = (if j = 0 then None else Some (token_id (cs ! (j - 1))))"
  shows "repo_scan (sr_table self) scope now n entity subject cursor d = Inr (take (nat n) (drop j cs))"
proof (cases "j = 0")
  case True
  then show ?thesis using repository_reads(4) [OF assms(1,2)] assms(4,6) by (simp add: candidates_def)
next
  case False
  let ?c = "token_id (cs ! (j - 1))"
  have "cs ! (j - 1) \<in> set cs" using False assms(5) by simp
  then have "cs ! (j - 1) \<in> set (vault_rows rows d)" unfolding assms(4) candidates_def by auto
  then have c: "?c \<noteq> []" using assms(3) by blast
  have "filter (\<lambda>r. is_live scope now r \<and> passes entity subject cursor r) (vault_rows rows d)
      = filter (\<lambda>r. ?c < token_id r) (filter (\<lambda>r. is_live scope now r \<and> passes entity subject None r) (vault_rows rows d))"
    unfolding filter_filter by (rule filter_cong) (use False c assms(6) in \<open>auto simp: passes_def is_empty_str_def\<close>)
  then have "sort_key token_id (filter (\<lambda>r. is_live scope now r \<and> passes entity subject cursor r) (vault_rows rows d))
      = filter (\<lambda>r. ?c < token_id r) cs"
    by (simp only: filter_sort [symmetric] candidates_def assms(4))
  also have "\<dots> = drop (Suc (j - 1)) cs"
    using False assms(5) by (intro filter_after_nth) (simp_all add: assms(4) candidates_sorted distinct_vault_rows [OF assms(2)])
  finally show ?thesis using False repository_reads(4) [OF assms(1,2)] by simp
qed

lemma search_page_exact:
  assumes "prisma_table (sr_table self) rows" "table_ok rows d" "\<forall>r \<in> set (vault_rows rows d). token_id r \<noteq> []"
    and cs: "cs = candidates scope now entity subject (vault_rows rows d)" and "j \<le> length cs"
    and "cursor = (if j = 0 then None else Some (token_id (cs ! (j - 1))))"
    and readable: "\<forall>r \<in> set cs. row_readable (sr_cipher self) scope r" and n: "n = nat (page_size self)"
  shows "search_page u self scope q nq mode entity subject now cursor d =
    (if take n (drop j cs) = [] then Inr \<lparr>page_hits = [], page_cursor = None, page_count = 0\<rparr>
     else Inr \<lparr>page_hits = map hit_of (filter (row_matches u (sr_cipher self) scope q nq mode) (take n (drop j cs))),
               page_cursor = Some (token_id (last (take n (drop j cs)))), page_count = int (length (take n (drop j cs)))\<rparr>)"
proof -
  let ?rs = "take n (drop j cs)"
  have sub: "\<forall>r \<in> set ?rs. row_readable (sr_cipher self) scope r" using readable by (auto dest!: in_set_takeD in_set_dropD)
  then have "\<forall>r \<in> set ?rs. \<not> isl (checked_key (sr_cipher self) scope (key_version r))" by (simp add: row_readable_def)
  then obtain keys where k: "keys_for (sr_cipher self) scope ?rs = Inr keys"
    "\<forall>r \<in> set ?rs. map_of keys (key_version r) = Some (projr (checked_key (sr_cipher self) scope (key_version r)))"
    using keys_for_readable by blast
  note h = hits_in_readable [OF sub k(2)]
  have "repo_scan (sr_table self) scope now (page_size self) entity subject cursor d = Inr ?rs"
    unfolding n by (rule scan_page [OF assms(1-6)])
  then show ?thesis using k(1) h by (simp add: search_page_def guarded_read_def)
qed

lemma search_loop_exact:
  assumes env: "prisma_table (sr_table self) rows" "table_ok rows d" "\<forall>r \<in> set (vault_rows rows d). token_id r \<noteq> []"
    and cs: "cs = candidates scope now entity subject (vault_rows rows d)"
    and readable: "\<forall>r \<in> set cs. row_readable (sr_cipher self) scope r" and p: "1 \<le> page_size self"
    and M: "M = row_matches u (sr_cipher self) scope q nq mode"
    and j: "j \<le> length cs" "int j \<le> candidate_cap self" "cursor = (if j = 0 then None else Some (token_id (cs ! (j - 1))))"
    and r: "r = search_loop u self scope q nq mode entity subject now d cursor (int j) (map hit_of (filter M (take j cs)))"
  shows "if int (length cs) \<le> candidate_cap self
    then r = Inr \<lparr>result_hits = map hit_of (filter M cs), result_scanned = int (length cs)\<rparr>
    else \<exists>n. candidate_cap self < n \<and> n \<le> int (length cs) \<and> r = Inl (SearchRefused n (candidate_cap self))"
  using j r
proof (induction "length cs - j" arbitrary: j cursor rule: less_induct)
  case less
  let ?n = "nat (page_size self)" and ?rs = "take (nat (page_size self)) (drop j cs)"
  note page = search_page_exact [OF env cs less.prems(1,3) readable refl, of u q nq mode, folded M]
  show ?case
  proof (cases "j = length cs")
    case True
    then have "search_loop u self scope q nq mode entity subject now d cursor (int j) (map hit_of (filter M (take j cs)))
        = Inr \<lparr>result_hits = map hit_of (filter M cs), result_scanned = int (length cs)\<rparr>"
      using page by (subst search_loop.simps) simp
    with True less.prems(2,4) show ?thesis by simp
  next
    case False
    define j' where "j' = j + length ?rs"
    have ne: "?rs \<noteq> []" and j': "j < j'" "j' \<le> length cs" using False less.prems(1) p by (auto simp: j'_def)
    have take_j': "take j' cs = take j cs @ ?rs" unfolding j'_def take_add by (cases "?n \<le> length (drop j cs)") simp_all
    have last: "last ?rs = cs ! (j' - 1)"
    proof -
      have "take j' cs \<noteq> []" using j' by auto
      then have "last (take j' cs) = take j' cs ! (j' - 1)" using j' by (simp add: last_conv_nth)
      then have "last (take j' cs) = cs ! (j' - 1)" using j' by simp
      with take_j' ne show ?thesis by simp
    qed
    have step: "search_loop u self scope q nq mode entity subject now d cursor (int j) (map hit_of (filter M (take j cs)))
        = (if candidate_cap self < int j' then Inl (SearchRefused (int j') (candidate_cap self))
           else search_loop u self scope q nq mode entity subject now d (Some (token_id (cs ! (j' - 1)))) (int j')
             (map hit_of (filter M (take j' cs))))"
    proof -
      have c: "int j + int (length ?rs) = int j'" by (simp add: j'_def)
      show ?thesis
        unfolding take_j' by (subst search_loop.simps) (use ne page last c in \<open>simp del: length_take take_eq_Nil of_nat_add\<close>)
    qed
    show ?thesis
    proof (cases "candidate_cap self < int j'")
      case True
      with step less.prems(4) j' show ?thesis by auto
    next
      case False
      have "r = search_loop u self scope q nq mode entity subject now d (Some (token_id (cs ! (j' - 1)))) (int j') (map hit_of (filter M (take j' cs)))"
        using step False less.prems(4) by simp
      moreover have "Some (token_id (cs ! (j' - 1))) = (if j' = 0 then None else Some (token_id (cs ! (j' - 1))))" using j' by simp
      ultimately show ?thesis using j' False less.prems(1) by (intro less.hyps [of j']) auto
    qed
  qed
qed

text \<open>
  C15: The paged search is the filter of the scope. Over rows that can be read, with a positive page size
  and tokens that are not empty, the walk ends and answers what decrypting and comparing every live row of the scope
  that passes the metadata filters would: exactly the matching rows, in token order, with the number of rows looked
  at, however the pages fall. A scope with more rows than the cap is refused with a count above the cap, and
  never answered in part.
\<close>

theorem search_exact:
  assumes "prisma_table (sr_table self) rows" "table_ok rows d" "\<forall>r \<in> set (vault_rows rows d). token_id r \<noteq> []"
    and "cs = candidates scope now entity subject (vault_rows rows d)"
    and "\<forall>r \<in> set cs. row_readable (sr_cipher self) scope r" "1 \<le> page_size self" "0 \<le> candidate_cap self"
  shows "if int (length cs) \<le> candidate_cap self
    then search u self scope query mode entity subject now d =
      Inr \<lparr>result_hits = map hit_of (filter (row_matches u (sr_cipher self) scope query (normalize u query) mode) cs),
           result_scanned = int (length cs)\<rparr>
    else \<exists>n. candidate_cap self < n \<and> n \<le> int (length cs) \<and>
      search u self scope query mode entity subject now d = Inl (SearchRefused n (candidate_cap self))"
  using search_loop_exact [OF assms(1-6) refl, of 0 None] assms(7) by (simp add: search_def)

definition search_row :: VaultRow where
  "search_row = sample_row\<lparr>ciphertext := sv_ciphertext (projr (fst (vault_seal toy_cipher ''Zoe'' ''<PERSON:ab>'' (row_scope sample_row) 0)))\<rparr>"

lemma search_row_fields [simp]:
  "token_id search_row = ''<PERSON:ab>''" "row_entity_type search_row = ''PERSON''" "row_session_id search_row = Some ''s''"
  "subject_id search_row = None" "row_scope search_row = row_scope sample_row" "expires_at search_row = Some 9"
  "key_version search_row = 1" "created_at search_row = Some 0"
  by (simp_all add: search_row_def sample_row_def)

definition search_table :: "record_dict list" where
  "search_table = [row_to_record search_row @ [(''created_at'', PTime 0)]]"

lemma search_table_ok: "table_ok id search_table" "vault_rows id search_table = [search_row]"
  by (auto simp: table_ok_def search_table_def written_def vault_rows_def record_roundtrip List.map_filter_simps)

lemma search_row_opens: "vault_unseal toy_cipher (sealed_of search_row) (token_id search_row) (row_scope search_row) = Inr ''Zoe''"
proof -
  obtain s k' where s: "vault_seal toy_cipher ''Zoe'' ''<PERSON:ab>'' (row_scope sample_row) 0 = (Inr s, k')" "sv_key_version s = 1"
    by (simp add: vault_seal_def toy_cipher_laws Let_def) (simp add: toy_cipher_def DerivedKeyProvider_def)
  then have "sv_ciphertext s = ciphertext search_row" by (simp add: search_row_def)
  with s(2) have "sealed_of search_row = s" by (simp add: sealed_of_def)
  then show ?thesis using vault_unseal_sealed [OF toy_cipher_laws(1,2) s(1)] by simp
qed

definition sample_search :: "record_dict list VaultSearch" where
  "sample_search = \<lparr>sr_table = memory_table, sr_cipher = toy_cipher, candidate_cap = 5, page_size = 1\<rparr>"

theorem search_exact_witness:
  "search \<lparr>unmarked = id, casefold = id\<rparr> sample_search (row_scope sample_row) ''Zoe'' EXACT None None 5 search_table
    = Inr \<lparr>result_hits = [\<lparr>hit_token = ''<PERSON:ab>'', hit_entity_type = ''PERSON'', hit_session_id = Some ''s'', hit_subject_id = None\<rparr>],
           result_scanned = 1\<rparr>"
proof -
  let ?u = "\<lparr>unmarked = id, casefold = id\<rparr>"
  have cs: "candidates (row_scope sample_row) 5 None None (vault_rows id search_table) = [search_row]"
    by (simp add: candidates_def search_table_ok is_live_def passes_def is_empty_str_def)
  note opens = search_row_opens [simplified]
  have r: "\<forall>r \<in> set [search_row]. row_readable (sr_cipher sample_search) (row_scope sample_row) r"
    by (simp add: row_readable_def sample_search_def opens toy_cipher_laws is_Raised_def)
  have m: "row_matches ?u (sr_cipher sample_search) (row_scope sample_row) ''Zoe'' nq EXACT search_row" for nq
    by (simp add: row_matches_def sample_search_def opens)
  have p: "prisma_table (sr_table sample_search) id" "1 \<le> page_size sample_search" "0 \<le> candidate_cap sample_search"
    "int (length [search_row]) \<le> candidate_cap sample_search"
    by (simp_all add: sample_search_def memory_table_prisma)
  have ne: "\<forall>r \<in> set (vault_rows id search_table). token_id r \<noteq> []" by (simp add: search_table_ok)
  note exact = search_exact [OF p(1) search_table_ok(1) ne cs [symmetric] r p(2,3), of ?u "''Zoe''" EXACT]
  have "search ?u sample_search (row_scope sample_row) ''Zoe'' EXACT None None 5 search_table =
      Inr \<lparr>result_hits = map hit_of (filter (row_matches ?u (sr_cipher sample_search) (row_scope sample_row) ''Zoe'' (normalize ?u ''Zoe'') EXACT) [search_row]),
           result_scanned = int (length [search_row])\<rparr>"
    using exact unfolding if_P [OF p(4)] .
  then show ?thesis by (simp only: filter.simps m if_True list.map hit_of_def search_row_fields list.size) (simp add: sample_row_def)
qed

end
