(* ===== verification/Vault_Service.thy ===== *)
theory Vault_Service
  imports Service Config Vault_Search
begin

text \<open>
  \<open>litellm/pii/vault/service.py\<close> and \<open>config.py\<close>: the persistent path, which encodes with the same detection and
  tokens as \<open>Service\<close> and keeps the values in the vault, and the assembly of the vault from the environment. The
  round trip of the whole path closes the theory. The table that Prisma gives is a parameter.
\<close>

record DecodedBatch =
  dec_texts :: "string list"
  dec_resolved :: nat

record ('w, 'd) VaultService =
  vsv_pii :: "'w PiiService"
  vsv_store :: "'d DatabaseTokenStore"

definition mint_requests :: "BatchDraft \<Rightarrow> MintRequest list" where
  "mint_requests drafted = List.map_filter
     (\<lambda>issued. map_option (\<lambda>v. \<lparr>mr_token = issued_token issued, mr_entity_type = issued_entity issued, mr_value = v\<rparr>)
        (map_of (draft_mapping drafted) (issued_token issued))) (draft_tokens drafted)"

definition vault_encode ::
  "('w, 'd) VaultService \<Rightarrow> string list \<Rightarrow> VaultScope \<Rightarrow> string \<Rightarrow> string option \<Rightarrow> string option \<Rightarrow> string \<Rightarrow> string list option
   \<Rightarrow> int \<Rightarrow> 'd \<times> draws \<Rightarrow> (pii_error + EncodedBatch) \<times> ('d \<times> draws)" where
  "vault_encode self texts scope session subject creator language entities now w =
     (case svc_draft (vsv_pii self) texts language entities None (snd w) of
        (Inl err, k) \<Rightarrow> (Inl err, (fst w, k))
      | (Inr drafted, k) \<Rightarrow>
          (case vault_put_many (vsv_store self) scope session (mint_requests (db_draft drafted)) subject creator now (fst w, k) of
             (Some err, w') \<Rightarrow> (Inl err, w')
           | (None, w') \<Rightarrow>
               (Inr \<lparr>eb_texts = draft_texts (db_draft drafted), eb_tokens = draft_tokens (db_draft drafted),
                     eb_session_id = session, eb_spans_by_text = db_spans_by_text drafted,
                     eb_placements = draft_placements (db_draft drafted),
                     eb_ner_stage_ran = db_ner_stage_ran drafted\<rparr>, w')))"

definition vault_decode ::
  "('w, 'd) VaultService \<Rightarrow> string list \<Rightarrow> VaultScope \<Rightarrow> int \<Rightarrow> 'd \<Rightarrow> pii_error + DecodedBatch" where
  "vault_decode self texts scope now d =
     (let candidates = py_sorted id (canonical_tokens texts) in
      if candidates = [] then Inr \<lparr>dec_texts = texts, dec_resolved = 0\<rparr>
      else
        (let recovered = self_contained (vsv_pii self) candidates;
             deferred = filter (\<lambda>t. map_of recovered t = None) candidates
         in case vault_get_many (vsv_store self) scope deferred now d of
              Inl err \<Rightarrow> Inl err
            | Inr stored \<Rightarrow>
                (let resolved = dict_update recovered stored
                 in Inr \<lparr>dec_texts = map (\<lambda>t. decode_text t resolved) texts, dec_resolved = length resolved\<rparr>)))"

definition vsv_session_tokens :: "('w, 'd) VaultService \<Rightarrow> VaultScope \<Rightarrow> string \<Rightarrow> int \<Rightarrow> 'd \<Rightarrow> pii_error + VaultRow list" where
  "vsv_session_tokens self scope session now d = vault_session_tokens (vsv_store self) scope session now d"

definition vsv_revoke_session :: "('w, 'd) VaultService \<Rightarrow> VaultScope \<Rightarrow> string \<Rightarrow> 'd \<Rightarrow> pii_error option \<times> 'd" where
  "vsv_revoke_session self scope session d = vault_revoke_session (vsv_store self) scope session d"

definition vsv_revoke_subject :: "('w, 'd) VaultService \<Rightarrow> VaultScope \<Rightarrow> string \<Rightarrow> 'd \<Rightarrow> pii_error option \<times> 'd" where
  "vsv_revoke_subject self scope subject d = vault_revoke_subject (vsv_store self) scope subject d"

definition vsv_export_subject :: "('w, 'd) VaultService \<Rightarrow> VaultScope \<Rightarrow> string \<Rightarrow> int \<Rightarrow> 'd \<Rightarrow> pii_error + (string, string) dict" where
  "vsv_export_subject self scope subject now d = vault_export_subject (vsv_store self) scope subject now d"

section \<open>Configuration\<close>

definition ENV_VAULT_ENABLED :: string where "ENV_VAULT_ENABLED = ''LITELLM_PII_VAULT_ENABLED''"
definition ENV_RETENTION_DAYS :: string where "ENV_RETENTION_DAYS = ''LITELLM_PII_RETENTION_DAYS''"
definition ENV_KEY_VERSION :: string where "ENV_KEY_VERSION = ''LITELLM_PII_KEY_VERSION''"
definition ENV_DEFAULT_SCOPE :: string where "ENV_DEFAULT_SCOPE = ''LITELLM_PII_VAULT_SCOPE''"
definition ENV_SALT_KEY :: string where "ENV_SALT_KEY = ''LITELLM_SALT_KEY''"
definition ENV_CANDIDATE_CAP :: string where "ENV_CANDIDATE_CAP = ''LITELLM_PII_SEARCH_CANDIDATE_CAP''"

definition TRUTHY :: "string list" where "TRUTHY = [''1'', ''true'', ''yes'', ''on'']"

definition vault_int_from_env :: "(string \<Rightarrow> string option) \<Rightarrow> string \<Rightarrow> int \<Rightarrow> int" where
  "vault_int_from_env getenv name fallback =
     (case getenv name of
        None \<Rightarrow> fallback
      | Some raw \<Rightarrow> (case py_int raw of None \<Rightarrow> fallback | Some n \<Rightarrow> n))"

definition scope_from_env :: "(string \<Rightarrow> string option) \<Rightarrow> VaultScopeType" where
  "scope_from_env getenv =
     (case VaultScopeType_of (getenv_or getenv ENV_DEFAULT_SCOPE (VaultScopeType_value KEY)) of None \<Rightarrow> KEY | Some t \<Rightarrow> t)"

record VaultSettings =
  vault_enabled :: bool
  vault_retention_days :: int
  vault_key_version :: int
  vault_default_scope :: VaultScopeType
  vault_candidate_cap :: int

definition vault_settings_from_env :: "(string \<Rightarrow> string option) \<Rightarrow> VaultSettings" where
  "vault_settings_from_env getenv =
     \<lparr>vault_enabled = (str_lower (strip (getenv_or getenv ENV_VAULT_ENABLED [])) \<in> set TRUTHY),
      vault_retention_days = vault_int_from_env getenv ENV_RETENTION_DAYS DEFAULT_RETENTION_DAYS,
      vault_key_version = vault_int_from_env getenv ENV_KEY_VERSION DEFAULT_KEY_VERSION,
      vault_default_scope = scope_from_env getenv,
      vault_candidate_cap = vault_int_from_env getenv ENV_CANDIDATE_CAP DEFAULT_CANDIDATE_CAP\<rparr>"

text \<open>The proxy's \<open>master_key\<close> is an argument.\<close>

definition vault_secret :: "(string \<Rightarrow> string option) \<Rightarrow> string option \<Rightarrow> string" where
  "vault_secret getenv master_key =
     (if \<not> is_empty_str (getenv ENV_SALT_KEY) then the (getenv ENV_SALT_KEY)
      else if \<not> is_empty_str master_key then the master_key else [])"

definition build_vault_store ::
  "Externals \<Rightarrow> hkdf \<Rightarrow> string option \<Rightarrow> 'd PrismaTableActions option \<Rightarrow> VaultSettings option \<Rightarrow> string option
   \<Rightarrow> 'd DatabaseTokenStore option" where
  "build_vault_store ext hkdf master_key prisma_client settings secret =
     (let resolved = (case settings of None \<Rightarrow> vault_settings_from_env (ext_getenv ext) | Some s \<Rightarrow> s) in
      if \<not> vault_enabled resolved then None
      else (case prisma_client of
          None \<Rightarrow> None
        | Some actions \<Rightarrow>
            Some \<lparr>vs_table = PrismaVaultTable actions,
              vs_cipher = \<lparr>vc_keys = DerivedKeyProvider hkdf
                  (case secret of Some s \<Rightarrow> s | None \<Rightarrow> vault_secret (ext_getenv ext) master_key) (vault_key_version resolved),
                vc_urandom = ext_urandom ext, vc_encrypt = ext_encrypt ext, vc_decrypt = ext_decrypt ext\<rparr>,
              retention_days = vault_retention_days resolved\<rparr>))"

definition build_vault ::
  "Externals \<Rightarrow> hkdf \<Rightarrow> string option \<Rightarrow> 'd PrismaTableActions option \<Rightarrow> 'w PiiService \<Rightarrow> VaultSettings option \<Rightarrow> string option
   \<Rightarrow> ('w, 'd) VaultService option" where
  "build_vault ext hkdf master_key prisma_client pii settings secret =
     map_option (\<lambda>store. \<lparr>vsv_pii = pii, vsv_store = store\<rparr>) (build_vault_store ext hkdf master_key prisma_client settings secret)"

definition build_search ::
  "Externals \<Rightarrow> hkdf \<Rightarrow> string option \<Rightarrow> 'd PrismaTableActions option \<Rightarrow> VaultSettings option \<Rightarrow> string option \<Rightarrow> 'd VaultSearch option" where
  "build_search ext hkdf master_key prisma_client settings secret =
     (let resolved = (case settings of None \<Rightarrow> vault_settings_from_env (ext_getenv ext) | Some s \<Rightarrow> s) in
      map_option (\<lambda>store. \<lparr>sr_table = vs_table store, sr_cipher = vs_cipher store,
          candidate_cap = vault_candidate_cap resolved, page_size = PAGE_SIZE\<rparr>)
        (build_vault_store ext hkdf master_key prisma_client (Some resolved) secret))"

section \<open>What is stored is what the draft maps\<close>

lemma draft_mapping_issued:
  assumes "encode_batch texts sbt codec is_rev k = (Inr draft, k')" "map_of (draft_mapping draft) t = Some v"
  shows "t \<in> issued_token ` set (draft_tokens draft)"
proof (cases "locate sbt = []")
  case True
  with assms show ?thesis by (auto simp: encode_batch_def)
next
  case False
  obtain st k1 where f: "fold (assign texts codec (canonical_tokens texts)) (locate sbt) (empty_assignment, k) = (st, k1)" by fastforce
  let ?P = "\<lambda>p. (case is_rev of None \<Rightarrow> \<lambda>sp. True | Some g \<Rightarrow> g) (placed_span p)"
  let ?ps = "map (\<lambda>p. (placed_token p, text_from (placed_span p) (texts ! text_index p))) (filter ?P (placements st))"
  have "assign_error st = None"
    using False assms(1) f by (cases "assign_error st") (simp_all add: encode_batch_def Let_def)
  with False assms(1) f have tok: "issued_token ` set (draft_tokens draft) = placed_token ` set (placements st)"
    and m: "draft_mapping draft = dict_of ?ps"
    by (auto simp: encode_batch_def Let_def image_image)
  have "(t, v) \<in> set (dict_of ?ps)" using map_of_SomeD [OF assms(2)] unfolding m .
  then have "(t, v) \<in> set ?ps" using set_dict_of_sub by blast
  then show ?thesis unfolding tok by auto
qed

lemma mint_requests_values: "m \<in> set (mint_requests draft) \<Longrightarrow> map_of (draft_mapping draft) (mr_token m) = Some (mr_value m)"
  by (auto simp: mint_requests_def List.map_filter_def)

lemma mint_requests_tokens:
  assumes "encode_batch texts sbt codec is_rev k = (Inr draft, k')"
  shows "t \<in> mr_token ` set (mint_requests draft) \<longleftrightarrow> map_of (draft_mapping draft) t \<noteq> None"
proof
  assume "map_of (draft_mapping draft) t \<noteq> None"
  then obtain v where v: "map_of (draft_mapping draft) t = Some v" by blast
  from draft_mapping_issued [OF assms v] obtain i where i: "i \<in> set (draft_tokens draft)" "t = issued_token i" by blast
  then have "\<lparr>mr_token = t, mr_entity_type = issued_entity i, mr_value = v\<rparr> \<in> set (mint_requests draft)"
    using v by (force simp: mint_requests_def List.map_filter_def)
  then show "t \<in> mr_token ` set (mint_requests draft)" by force
qed (auto dest: mint_requests_values)

section \<open>Round trip\<close>

lemma vault_decode_resolves:
  assumes "\<And>t. codec_recover (svc_codec (vsv_pii self)) t = None"
    and "vault_get_many (vsv_store self) scope (py_sorted id (canonical_tokens texts)) now d = Inr stored"
    and "\<And>t. t \<in> set (canonical_tokens texts) \<Longrightarrow> map_of stored t = map_of m t" "distinct (map fst stored)"
  shows "\<exists>n. vault_decode self texts scope now d = Inr \<lparr>dec_texts = map (\<lambda>t. decode_text t m) texts, dec_resolved = n\<rparr>"
proof (cases "canonical_tokens texts = []")
  case True
  then have "decode_text t m = t" if "t \<in> set texts" for t
    using canonical_tokens_mono [OF that] decode_text_cong [of t m "[]"] by (simp add: decode_text_def)
  then have "map (\<lambda>t. decode_text t m) texts = texts" by (rule map_idI)
  with True show ?thesis by (simp add: vault_decode_def py_sorted_def)
next
  case False
  let ?cs = "py_sorted id (canonical_tokens texts)"
  have ne: "?cs \<noteq> []" using False by (metis length_0_conv length_py_sorted)
  have "self_contained (vsv_pii self) ?cs = []" by (rule self_contained_None) (rule assms(1))
  then have "vault_decode self texts scope now d =
      Inr \<lparr>dec_texts = map (\<lambda>t. decode_text t (dict_update [] stored)) texts, dec_resolved = length (dict_update [] stored)\<rparr>"
    using ne assms(2) by (simp add: vault_decode_def Let_def)
  moreover have "decode_text t (dict_update [] stored) = decode_text t m" if "t \<in> set texts" for t
    using canonical_tokens_mono [OF that] assms(3,4)
    by (intro decode_text_cong) (auto simp: map_of_dict_update map_of_rev_distinct)
  ultimately show ?thesis by simp
qed

text \<open>An encoding that ends within the bound is the encoding of the limited codec.\<close>

definition drawing :: "PiiCodec \<Rightarrow> bool" where
  "drawing codec \<longleftrightarrow> (\<forall>e n v k t k'. codec_mint codec e n v k = (Inr t, k') \<longrightarrow> k < k')"

lemma limited_attempts:
  assumes d: "drawing codec"
    and "mint_attempts codec e n v avoid left k = (Inr r, k')" "k' \<le> bound"
  shows "k < k' \<and> mint_attempts (limited bound codec) e n v avoid left k = (Inr r, k')"
  using assms(2)
proof (induction left arbitrary: n k)
  case (Suc left)
  then obtain c k1 where c: "codec_mint codec e n v k = (Inr c, k1)" by (auto split: prod.splits sum.splits)
  have lt: "k < k1" using d c unfolding drawing_def by blast
  show ?case
  proof (cases "c \<in> set avoid")
    case True
    with Suc.prems c have "mint_attempts codec e (Suc n) v avoid left k1 = (Inr r, k')" by simp
    from Suc.IH [OF this] True lt c assms(3) show ?thesis by (simp add: limited_def)
  next
    case False
    with Suc.prems lt c assms(3) show ?thesis by (simp add: limited_def)
  qed
qed simp

lemma limited_assign:
  assumes d: "drawing codec"
    and "assign texts codec avoid x (st, k) = (st', k')" "assign_error st = None" "assign_error st' = None"
  shows "k \<le> k' \<and> (k' \<le> bound \<longrightarrow> assign texts (limited bound codec) avoid x (st, k) = (st', k'))"
proof -
  obtain i sp where x: "x = (i, sp)" by fastforce
  let ?v = "text_from sp (texts ! i)"
  let ?n = "(case map_of (ordinals st) (entity_type sp) of None \<Rightarrow> 0 | Some n \<Rightarrow> n) + 1"
  have i: "\<not> length texts \<le> i" using assms(2-4) x by (auto simp: assign_def)
  show ?thesis
  proof (cases "map_of (by_value st) (entity_type sp, ?v)")
    case (Some t)
    with assms(2,3) x i show ?thesis by (simp add: assign_def Let_def)
  next
    case None
    obtain r where r: "mint_unused codec (entity_type sp) ?n ?v avoid k = (Inr r, k')"
      using assms(2-4) x i None by (auto simp: assign_def Let_def split: prod.splits sum.splits)
    note la = limited_attempts [OF d r [unfolded mint_unused_def]]
    have "k \<le> k'" using la [where bound = k'] by simp
    moreover have "assign texts (limited bound codec) avoid x (st, k) = (st', k')" if "k' \<le> bound"
    proof -
      have "mint_unused (limited bound codec) (entity_type sp) ?n ?v avoid k = (Inr r, k')"
        unfolding mint_unused_def using la [OF that] by blast
      with r assms(2,3) x i None show ?thesis by (simp add: assign_def Let_def)
    qed
    ultimately show ?thesis by blast
  qed
qed

lemma limited_fold:
  assumes d: "drawing codec"
    and "fold (assign texts codec avoid) xs (st, k) = (st', k')" "assign_error st = None" "assign_error st' = None"
  shows "k \<le> k' \<and> (k' \<le> bound \<longrightarrow> fold (assign texts (limited bound codec) avoid) xs (st, k) = (st', k'))"
  using assms(2,3)
proof (induction xs arbitrary: st k)
  case (Cons x xs)
  obtain st1 k1 where s1: "assign texts codec avoid x (st, k) = (st1, k1)" by fastforce
  with Cons.prems have f: "fold (assign texts codec avoid) xs (st1, k1) = (st', k')" by simp
  have e: "assign_error st1 = None"
  proof (rule ccontr)
    assume "assign_error st1 \<noteq> None"
    from assign_failed [OF this, of texts codec avoid xs k1] f assms(4) this show False by simp
  qed
  from Cons.IH [OF f e] limited_assign [OF d s1 Cons.prems(2) e, where bound = bound] show ?case by auto
qed simp

lemma limited_encode:
  assumes "drawing codec"
    and enc: "encode_batch texts sbt codec is_rev k = (Inr draft, k')" and "k' \<le> bound"
  shows "encode_batch texts sbt (limited bound codec) is_rev k = (Inr draft, k')"
proof (cases "locate sbt = []")
  case True
  with enc show ?thesis by (simp add: encode_batch_def)
next
  case False
  obtain st k1 where f: "fold (assign texts codec (canonical_tokens texts)) (locate sbt) (empty_assignment, k) = (st, k1)" by fastforce
  have e: "assign_error st = None" and k1: "k1 = k'"
    using False enc f by (cases "assign_error st"; simp add: encode_batch_def Let_def)+
  have "fold (assign texts (limited bound codec) (canonical_tokens texts)) (locate sbt) (empty_assignment, k) = (st, k1)"
    using limited_fold [OF assms(1) f _ e, where bound = bound] assms(3) k1 by (simp add: empty_assignment_def)
  moreover have "codec_id (limited bound codec) = codec_id codec" by (simp add: limited_def)
  ultimately show ?thesis using enc f False e by (simp add: encode_batch_def Let_def)
qed

lemma handle_batch: "draws_sized urandom \<Longrightarrow> draws_distinct urandom bound \<Longrightarrow> batch_codec (limited bound (HandleCodec urandom)) (\<lambda>_. True)"
  by (simp add: batch_codec_def handle_token_codec)

lemma handle_draws: "drawing (HandleCodec urandom)"
  by (auto simp: drawing_def HandleCodec_def)

lemma open_rows_distinct: "open_rows cipher sc rs = Inr m \<Longrightarrow> distinct (map fst m)"
  by (auto simp: open_rows_def Let_def split: option.splits)

lemma vault_get_distinct: "vault_get_many store sc ts now d = Inr m \<Longrightarrow> distinct (map fst m)"
  by (auto simp: vault_get_many_def open_rows_distinct split: if_splits sum.splits)

lemma seal_mints_draws: "seal_mints c sc mints k = (sealed, k') \<Longrightarrow> k \<le> k'"
  by (induction mints arbitrary: k sealed) (fastforce simp: vault_seal_def Let_def split: prod.splits sum.splits)+

lemma put_draws: "vault_put_many store sc session mints subject creator now (d, k) = (r, (d', k')) \<Longrightarrow> k \<le> k'"
  by (auto simp: vault_put_many_def Let_def split: if_splits prod.splits option.splits dest: seal_mints_draws)

lemma vault_encode_Inr:
  assumes "vault_encode self texts sc session subject creator lang ents now (d, k) = (Inr batch, (d', k'))"
  obtains dr k1 where "svc_draft (vsv_pii self) texts lang ents None k = (Inr dr, k1)"
    "vault_put_many (vsv_store self) sc session (mint_requests (db_draft dr)) subject creator now (d, k1) = (None, (d', k'))"
    "eb_texts batch = draft_texts (db_draft dr)" "eb_tokens batch = draft_tokens (db_draft dr)"
    "eb_spans_by_text batch = db_spans_by_text dr"
  using assms by (auto simp: vault_encode_def split: prod.splits sum.splits option.splits)

lemma vault_restores:
  assumes db: "prisma_table (vs_table (vsv_store self)) rows" "table_ok rows d"
    and cipher: "aead_binds (vc_encrypt (vs_cipher (vsv_store self))) (vc_decrypt (vs_cipher (vsv_store self)))"
      "draws_sized (vc_urandom (vs_cipher (vsv_store self)))"
      "checked_key (vs_cipher (vsv_store self)) sc (current_version (vc_keys (vs_cipher (vsv_store self)))) = Inr key"
    and handles: "svc_codec (vsv_pii self) = HandleCodec urandom" "draws_sized urandom" "draws_distinct urandom k'"
    and enc: "vault_encode self texts sc session subject creator lang ents now (d, k) = (Inr batch, (d', k'))"
    and spans: "\<forall>t \<in> set texts. detector_ok (svc_detector (vsv_pii self)) t lang ents"
      "\<forall>i < length texts. unescaped (texts ! i) (eb_spans_by_text batch ! i)"
    and fresh: "(issued_token ` set (eb_tokens batch) \<union> set (canonical_tokens (eb_texts batch))) \<inter> token_id ` set (vault_rows rows d) = {}"
    and time: "now' < now + days (retention_days (vsv_store self))"
  shows "\<exists>n. vault_decode self (eb_texts batch) sc now' d' = Inr \<lparr>dec_texts = texts, dec_resolved = n\<rparr>"
proof -
  obtain dr k1 where dr: "svc_draft (vsv_pii self) texts lang ents None k = (Inr dr, k1)"
    and put: "vault_put_many (vsv_store self) sc session (mint_requests (db_draft dr)) subject creator now (d, k1) = (None, (d', k'))"
    and eb: "eb_texts batch = draft_texts (db_draft dr)" "eb_tokens batch = draft_tokens (db_draft dr)"
      "eb_spans_by_text batch = db_spans_by_text dr"
    by (rule vault_encode_Inr [OF enc])
  note e = svc_draft_Inr [OF dr spans(1)]
  let ?m = "draft_mapping (db_draft dr)"
  have tok: "mr_token ` set (mint_requests (db_draft dr)) = {t. map_of ?m t \<noteq> None}"
    using mint_requests_tokens [OF e(1)] by blast
  have new: "mr_token ` set (mint_requests (db_draft dr)) \<inter> token_id ` set (vault_rows rows d) = {}"
    unfolding tok using draft_mapping_issued [OF e(1)] fresh eb(2) by auto
  have val: "mr_value mint = the (map_of ?m (mr_token mint))" if "mint \<in> set (mint_requests (db_draft dr))" for mint
    using mint_requests_values [OF that] by simp
  let ?cs = "py_sorted id (canonical_tokens (eb_texts batch))"
  have ts: "set ?cs \<inter> token_id ` set (vault_rows rows d) = {}" using fresh by auto
  have "\<exists>m. vault_get_many (vsv_store self) sc ?cs now' d' = Inr m \<and>
      (\<forall>t. map_of m t = (if t \<in> set ?cs \<inter> mr_token ` set (mint_requests (db_draft dr)) then Some (the (map_of ?m t)) else None))"
  proof -
    have "\<exists>e j. vault_put_many (vsv_store self) sc session (mint_requests (db_draft dr)) subject creator now (d, k1) = (None, (e, j))
      \<and> table_ok rows e \<and> (\<forall>ts now'. now' < now + days (retention_days (vsv_store self)) \<longrightarrow> set ts \<inter> token_id ` set (vault_rows rows d) = {} \<longrightarrow>
        (\<exists>m. vault_get_many (vsv_store self) sc ts now' e = Inr m \<and>
          (\<forall>t. map_of m t = (if t \<in> set ts \<inter> mr_token ` set (mint_requests (db_draft dr)) then Some (the (map_of ?m t)) else None))))"
      by (rule vault_put_get [OF db cipher val new])
    then obtain e j where ej: "vault_put_many (vsv_store self) sc session (mint_requests (db_draft dr)) subject creator now (d, k1) = (None, (e, j))"
      "\<forall>ts now'. now' < now + days (retention_days (vsv_store self)) \<longrightarrow> set ts \<inter> token_id ` set (vault_rows rows d) = {} \<longrightarrow>
        (\<exists>m. vault_get_many (vsv_store self) sc ts now' e = Inr m \<and>
          (\<forall>t. map_of m t = (if t \<in> set ts \<inter> mr_token ` set (mint_requests (db_draft dr)) then Some (the (map_of ?m t)) else None)))"
      by (elim exE conjE) (rule that)
    then have "e = d'" using put by simp
    then show ?thesis using ej(2) time ts by blast
  qed
  then obtain stored where g: "vault_get_many (vsv_store self) sc ?cs now' d' = Inr stored"
    and st: "\<forall>t. map_of stored t = (if t \<in> set ?cs \<inter> mr_token ` set (mint_requests (db_draft dr)) then Some (the (map_of ?m t)) else None)"
    by blast
  have "map_of stored t = map_of ?m t" if "t \<in> set (canonical_tokens (eb_texts batch))" for t
    using that unfolding st [rule_format] tok by auto
  then obtain n where n: "vault_decode self (eb_texts batch) sc now' d' =
      Inr \<lparr>dec_texts = map (\<lambda>t. decode_text t ?m) (eb_texts batch), dec_resolved = n\<rparr>"
    using vault_decode_resolves [OF _ g _ vault_get_distinct [OF g], of ?m] handles(1) by (auto simp: HandleCodec_def)
  have "decode_text (draft_texts (db_draft dr) ! i) ?m = texts ! i" if "i < length texts" for i
  proof -
    have "\<forall>i < length texts. spans_ok (texts ! i) (db_spans_by_text dr ! i) \<and> unescaped (texts ! i) (db_spans_by_text dr ! i)"
      using e(3) spans(2) eb(3) by simp
    moreover have "encode_batch texts (db_spans_by_text dr) (limited k' (HandleCodec urandom)) None k = (Inr (db_draft dr), k1)"
      using limited_encode [OF handle_draws e(1) [unfolded handles(1)]] put_draws [OF put] by simp
    ultimately have "decode_text (draft_texts (db_draft dr) ! i) ?m =
        replace_spans (\<lambda>sp. if True then text_from sp (texts ! i) else mint_masked (entity_type sp)) (texts ! i) 0 (db_spans_by_text dr ! i)"
      using batch_codec.batch_roundtrip [OF handle_batch [OF handles(2,3)] _ e(2) _ _ that, of None k "db_draft dr" k1] by simp
    then
    show ?thesis using e(3) that by (simp add: replace_spans_id)
  qed
  then have "map (\<lambda>t. decode_text t ?m) (eb_texts batch) = texts"
    using length_draft_texts [OF e(1)] eb(1) by (intro nth_equalityI) auto
  with n show ?thesis by simp
qed

definition handle_service :: "backing PiiService" where
  "handle_service = sample_service\<lparr>svc_codec := HandleCodec (\<lambda>k n. replicate n (if k = 0 then CHR ''a'' else CHR ''b''))\<rparr>"

definition vault_service :: "(backing, record_dict list) VaultService" where
  "vault_service = \<lparr>vsv_pii = handle_service, vsv_store = sample_vault\<rparr>"

lemma handle_service_drafts:
  "svc_draft handle_service [''Bob paid''] ''en'' None None 0 =
    (let sp = \<lparr>entity_type = ''PERSON'', span_start = 0, span_end = 3, score = 1, detector = RULES\<rparr>; t = ''<PERSON:6161616161616161>''
     in (Inr \<lparr>db_draft = \<lparr>draft_texts = [t @ '' paid''],
            draft_tokens = [\<lparr>issued_token = t, issued_entity = ''PERSON'', issued_codec = ''handle''\<rparr>],
            draft_mapping = [(t, ''Bob'')], draft_placements = [\<lparr>text_index = 0, placed_span = sp, placed_token = t\<rparr>]\<rparr>,
          db_spans_by_text = [ [sp] ], db_ner_stage_ran = False\<rparr>, 1))"
  by code_simp

definition vault_sample_batch :: EncodedBatch where
  "vault_sample_batch =
     (let sp = \<lparr>entity_type = ''PERSON'', span_start = 0, span_end = 3, score = 1, detector = RULES\<rparr>; t = ''<PERSON:6161616161616161>''
      in \<lparr>eb_texts = [t @ '' paid''], eb_tokens = [\<lparr>issued_token = t, issued_entity = ''PERSON'', issued_codec = ''handle''\<rparr>],
          eb_session_id = ''s'', eb_spans_by_text = [ [sp] ], eb_placements = [\<lparr>text_index = 0, placed_span = sp, placed_token = t\<rparr>],
          eb_ner_stage_ran = False\<rparr>)"

lemma vault_service_encodes:
  "\<exists>d. vault_encode vault_service [''Bob paid''] (row_scope sample_row) ''s'' subject creator ''en'' None 0 ([], 0) = (Inr vault_sample_batch, (d, 2))"
proof -
  let ?mints = "mint_requests (db_draft (projr (fst (svc_draft handle_service [''Bob paid''] ''en'' None None 0))))"
  obtain err d' k' where put: "vault_put_many sample_vault (row_scope sample_row) ''s'' ?mints subject creator 0 ([], 1) = (err, (d', k'))"
    by (metis surj_pair)
  have mints: "?mints = [\<lparr>mr_token = ''<PERSON:6161616161616161>'', mr_entity_type = ''PERSON'', mr_value = ''Bob''\<rparr>]"
    by (simp add: handle_service_drafts Let_def mint_requests_def List.map_filter_simps)
  have "err = None \<and> k' = 2"
    using put unfolding mints by (auto simp: vault_put_many_def sample_vault_def vault_seal_def toy_cipher_laws guarded_write_def insert_many_def memory_table_def Let_def)
  then show ?thesis
    using put unfolding mints
    by (simp add: vault_encode_def vault_service_def handle_service_drafts vault_sample_batch_def Let_def mint_requests_def List.map_filter_simps)
qed

lemma vault_service_laws:
  "prisma_table (vs_table (vsv_store vault_service)) id" "table_ok id ([] :: record_dict list)" "vault_rows id [] = []"
  "vs_cipher (vsv_store vault_service) = toy_cipher" "retention_days (vsv_store vault_service) = 30" "vsv_pii vault_service = handle_service"
  by (simp_all add: vault_service_def sample_vault_def memory_table_prisma table_ok_def vault_rows_def List.map_filter_simps)

lemma handle_service_laws:
  "svc_codec handle_service = HandleCodec (\<lambda>k n. replicate n (if k = 0 then CHR ''a'' else CHR ''b''))"
  "draws_sized (\<lambda>k n. replicate n (if k = 0 then CHR ''a'' else CHR ''b''))"
  "draws_distinct (\<lambda>k n. replicate n (if k = 0 then CHR ''a'' else CHR ''b'')) 2"
  by (auto simp: handle_service_def draws_sized_def draws_distinct_def inj_on_def HANDLE_BYTES_def less_2_cases_iff)

end
