(* ===== verification/Endpoints.thy ===== *)
theory Endpoints
  imports Activity Vault_Service
begin

text \<open>
  \<open>litellm/proxy/pii_endpoints/endpoints.py\<close> and \<open>audit.py\<close>, with the request and response types of
  \<open>litellm/types/proxy/pii_endpoints.py\<close>: the HTTP routes over the service and the vault. A route is a function of the
  caller, its request and the world; an \<open>HTTPException\<close> is a value, and so is an exception that escapes. The proxy's objects
  (the cache, the table, the sink of audit entries) are states the operations thread through; the validation that FastAPI does
  of a request before the route runs is outside.
\<close>

section \<open>The caller and the audit entries\<close>

record UserAPIKeyAuth =
  ua_api_key :: "string option"
  ua_user_id :: "string option"
  ua_team_id :: "string option"
  ua_org_id :: "string option"
  ua_key_alias :: "string option"
  ua_end_user_id :: "string option"
  ua_user_role :: "string option"
  ua_permissions :: "(string, pyobj) dict"

definition DECODE_PERMISSION :: string where "DECODE_PERMISSION = ''allow_pii_decode''"
definition DECODE_ANY_PERMISSION :: string where "DECODE_ANY_PERMISSION = ''allow_pii_decode_any''"
definition SEARCH_PERMISSION :: string where "SEARCH_PERMISSION = ''allow_pii_search''"

definition granted :: "UserAPIKeyAuth \<Rightarrow> string \<Rightarrow> bool" where
  "granted caller permission = (obj_get (ua_permissions caller) permission = PBool True)"

definition identity_from :: "UserAPIKeyAuth \<Rightarrow> CallerIdentity" where
  "identity_from caller =
     \<lparr>key_hash = ua_api_key caller, user_id = ua_user_id caller, team_id = ua_team_id caller, organization_id = ua_org_id caller,
      can_decode = granted caller DECODE_PERMISSION, can_decode_any = granted caller DECODE_ANY_PERMISSION\<rparr>"

definition may_search :: "UserAPIKeyAuth \<Rightarrow> bool" where
  "may_search caller = granted caller SEARCH_PERMISSION"

definition scope_object_id :: "VaultScope \<Rightarrow> string" where
  "scope_object_id scope = VaultScopeType_value (scope_type scope) @ '':'' @ scope_id scope"

text \<open>The two kinds of details; \<open>json.dumps\<close> of them goes into the entry.\<close>

record DecodeDetails =
  dd_token_count :: nat
  dd_break_glass :: bool
  dd_scope_type :: string

record SearchDetails =
  sd_operation :: string
  sd_entity_type :: "string option"
  sd_hit_count :: nat
  sd_scanned :: int
  sd_scope_type :: string

datatype audit_details = Decode_details DecodeDetails | Search_details SearchDetails

record AuditEntry =
  au_id :: string
  au_updated_at :: int
  au_changed_by :: "string option"
  au_changed_by_api_key :: "string option"
  au_action :: string
  au_table_name :: string
  au_object_id :: string
  au_updated_values :: audit_details

definition access_entry :: "UserAPIKeyAuth \<Rightarrow> VaultScope \<Rightarrow> audit_details \<Rightarrow> string \<times> int \<Rightarrow> AuditEntry" where
  "access_entry caller scope details stamp =
     \<lparr>au_id = fst stamp, au_updated_at = snd stamp, au_changed_by = ua_user_id caller, au_changed_by_api_key = ua_api_key caller,
      au_action = ''accessed'', au_table_name = ''LiteLLM_PiiTokenTable'', au_object_id = scope_object_id scope,
      au_updated_values = details\<rparr>"

definition decode_audit_entry :: "UserAPIKeyAuth \<Rightarrow> VaultScope \<Rightarrow> nat \<Rightarrow> bool \<Rightarrow> string \<times> int \<Rightarrow> AuditEntry" where
  "decode_audit_entry caller scope token_count break_glass stamp =
     access_entry caller scope (Decode_details \<lparr>dd_token_count = token_count, dd_break_glass = break_glass,
       dd_scope_type = VaultScopeType_value (scope_type scope)\<rparr>) stamp"

definition search_audit_entry :: "UserAPIKeyAuth \<Rightarrow> VaultScope \<Rightarrow> string option \<Rightarrow> nat \<Rightarrow> int \<Rightarrow> string \<times> int \<Rightarrow> AuditEntry" where
  "search_audit_entry caller scope entity hit_count scanned stamp =
     access_entry caller scope (Search_details \<lparr>sd_operation = ''search'', sd_entity_type = entity, sd_hit_count = hit_count,
       sd_scanned = scanned, sd_scope_type = VaultScopeType_value (scope_type scope)\<rparr>) stamp"

text \<open>The sink may raise; the exception is logged and dropped.\<close>

type_synonym 'a audit_sink = "AuditEntry \<Rightarrow> 'a \<Rightarrow> string option \<times> 'a"

definition audit_write :: "'a audit_sink \<Rightarrow> AuditEntry \<Rightarrow> 'a \<Rightarrow> 'a" where
  "audit_write sink entry a = snd (sink entry a)"

definition record_decode :: "'a audit_sink \<Rightarrow> UserAPIKeyAuth \<Rightarrow> VaultScope \<Rightarrow> nat \<Rightarrow> bool \<Rightarrow> string \<times> int \<Rightarrow> 'a \<Rightarrow> 'a" where
  "record_decode sink caller scope token_count break_glass stamp a =
     audit_write sink (decode_audit_entry caller scope token_count break_glass stamp) a"

definition record_search :: "'a audit_sink \<Rightarrow> UserAPIKeyAuth \<Rightarrow> VaultScope \<Rightarrow> string option \<Rightarrow> nat \<Rightarrow> int \<Rightarrow> string \<times> int \<Rightarrow> 'a \<Rightarrow> 'a" where
  "record_search sink caller scope entity hit_count scanned stamp a =
     audit_write sink (search_audit_entry caller scope entity hit_count scanned stamp) a"

definition default_mint_scope :: VaultScopeType where "default_mint_scope = KEY"

section \<open>Requests and responses\<close>

record PiiPermissionsResponse =
  pr_can_decode :: bool
  pr_can_decode_any :: bool
  pr_can_search :: bool

record PiiSpanModel =
  sm_entity_type :: string
  sm_start :: int
  sm_end :: int
  sm_score :: rat
  sm_detector :: string

record PiiIssuedTokenModel =
  im_token :: string
  im_entity_type :: string
  im_codec_id :: string

record PiiDetectRequest =
  rq_detect_texts :: "string list"
  rq_detect_language :: string
  rq_detect_entities :: "string list option"

record PiiDetectResult =
  dr_spans :: "PiiSpanModel list"
  dr_ner_stage_ran :: bool

record PiiEncodeRequest =
  rq_texts :: "string list"
  rq_session_id :: "string option"
  rq_language :: string
  rq_entities :: "string list option"
  rq_scope_type :: "VaultScopeType option"
  rq_subject_id :: "string option"
  rq_codec :: "CodecId option"

record PiiPlacementModel =
  pm_text_index :: nat
  pm_start :: int
  pm_end :: int
  pm_entity_type :: string
  pm_detector :: string
  pm_score :: rat
  pm_token :: string

record PiiEncodeResponse =
  er_texts :: "string list"
  er_session_id :: string
  er_tokens :: "PiiIssuedTokenModel list"
  er_placements :: "PiiPlacementModel list"
  er_ner_stage_ran :: bool

record PiiDecodeRequest =
  dq_texts :: "string list"
  dq_session_id :: string
  dq_scope_type :: "VaultScopeType option"
  dq_scope_id :: "string option"

record PiiDecodeResponse =
  der_texts :: "string list"

record PiiRevokeResponse =
  rr_revoked :: bool
  rr_scope_type :: VaultScopeType

record PiiExportedValueModel =
  xv_token :: string
  xv_value :: string

record PiiExportResponse =
  xr_subject_id :: string
  xr_scope_type :: VaultScopeType
  xr_values :: "PiiExportedValueModel list"

record PiiSearchRequest =
  sq_query :: string
  sq_mode :: MatchMode
  sq_entity_type :: "string option"
  sq_subject_id :: "string option"
  sq_scope_type :: "VaultScopeType option"

record PiiSearchHitModel =
  hm_token :: string
  hm_entity_type :: string
  hm_session_id :: "string option"
  hm_subject_id :: "string option"

record PiiSearchResponse =
  sr_hits :: "PiiSearchHitModel list"
  sr_scanned :: int
  sr_scope_type :: VaultScopeType

record PiiTokenMetadataModel =
  tm_token :: string
  tm_entity_type :: string
  tm_subject_id :: "string option"
  tm_created_at :: "int option"
  tm_expires_at :: "int option"

record PiiSessionResponse =
  ser_session_id :: string
  ser_scope_type :: VaultScopeType
  ser_tokens :: "PiiTokenMetadataModel list"

section \<open>Errors\<close>

datatype http_error = HTTPException int string | ServerError string

definition not_configured :: string where
  "not_configured = ''PII anonymization is not configured. Set PRESIDIO_ANALYZER_API_BASE '' @
     ''(and optionally LITELLM_PII_NER_API_BASE) to enable it.''"

definition vault_not_configured :: string where
  "vault_not_configured =
     ''The PII token vault is not configured. Set LITELLM_PII_VAULT_ENABLED=true and connect a database.''"

text \<open>Status and message of an error; \<open>None\<close> for an exception, which is not one of the errors.\<close>

fun public_failure :: "pii_error \<Rightarrow> (int \<times> string) option" where
  "public_failure (DetectorUnavailable d reason) = Some (503, ''PII '' @ DetectorKind_value d @ '' detector unavailable: '' @ reason)"
| "public_failure (DetectorInvalidResponse d reason) =
     Some (502, ''PII '' @ DetectorKind_value d @ '' detector returned an invalid response: '' @ reason)"
| "public_failure (StoreUnavailable reason) = Some (503, ''PII token store unavailable: '' @ reason)"
| "public_failure (KeyUnavailable reason) = Some (500, ''PII encryption key unavailable: '' @ reason)"
| "public_failure (DecodeFailed reason) = Some (400, ''PII token could not be decoded: '' @ reason)"
| "public_failure (UnknownToken token) = Some (404, ''Unknown PII token: '' @ token)"
| "public_failure (TokenSpaceExhausted ety) = Some (422, ''No free PII token remained for '' @ ety)"
| "public_failure (SearchRefused scanned limit) =
     Some (422, ''PII search would scan more than '' @ show_int limit @ '' rows ('' @ show_int scanned @ '' so far). '' @
       ''Narrow it with entity_type or subject_id, or raise LITELLM_PII_SEARCH_CANDIDATE_CAP.'')"
| "public_failure (VaultForbidden reason) = Some (403, ''Not permitted to access this PII scope: '' @ reason)"
| "public_failure (Raised exc) = None"

definition raise_public :: "pii_error \<Rightarrow> http_error" where
  "raise_public err = (case public_failure err of
     Some (status, message) \<Rightarrow> HTTPException status message
   | None \<Rightarrow> ServerError (case err of Raised exc \<Rightarrow> exc | _ \<Rightarrow> []))"

section \<open>The world\<close>

record ('c, 'd, 'a) World =
  w_cache :: 'c
  w_db :: 'd
  w_audit :: 'a
  w_log :: PiiActivityLog
  w_draws :: draws

definition endpoint_record ::
  "UserAPIKeyAuth \<Rightarrow> stamp \<Rightarrow> PiiDirection \<Rightarrow> PiiOutcome \<Rightarrow> counts \<Rightarrow> counts \<Rightarrow> nat \<Rightarrow> nat \<Rightarrow> bool \<Rightarrow> string option \<Rightarrow> TextCapture option
   \<Rightarrow> ('c, 'd, 'a) World \<Rightarrow> ('c, 'd, 'a) World" where
  "endpoint_record caller stamp direction outcome entity_counts action_counts tokens resolved ner session capture w =
     w\<lparr>w_log := record_event
       (new_event (fst stamp) ENDPOINT direction outcome (snd stamp) entity_counts action_counts tokens resolved ner
          None session (ua_key_alias caller) (ua_user_id caller) None None None capture) (w_log w)\<rparr>"

text \<open>The failure branch of a recording route: the message goes on record and to the caller.\<close>

definition fail_recorded ::
  "UserAPIKeyAuth \<Rightarrow> stamp \<Rightarrow> PiiDirection \<Rightarrow> string option \<Rightarrow> pii_error \<Rightarrow> ('c, 'd, 'a) World \<Rightarrow> http_error \<times> ('c, 'd, 'a) World" where
  "fail_recorded caller stamp direction session err w =
     (case public_failure err of
        None \<Rightarrow> (raise_public err, w)
      | Some (status, message) \<Rightarrow>
          (raise_public err, endpoint_record caller stamp direction (Failed message) [] [] 0 0 False session None w))"

definition encode_action :: "string \<Rightarrow> SpanAction" where "encode_action ety = ENCODE"

section \<open>Dependencies\<close>

definition get_pii_service :: "Externals \<Rightarrow> 'c AsyncKeyValueCache \<Rightarrow> http_error + 'c PiiService" where
  "get_pii_service ext user_api_key_cache =
     (case build_service ext user_api_key_cache (Some (settings_from_env (ext_getenv ext))) handle_id of
        None \<Rightarrow> Inl (HTTPException 501 not_configured)
      | Some service \<Rightarrow> Inr service)"

definition get_pii_vault ::
  "Externals \<Rightarrow> hkdf \<Rightarrow> string option \<Rightarrow> 'd PrismaTableActions option \<Rightarrow> 'c PiiService \<Rightarrow> ('c, 'd) VaultService option" where
  "get_pii_vault ext hkdf master_key prisma_client service = build_vault ext hkdf master_key prisma_client service None None"

definition get_pii_search ::
  "Externals \<Rightarrow> hkdf \<Rightarrow> string option \<Rightarrow> 'd PrismaTableActions option \<Rightarrow> http_error + 'd VaultSearch" where
  "get_pii_search ext hkdf master_key prisma_client =
     (case build_search ext hkdf master_key prisma_client None None of
        None \<Rightarrow> Inl (HTTPException 501 vault_not_configured)
      | Some searcher \<Rightarrow> Inr searcher)"

definition require_pii_vault :: "('c, 'd) VaultService option \<Rightarrow> http_error + ('c, 'd) VaultService" where
  "require_pii_vault vault = (case vault of None \<Rightarrow> Inl (HTTPException 501 vault_not_configured) | Some v \<Rightarrow> Inr v)"

definition with_codec :: "Externals \<Rightarrow> 'c PiiService \<Rightarrow> CodecId option \<Rightarrow> 'c PiiService" where
  "with_codec ext service codec = (case codec of None \<Rightarrow> service | Some c \<Rightarrow> service\<lparr>svc_codec := build_codec ext c\<rparr>)"

definition scope_for :: "Externals \<Rightarrow> UserAPIKeyAuth \<Rightarrow> string \<Rightarrow> TokenScope" where
  "scope_for ext caller session = for_key (ext_sha256 ext) (ua_api_key caller) session"

definition requested_scope :: "CallerIdentity \<Rightarrow> VaultScopeType option \<Rightarrow> string option \<Rightarrow> pii_error + VaultScope" where
  "requested_scope identity sty sid =
     (let requested = (case sty of None \<Rightarrow> default_mint_scope | Some t \<Rightarrow> t) in
      case sid of
        Some s \<Rightarrow> Inr \<lparr>scope_type = requested, scope_id = s\<rparr>
      | None \<Rightarrow> scope_to_mint identity requested)"

definition authorized_scope :: "CallerIdentity \<Rightarrow> VaultScopeType option \<Rightarrow> string option \<Rightarrow> http_error + VaultScope" where
  "authorized_scope identity sty sid =
     (case requested_scope identity sty sid of
        Inl err \<Rightarrow> Inl (raise_public err)
      | Inr scope \<Rightarrow>
          (case authorize_decode identity scope of
             Some forbidden \<Rightarrow> Inl (raise_public forbidden)
           | None \<Rightarrow> Inr scope))"

section \<open>Detect, encode, decode\<close>

definition read_pii_permissions :: "UserAPIKeyAuth \<Rightarrow> PiiPermissionsResponse" where
  "read_pii_permissions caller =
     (let identity = identity_from caller in
      \<lparr>pr_can_decode = can_decode identity, pr_can_decode_any = can_decode_any identity, pr_can_search = may_search caller\<rparr>)"

definition span_model :: "PiiSpan \<Rightarrow> PiiSpanModel" where
  "span_model sp = \<lparr>sm_entity_type = entity_type sp, sm_start = span_start sp, sm_end = span_end sp, sm_score = score sp,
     sm_detector = DetectorKind_value (detector sp)\<rparr>"

definition detect_pii ::
  "UserAPIKeyAuth \<Rightarrow> 'c PiiService \<Rightarrow> PiiDetectRequest \<Rightarrow> stamp \<Rightarrow> ('c, 'd, 'a) World \<Rightarrow> (http_error + PiiDetectResult list) \<times> ('c, 'd, 'a) World" where
  "detect_pii caller service request stamp w =
     (case detect_many service (rq_detect_texts request) (rq_detect_language request) (rq_detect_entities request) of
        Inl err \<Rightarrow> (case fail_recorded caller stamp DETECT_TEXT None err w of (e, w') \<Rightarrow> (Inl e, w'))
      | Inr detected \<Rightarrow>
          (Inr (map (\<lambda>r. \<lparr>dr_spans = map span_model (result_spans r), dr_ner_stage_ran = ner_stage_ran r\<rparr>) detected),
           endpoint_record caller stamp DETECT_TEXT Applied (entity_counts_of (map result_spans detected)) [] 0 0
             (list_ex ner_stage_ran detected) None None w))"

definition encode_response :: "EncodedBatch \<Rightarrow> PiiEncodeResponse" where
  "encode_response encoded =
     \<lparr>er_texts = eb_texts encoded, er_session_id = eb_session_id encoded,
      er_tokens = map (\<lambda>t. \<lparr>im_token = issued_token t, im_entity_type = issued_entity t, im_codec_id = issued_codec t\<rparr>) (eb_tokens encoded),
      er_placements = map (\<lambda>p. \<lparr>pm_text_index = text_index p, pm_start = span_start (placed_span p), pm_end = span_end (placed_span p),
          pm_entity_type = entity_type (placed_span p), pm_detector = DetectorKind_value (detector (placed_span p)),
          pm_score = score (placed_span p), pm_token = placed_token p\<rparr>) (eb_placements encoded),
      er_ner_stage_ran = eb_ner_stage_ran encoded\<rparr>"

text \<open>The end of an encode: the event, with a capture when it is on, and the response.\<close>

definition finish_encode ::
  "Externals \<Rightarrow> UserAPIKeyAuth \<Rightarrow> stamp \<Rightarrow> string list \<Rightarrow> EncodedBatch \<Rightarrow> ('c, 'd, 'a) World
   \<Rightarrow> (http_error + PiiEncodeResponse) \<times> ('c, 'd, 'a) World" where
  "finish_encode ext caller stamp texts encoded w =
     (case capture_of (ext_getenv ext) texts (eb_texts encoded) (eb_placements encoded) encode_action of
        Inl err \<Rightarrow> (Inl (raise_public err), w)
      | Inr capture \<Rightarrow>
          (Inr (encode_response encoded),
           endpoint_record caller stamp ENCODE_TEXT Applied (entity_counts_of (eb_spans_by_text encoded))
             (action_counts_of (eb_spans_by_text encoded) encode_action) (length (eb_tokens encoded)) 0 (eb_ner_stage_ran encoded)
             (Some (eb_session_id encoded)) capture w))"

fun CodecId_value :: "CodecId \<Rightarrow> string" where
  "CodecId_value placeholder_id = ''placeholder''"
| "CodecId_value handle_id = ''handle''"
| "CodecId_value encrypted_id = ''encrypted''"

definition codec_refused :: "CodecId \<Rightarrow> string" where
  "codec_refused codec = ''codec='' @ [CHR 0x27] @ CodecId_value codec @ [CHR 0x27] @
     '' cannot be used while the PII vault is enabled: the vault keys a row by '' @
     ''the token itself, so an ordinal token collides with another session'' @ [CHR 0x27] @ ''s and the mapping would be '' @
     ''dropped, leaving a token nothing can resolve. Use the default handle codec.''"

definition encode_pii ::
  "Externals \<Rightarrow> UserAPIKeyAuth \<Rightarrow> 'c PiiService \<Rightarrow> ('c, 'd) VaultService option \<Rightarrow> PiiEncodeRequest \<Rightarrow> stamp \<Rightarrow> string \<Rightarrow> int
   \<Rightarrow> ('c, 'd, 'a) World \<Rightarrow> (http_error + PiiEncodeResponse) \<times> ('c, 'd, 'a) World" where
  "encode_pii ext caller service vault request stamp new_session now w =
     (let session = (if is_empty_str (rq_session_id request) then new_session else the (rq_session_id request));
          chosen = with_codec ext service (rq_codec request)
      in
      case vault of
        None \<Rightarrow>
          (case svc_encode chosen (rq_texts request) (scope_for ext caller session) (rq_language request) (rq_entities request) None
                  (w_cache w, w_draws w) of
             (answer, (c, k)) \<Rightarrow>
               (let w1 = w\<lparr>w_cache := c, w_draws := k\<rparr> in
                case answer of
                  Inl err \<Rightarrow> (case fail_recorded caller stamp ENCODE_TEXT (Some session) err w1 of (e, w2) \<Rightarrow> (Inl e, w2))
                | Inr cached \<Rightarrow> finish_encode ext caller stamp (rq_texts request) cached w1))
      | Some v \<Rightarrow>
          (if rq_codec request \<noteq> None \<and> \<not> mints_unique_tokens (the (rq_codec request))
           then (Inl (HTTPException 422 (codec_refused (the (rq_codec request)))), w)
           else
             (case requested_scope (identity_from caller) (rq_scope_type request) None of
                Inl forbidden \<Rightarrow> (Inl (raise_public forbidden), w)
              | Inr scope \<Rightarrow>
                  (case vault_encode (v\<lparr>vsv_pii := chosen\<rparr>) (rq_texts request) scope session
                          (if is_empty_str (rq_subject_id request) then ua_end_user_id caller else rq_subject_id request)
                          (ua_user_id caller) (rq_language request) (rq_entities request) now (w_db w, w_draws w) of
                     (answer, (d, k)) \<Rightarrow>
                       (let w1 = w\<lparr>w_db := d, w_draws := k\<rparr> in
                        case answer of
                          Inl err \<Rightarrow> (case fail_recorded caller stamp ENCODE_TEXT (Some session) err w1 of (e, w2) \<Rightarrow> (Inl e, w2))
                        | Inr encoded \<Rightarrow> finish_encode ext caller stamp (rq_texts request) encoded w1)))))"

definition record_decode_event ::
  "Externals \<Rightarrow> UserAPIKeyAuth \<Rightarrow> string list \<Rightarrow> string list \<Rightarrow> string \<Rightarrow> stamp \<Rightarrow> ('c, 'd, 'a) World \<Rightarrow> ('c, 'd, 'a) World" where
  "record_decode_event ext caller before after session stamp w =
     (let tally = decode_tally before after in
      endpoint_record caller stamp DECODE_TEXT Applied (tally_entity_counts tally) [] (tally_token_count tally) (tally_resolved_count tally)
        False (Some session)
        (if capture_enabled (ext_getenv ext) then Some \<lparr>cap_before = before, cap_after = after, cap_placements = []\<rparr> else None) w)"

definition decode_pii ::
  "Externals \<Rightarrow> 'a audit_sink \<Rightarrow> UserAPIKeyAuth \<Rightarrow> 'c PiiService \<Rightarrow> ('c, 'd) VaultService option \<Rightarrow> PiiDecodeRequest \<Rightarrow> stamp \<Rightarrow> int
   \<Rightarrow> ('c, 'd, 'a) World \<Rightarrow> (http_error + PiiDecodeResponse) \<times> ('c, 'd, 'a) World" where
  "decode_pii ext sink caller service vault request stamp now w =
     (let identity = identity_from caller; session = dq_session_id request in
      case authorized_scope identity (dq_scope_type request) (dq_scope_id request) of
        Inl e \<Rightarrow> (Inl e, w)
      | Inr scope \<Rightarrow>
          (case vault of
             None \<Rightarrow>
               (case svc_decode service (dq_texts request) (scope_for ext caller session) (w_cache w, w_draws w) of
                  (answer, (c, k)) \<Rightarrow>
                    (let w1 = w\<lparr>w_cache := c, w_draws := k\<rparr> in
                     case answer of
                       Inl err \<Rightarrow> (case fail_recorded caller stamp DECODE_TEXT (Some session) err w1 of (e, w2) \<Rightarrow> (Inl e, w2))
                     | Inr texts \<Rightarrow> (Inr \<lparr>der_texts = texts\<rparr>, record_decode_event ext caller (dq_texts request) texts session stamp w1)))
           | Some v \<Rightarrow>
               (case vault_decode v (dq_texts request) scope now (w_db w) of
                  Inl err \<Rightarrow> (case fail_recorded caller stamp DECODE_TEXT (Some session) err w of (e, w1) \<Rightarrow> (Inl e, w1))
                | Inr result \<Rightarrow>
                    (let w1 = w\<lparr>w_audit := record_decode sink caller scope (dec_resolved result) (used_break_glass identity scope) (fst stamp) (w_audit w)\<rparr>
                     in (Inr \<lparr>der_texts = dec_texts result\<rparr>,
                         record_decode_event ext caller (dq_texts request) (dec_texts result) session stamp w1)))))"

section \<open>Sessions, subjects, search\<close>

definition read_pii_session ::
  "UserAPIKeyAuth \<Rightarrow> ('c, 'd) VaultService \<Rightarrow> string \<Rightarrow> VaultScopeType option \<Rightarrow> int \<Rightarrow> 'd \<Rightarrow> http_error + PiiSessionResponse" where
  "read_pii_session caller vault session sty now d =
     (case requested_scope (identity_from caller) sty None of
        Inl forbidden \<Rightarrow> Inl (raise_public forbidden)
      | Inr scope \<Rightarrow>
          (case vsv_session_tokens vault scope session now d of
             Inl err \<Rightarrow> Inl (raise_public err)
           | Inr rows \<Rightarrow>
               Inr \<lparr>ser_session_id = session, ser_scope_type = scope_type scope,
                 ser_tokens = map (\<lambda>row. \<lparr>tm_token = token_id row, tm_entity_type = row_entity_type row, tm_subject_id = subject_id row,
                     tm_created_at = created_at row, tm_expires_at = expires_at row\<rparr>) (py_sorted token_id rows)\<rparr>))"

definition revoke_pii_session ::
  "UserAPIKeyAuth \<Rightarrow> ('c, 'd) VaultService \<Rightarrow> string \<Rightarrow> VaultScopeType option \<Rightarrow> 'd \<Rightarrow> (http_error + PiiRevokeResponse) \<times> 'd" where
  "revoke_pii_session caller vault session sty d =
     (case requested_scope (identity_from caller) sty None of
        Inl forbidden \<Rightarrow> (Inl (raise_public forbidden), d)
      | Inr scope \<Rightarrow>
          (case vsv_revoke_session vault scope session d of
             (Some err, d') \<Rightarrow> (Inl (raise_public err), d')
           | (None, d') \<Rightarrow> (Inr \<lparr>rr_revoked = True, rr_scope_type = scope_type scope\<rparr>, d')))"

definition revoke_pii_subject ::
  "UserAPIKeyAuth \<Rightarrow> ('c, 'd) VaultService \<Rightarrow> string \<Rightarrow> VaultScopeType option \<Rightarrow> 'd \<Rightarrow> (http_error + PiiRevokeResponse) \<times> 'd" where
  "revoke_pii_subject caller vault subject sty d =
     (case requested_scope (identity_from caller) sty None of
        Inl forbidden \<Rightarrow> (Inl (raise_public forbidden), d)
      | Inr scope \<Rightarrow>
          (case vsv_revoke_subject vault scope subject d of
             (Some err, d') \<Rightarrow> (Inl (raise_public err), d')
           | (None, d') \<Rightarrow> (Inr \<lparr>rr_revoked = True, rr_scope_type = scope_type scope\<rparr>, d')))"

definition export_pii_subject ::
  "'a audit_sink \<Rightarrow> UserAPIKeyAuth \<Rightarrow> ('c, 'd) VaultService \<Rightarrow> string \<Rightarrow> VaultScopeType option \<Rightarrow> string \<times> int \<Rightarrow> int \<Rightarrow> 'd \<times> 'a
   \<Rightarrow> (http_error + PiiExportResponse) \<times> ('d \<times> 'a)" where
  "export_pii_subject sink caller vault subject sty stamp now w =
     (let identity = identity_from caller in
      case authorized_scope identity sty None of
        Inl e \<Rightarrow> (Inl e, w)
      | Inr scope \<Rightarrow>
          (case vsv_export_subject vault scope subject now (fst w) of
             Inl err \<Rightarrow> (Inl (raise_public err), w)
           | Inr exported \<Rightarrow>
               (Inr \<lparr>xr_subject_id = subject, xr_scope_type = scope_type scope,
                  xr_values = map (\<lambda>(token, v). \<lparr>xv_token = token, xv_value = v\<rparr>) (py_sorted fst exported)\<rparr>,
                (fst w, record_decode sink caller scope (length exported) (used_break_glass identity scope) stamp (snd w)))))"

definition search_pii ::
  "UnicodeTables \<Rightarrow> 'a audit_sink \<Rightarrow> UserAPIKeyAuth \<Rightarrow> 'd VaultSearch \<Rightarrow> PiiSearchRequest \<Rightarrow> string \<times> int \<Rightarrow> int \<Rightarrow> 'd \<times> 'a
   \<Rightarrow> (http_error + PiiSearchResponse) \<times> ('d \<times> 'a)" where
  "search_pii u sink caller searcher request stamp now w =
     (if \<not> may_search caller then
        (Inl (HTTPException 403 ''This key is not permitted to search PII. Set permissions.allow_pii_search = true.''), w)
      else
        (case requested_scope (identity_from caller) (sq_scope_type request) None of
           Inl forbidden \<Rightarrow> (Inl (raise_public forbidden), w)
         | Inr scope \<Rightarrow>
             (case search u searcher scope (sq_query request) (sq_mode request) (sq_entity_type request) (sq_subject_id request) now (fst w) of
                Inl err \<Rightarrow> (Inl (raise_public err), w)
              | Inr result \<Rightarrow>
                  (Inr \<lparr>sr_hits = map (\<lambda>hit. \<lparr>hm_token = hit_token hit, hm_entity_type = hit_entity_type hit,
                       hm_session_id = hit_session_id hit, hm_subject_id = hit_subject_id hit\<rparr>) (result_hits result),
                     sr_scanned = result_scanned result, sr_scope_type = scope_type scope\<rparr>,
                   (fst w, record_search sink caller scope (sq_entity_type request) (length (result_hits result)) (result_scanned result)
                      stamp (snd w))))))"

end
