(* ===== verification/Activity_Endpoints.thy ===== *)
theory Activity_Endpoints
  imports Endpoints
begin

text \<open>
  \<open>litellm/proxy/pii_endpoints/activity.py\<close> and \<open>litellm/types/proxy/pii_activity.py\<close>: reading the activity log, following it
  live and reporting into it. The text of a frame is what pydantic makes of a model, a parameter. That the stream goes on for ever is
  its caller's: one step of it is a function of the log.
\<close>

definition DEFAULT_LIMIT :: nat where "DEFAULT_LIMIT = 100"
definition MAX_LIMIT :: nat where "MAX_LIMIT = 500"

definition may_read_capture :: "UserAPIKeyAuth \<Rightarrow> bool" where
  "may_read_capture caller = (ua_user_role caller = Some ''proxy_admin'' \<or> obj_get (ua_permissions caller) DECODE_PERMISSION = PBool True)"

record PiiActivityOutcomeModel =
  om_kind :: string
  om_entity_type :: "string option"
  om_reason :: "string option"

record PiiTokenPlacementModel =
  tpm_token :: string
  tpm_entity_type :: string
  tpm_detector :: string
  tpm_score :: rat
  tpm_action :: string
  tpm_text_index :: nat
  tpm_start :: int
  tpm_end :: int
  tpm_value :: string

record PiiTextCaptureModel =
  tcm_before :: "string list"
  tcm_after :: "string list"
  tcm_placements :: "PiiTokenPlacementModel list"

record PiiBrowserContextModel =
  bcm_host :: string
  bcm_trust_class :: string
  bcm_action :: string

record PiiActivityEventModel =
  em_id :: string
  em_at :: int
  em_surface :: PiiSurface
  em_direction :: PiiDirection
  em_outcome :: PiiActivityOutcomeModel
  em_duration_ms :: rat
  em_entity_counts :: counts
  em_action_counts :: counts
  em_token_count :: nat
  em_resolved_count :: nat
  em_ner_stage_ran :: bool
  em_request_id :: "string option"
  em_session_id :: "string option"
  em_key_alias :: "string option"
  em_user_id :: "string option"
  em_model :: "string option"
  em_guardrail_name :: "string option"
  em_browser :: "PiiBrowserContextModel option"
  em_capture :: "PiiTextCaptureModel option"
  em_capture_withheld :: bool

record PiiActivityResponse =
  par_events :: "PiiActivityEventModel list"
  par_capture_enabled :: bool

record PiiActivityIngestRequest =
  ir_direction :: PiiDirection
  ir_action :: string
  ir_host :: string
  ir_trust_class :: string
  ir_entity_types :: "string list"
  ir_token_count :: nat
  ir_resolved_count :: nat
  ir_duration_ms :: rat
  ir_blocked_entity_type :: "string option"
  ir_failed_reason :: "string option"

fun outcome_model :: "PiiOutcome \<Rightarrow> PiiActivityOutcomeModel" where
  "outcome_model Applied = \<lparr>om_kind = ''applied'', om_entity_type = None, om_reason = None\<rparr>"
| "outcome_model (Blocked ety) = \<lparr>om_kind = ''blocked'', om_entity_type = Some ety, om_reason = None\<rparr>"
| "outcome_model (Failed reason) = \<lparr>om_kind = ''failed'', om_entity_type = None, om_reason = Some reason\<rparr>"
| "outcome_model (Unscanned reason) = \<lparr>om_kind = ''unscanned'', om_entity_type = None, om_reason = Some reason\<rparr>"

definition placement_model :: "TokenPlacement \<Rightarrow> PiiTokenPlacementModel" where
  "placement_model p =
     \<lparr>tpm_token = tp_token p, tpm_entity_type = tp_entity_type p, tpm_detector = DetectorKind_value (tp_detector p),
      tpm_score = tp_score p, tpm_action = SpanAction_value (tp_action p), tpm_text_index = tp_text_index p,
      tpm_start = tp_start p, tpm_end = tp_end p, tpm_value = tp_value p\<rparr>"

definition capture_model :: "PiiActivityEvent \<Rightarrow> bool \<Rightarrow> PiiTextCaptureModel option" where
  "capture_model event with_capture =
     (case ev_capture event of
        None \<Rightarrow> None
      | Some c \<Rightarrow>
          if \<not> with_capture then None
          else Some \<lparr>tcm_before = cap_before c, tcm_after = cap_after c, tcm_placements = map placement_model (cap_placements c)\<rparr>)"

definition browser_model :: "BrowserContext option \<Rightarrow> PiiBrowserContextModel option" where
  "browser_model browser = map_option
     (\<lambda>b. \<lparr>bcm_host = bc_host b, bcm_trust_class = bc_trust_class b, bcm_action = bc_action b\<rparr>) browser"

definition to_model :: "PiiActivityEvent \<Rightarrow> bool \<Rightarrow> PiiActivityEventModel" where
  "to_model event with_capture =
     \<lparr>em_id = ev_id event, em_at = ev_at event, em_surface = ev_surface event, em_direction = ev_direction event,
      em_outcome = outcome_model (ev_outcome event), em_duration_ms = ev_duration_ms event,
      em_entity_counts = ev_entity_counts event, em_action_counts = ev_action_counts event,
      em_token_count = ev_token_count event, em_resolved_count = ev_resolved_count event,
      em_ner_stage_ran = ev_ner_stage_ran event, em_request_id = ev_request_id event, em_session_id = ev_session_id event,
      em_key_alias = ev_key_alias event, em_user_id = ev_user_id event, em_model = ev_model event,
      em_guardrail_name = ev_guardrail_name event, em_browser = browser_model (ev_browser event),
      em_capture = capture_model event with_capture,
      em_capture_withheld = (ev_capture event \<noteq> None \<and> \<not> with_capture)\<rparr>"

definition read_pii_activity ::
  "Externals \<Rightarrow> UserAPIKeyAuth \<Rightarrow> nat \<Rightarrow> PiiSurface option \<Rightarrow> PiiDirection option \<Rightarrow> string option \<Rightarrow> PiiActivityLog \<Rightarrow> PiiActivityResponse" where
  "read_pii_activity ext caller limit surface direction request alog =
     (let with_capture = may_read_capture caller in
      \<lparr>par_events = map (\<lambda>event. to_model event with_capture) (recent limit surface direction request alog),
       par_capture_enabled = capture_enabled (ext_getenv ext)\<rparr>)"

definition keepalive_frame :: string where "keepalive_frame = '': keepalive'' @ [CHR 0x0A, CHR 0x0A]"

text \<open>One step of the stream of a subscriber: the next event, or a comment when none came in time.\<close>

definition stream_step ::
  "(PiiActivityEventModel \<Rightarrow> string) \<Rightarrow> UserAPIKeyAuth \<Rightarrow> nat \<Rightarrow> PiiActivityLog \<Rightarrow> string \<times> PiiActivityLog" where
  "stream_step model_dump_json caller s alog =
     (case queue_get s alog of
        (None, alog') \<Rightarrow> (keepalive_frame, alog')
      | (Some event, alog') \<Rightarrow>
          (''data: '' @ model_dump_json (to_model event (may_read_capture caller)) @ [CHR 0x0A, CHR 0x0A], alog'))"

definition ingest_outcome :: "PiiActivityIngestRequest \<Rightarrow> PiiOutcome" where
  "ingest_outcome request =
     (case ir_blocked_entity_type request of
        Some ety \<Rightarrow> Blocked ety
      | None \<Rightarrow> (case ir_failed_reason request of Some reason \<Rightarrow> Failed reason | None \<Rightarrow> Applied))"

definition ingest_counts :: "string list \<Rightarrow> counts" where
  "ingest_counts entity_types = counts_of entity_types"

definition ingest_pii_activity :: "PiiActivityIngestRequest \<Rightarrow> UserAPIKeyAuth \<Rightarrow> string \<times> int \<Rightarrow> PiiActivityLog \<Rightarrow> bool \<times> PiiActivityLog" where
  "ingest_pii_activity request caller stamp alog =
     (True, record_event
       (new_event stamp EXTENSION (ir_direction request) (ingest_outcome request) (ir_duration_ms request)
          (ingest_counts (ir_entity_types request)) [] (ir_token_count request) (ir_resolved_count request) False
          None None (ua_key_alias caller) (ua_user_id caller) None None
          (Some \<lparr>bc_host = ir_host request, bc_trust_class = ir_trust_class request, bc_action = ir_action request\<rparr>) None) alog)"

section \<open>Captured text needs the grant\<close>

text \<open>Two logs that differ in what was captured only: in the texts and the placements, not in whether there is a capture.\<close>

definition same_but_captures :: "PiiActivityEvent \<Rightarrow> PiiActivityEvent \<Rightarrow> bool" where
  "same_but_captures a b \<longleftrightarrow> a\<lparr>ev_capture := None\<rparr> = b\<lparr>ev_capture := None\<rparr> \<and> (ev_capture a = None \<longleftrightarrow> ev_capture b = None)"

lemma same_but_captures_fields:
  assumes "same_but_captures a b"
  shows "to_model a False = to_model b False" "event_matches s d r a = event_matches s d r b"
proof -
  obtain c where b: "b = a\<lparr>ev_capture := c\<rparr>" "ev_capture a = None \<longleftrightarrow> c = None"
    using assms by (cases a; cases b) (auto simp: same_but_captures_def)
  then show "to_model a False = to_model b False" by (auto simp: to_model_def capture_model_def split: option.splits)
  show "event_matches s d r a = event_matches s d r b" by (simp add: b event_matches_def)
qed

lemma filter_same:
  assumes "list_all2 same_but_captures xs ys"
  shows "list_all2 same_but_captures (filter (event_matches s d r) xs) (filter (event_matches s d r) ys)"
  using assms by induction (simp_all add: same_but_captures_fields(2))

lemma map_model_same: "list_all2 same_but_captures xs ys \<Longrightarrow> map (\<lambda>e. to_model e False) xs = map (\<lambda>e. to_model e False) ys"
  by (induction rule: list_all2_induct) (simp_all add: same_but_captures_fields(1))

text \<open>
  C13: Captured text does not reach a caller without the grant. For a caller that is neither a proxy administrator nor holds
  the decode permission, the answer of the activity endpoint is the same whatever text the events of the log
  captured: it tells that a capture was withheld, and nothing of what it says.
\<close>

theorem capture_needs_grant:
  assumes "\<not> may_read_capture caller" "list_all2 same_but_captures (log_events a) (log_events b)"
  shows "read_pii_activity ext caller limit surface direction request a = read_pii_activity ext caller limit surface direction request b"
proof -
  have "list_all2 same_but_captures (rev (log_events a)) (rev (log_events b))" using assms(2) by simp
  from list_all2_takeI [OF filter_same [OF this]] have
    "list_all2 same_but_captures (recent limit surface direction request a) (recent limit surface direction request b)"
    by (simp add: recent_def)
  from map_model_same [OF this] assms(1) show ?thesis by (simp add: read_pii_activity_def)
qed

definition plain_caller :: UserAPIKeyAuth where
  "plain_caller = \<lparr>ua_api_key = Some ''k'', ua_user_id = Some ''u'', ua_team_id = None, ua_org_id = None, ua_key_alias = None,
     ua_end_user_id = None, ua_user_role = None, ua_permissions = []\<rparr>"

definition captured :: "string \<Rightarrow> PiiActivityEvent" where
  "captured t = (sample_event ''a'')\<lparr>ev_capture := Some \<lparr>cap_before = [t], cap_after = [], cap_placements = []\<rparr>\<rparr>"

theorem capture_needs_grant_witness:
  "read_pii_activity sample_externals plain_caller 5 None None None (record_event (captured ''Bob'') (new_log 3))
    = read_pii_activity sample_externals plain_caller 5 None None None (record_event (captured ''Zoe'') (new_log 3))"
proof (rule capture_needs_grant)
  show "\<not> may_read_capture plain_caller" by (simp add: may_read_capture_def plain_caller_def obj_get_def)
  show "list_all2 same_but_captures (log_events (record_event (captured ''Bob'') (new_log 3))) (log_events (record_event (captured ''Zoe'') (new_log 3)))"
    by (simp add: record_event_def deque_append_def new_log_def captured_def same_but_captures_def)
qed

end
