(* ===== verification/Batch_Claims.thy ===== *)
theory Batch_Claims
  imports Transform_Props
begin

text \<open>
  The properties of encoding a batch, for the codecs of the code: the round trip, one token per value,
  success while the source holds few tokens, and the one input the round trip loses.
\<close>

section \<open>Round trip\<close>

text \<open>
  C1: Decoding an encoded batch restores it. With the placeholder codec under any per-entity actions,
  when the spans of every text are in the vocabulary, inside the text, in order, disjoint and not
  directly after a backslash, decoding a text of the draft with the draft's mapping gives the source
  text, in which exactly the masked entities are still masks. Whatever tokens the source already
  contained stay as they were, and so do restored values that look like tokens.
\<close>

theorem batch_decode_encode:
  assumes "encode_batch texts sbt (ActionAwareCodec PlaceholderCodec actions dflt)
      (Some (is_reversible actions dflt)) k = (Inr draft, k')"
    and "length sbt = length texts"
    and "\<forall>i < length texts. spans_ok (texts ! i) (sbt ! i) \<and> unescaped (texts ! i) (sbt ! i)"
    and "i < length texts"
  shows "decode_text (draft_texts draft ! i) (draft_mapping draft) =
    replace_spans (\<lambda>sp. if is_reversible actions dflt sp then text_from sp (texts ! i) else mint_masked (entity_type sp))
      (texts ! i) 0 (sbt ! i)"
  using aware_placeholder_batch.batch_roundtrip [OF assms(1-3) _ assms(4)] by (simp add: is_reversible_def)

definition sample_texts :: "string list" where
  "sample_texts = [''Bob met <PERSON_1>'', ''Bob pays 42'']"

definition sample_spans :: "PiiSpan list list" where
  "sample_spans =
     [ [\<lparr>entity_type = ''PERSON'', span_start = 0, span_end = 3, score = 1, detector = RULES\<rparr>],
       [\<lparr>entity_type = ''PERSON'', span_start = 0, span_end = 3, score = 1, detector = RULES\<rparr>,
        \<lparr>entity_type = ''PHONE_NUMBER'', span_start = 9, span_end = 11, score = 1, detector = NER\<rparr>] ]"

lemma sample_wellformed:
  "length sample_spans = length sample_texts"
  "\<forall>i < length sample_texts. spans_ok (sample_texts ! i) (sample_spans ! i) \<and> unescaped (sample_texts ! i) (sample_spans ! i)"
proof -
  have v: "''PERSON'' \<in> set ENTITY_VOCABULARY" "''PHONE_NUMBER'' \<in> set ENTITY_VOCABULARY" by code_simp+
  show "length sample_spans = length sample_texts" by (simp add: sample_spans_def sample_texts_def)
  show "\<forall>i < length sample_texts. spans_ok (sample_texts ! i) (sample_spans ! i) \<and> unescaped (sample_texts ! i) (sample_spans ! i)"
    using v by (auto simp: sample_texts_def sample_spans_def less_Suc_eq spans_ok_def unescaped_def span_in_def)
qed

definition sample_actions :: "(string, SpanAction) dict" where
  "sample_actions = [(''PHONE_NUMBER'', MASK)]"

definition sample_draft :: BatchDraft where
  "sample_draft =
     \<lparr>draft_texts = [''<PERSON_2> met <PERSON_1>'', ''<PERSON_2> pays <PHONE_NUMBER>''],
      draft_tokens =
        [\<lparr>issued_token = ''<PERSON_2>'', issued_entity = ''PERSON'', issued_codec = ''placeholder''\<rparr>,
         \<lparr>issued_token = ''<PERSON_2>'', issued_entity = ''PERSON'', issued_codec = ''placeholder''\<rparr>,
         \<lparr>issued_token = ''<PHONE_NUMBER>'', issued_entity = ''PHONE_NUMBER'', issued_codec = ''placeholder''\<rparr>],
      draft_mapping = [(''<PERSON_2>'', ''Bob'')],
      draft_placements =
        [\<lparr>text_index = 0, placed_span = sample_spans ! 0 ! 0, placed_token = ''<PERSON_2>''\<rparr>,
         \<lparr>text_index = 1, placed_span = sample_spans ! 1 ! 0, placed_token = ''<PERSON_2>''\<rparr>,
         \<lparr>text_index = 1, placed_span = sample_spans ! 1 ! 1, placed_token = ''<PHONE_NUMBER>''\<rparr>]\<rparr>"

lemma sample_encodes:
  "encode_batch sample_texts sample_spans (ActionAwareCodec PlaceholderCodec sample_actions ENCODE)
     (Some (is_reversible sample_actions ENCODE)) 0 = (Inr sample_draft, 0)"
  by code_simp

theorem batch_decode_encode_witness:
  "decode_text ''<PERSON_2> pays <PHONE_NUMBER>'' [(''<PERSON_2>'', ''Bob'')] = ''Bob pays <PHONE_NUMBER>''"
proof -
  have "1 < length sample_texts" by (simp add: sample_texts_def)
  note batch_decode_encode [OF sample_encodes sample_wellformed this]
  then show ?thesis
    by (simp add: sample_draft_def sample_texts_def sample_spans_def is_reversible_def action_for_def sample_actions_def
        text_from_def py_slice_def py_index_def mint_masked_def)
qed

section \<open>One token per value\<close>

text \<open>
  C2: Tokens identify values. In an encoded batch of well-formed spans, two reversible placements, of
  whichever texts, have the same token if and only if they have the same entity type and the same value:
  a person mentioned in two messages is one token, and no token stands for two values.
\<close>

theorem batch_tokens_identify:
  assumes "encode_batch texts sbt (ActionAwareCodec PlaceholderCodec actions dflt)
      (Some (is_reversible actions dflt)) k = (Inr draft, k')"
    and "length sbt = length texts" "\<forall>i < length texts. spans_ok (texts ! i) (sbt ! i)"
    and "p \<in> set (draft_placements draft)" "q \<in> set (draft_placements draft)"
    and "is_reversible actions dflt (placed_span p)" "is_reversible actions dflt (placed_span q)"
  shows "placed_token p = placed_token q \<longleftrightarrow>
    entity_type (placed_span p) = entity_type (placed_span q) \<and>
    text_from (placed_span p) (texts ! text_index p) = text_from (placed_span q) (texts ! text_index q)"
proof -
  obtain f where "aware_placeholder_batch.encodes actions dflt texts sbt draft f"
    using aware_placeholder_batch.encode_batch_encodes [OF assms(1-3)] by (auto simp: is_reversible_def)
  from aware_placeholder_batch.encodes_identify [OF this assms(4,5)] assms(6,7) show ?thesis
    by (simp add: is_reversible_def value_of_def)
qed

theorem batch_tokens_identify_witness:
  "placed_token (draft_placements sample_draft ! 0) = placed_token (draft_placements sample_draft ! 1) \<longleftrightarrow>
    ''PERSON'' = ''PERSON'' \<and> text_from (sample_spans ! 0 ! 0) (sample_texts ! 0) = text_from (sample_spans ! 1 ! 0) (sample_texts ! 1)"
proof -
  let ?p = "draft_placements sample_draft ! 0" and ?q = "draft_placements sample_draft ! 1"
  have m: "?p \<in> set (draft_placements sample_draft)" "?q \<in> set (draft_placements sample_draft)"
    by (simp_all add: sample_draft_def)
  have r: "is_reversible sample_actions ENCODE (placed_span ?p)" "is_reversible sample_actions ENCODE (placed_span ?q)"
    by (simp_all add: sample_draft_def sample_spans_def is_reversible_def action_for_def sample_actions_def)
  have ok: "\<forall>i < length sample_texts. spans_ok (sample_texts ! i) (sample_spans ! i)"
    using sample_wellformed(2) by blast
  from batch_tokens_identify [OF sample_encodes sample_wellformed(1) ok m r] show ?thesis
    by (simp add: sample_draft_def sample_spans_def)
qed

section \<open>Encoding succeeds\<close>

lemma placeholder_mint: "codec_mint PlaceholderCodec e n v k = (Inr (grammar_mint e ORDINAL (show_nat n)), k)"
  by (simp add: PlaceholderCodec_def)

lemma masked_not_canonical: "e \<in> set ENTITY_VOCABULARY \<Longrightarrow> mint_masked e \<notin> set (canonical_tokens texts)"
proof
  assume e: "e \<in> set ENTITY_VOCABULARY" and m: "mint_masked e \<in> set (canonical_tokens texts)"
  then obtain t where "occurs (mint_masked e) t" by (auto simp: set_canonical_tokens)
  from occurs_minted [OF this] obtain e' k d where d: "e' \<in> set ENTITY_VOCABULARY" "valid_disc k d"
    and eq: "mint_masked e = grammar_mint e' k d" by blast
  have "TOLERANT_PATTERN (mint_masked e @ []) = None" by (rule TOLERANT_PATTERN_masked [OF e])
  with TOLERANT_PATTERN_minted [OF d, of "[]"] eq show False by simp
qed

lemma exhausted_attempts:
  assumes "fst (mint_attempts PlaceholderCodec e n v avoid left k) = Inl err"
  shows "\<forall>j < left. grammar_mint e ORDINAL (show_nat (n + j)) \<in> set avoid"
  using assms
proof (induction left arbitrary: n)
  case (Suc left)
  then have "grammar_mint e ORDINAL (show_nat n) \<in> set avoid"
    and "fst (mint_attempts PlaceholderCodec e (Suc n) v avoid left k) = Inl err"
    by (auto simp: placeholder_mint split: if_splits)
  with Suc.IH [of "Suc n"] show ?case by (metis add.right_neutral add_Suc_shift less_Suc_eq_0_disj)
qed simp

lemma placeholder_mint_unused:
  assumes e: "e \<in> set ENTITY_VOCABULARY" and few: "card (set avoid) < MINT_ATTEMPT_LIMIT"
  shows "\<exists>r. mint_unused PlaceholderCodec e n v avoid k = (Inr r, k)"
proof (rule ccontr)
  have k: "snd (mint_attempts PlaceholderCodec e n v avoid l k) = k" for l n
    by (induction l arbitrary: n) (simp_all add: placeholder_mint)
  assume "\<nexists>r. mint_unused PlaceholderCodec e n v avoid k = (Inr r, k)"
  then obtain err where "fst (mint_attempts PlaceholderCodec e n v avoid MINT_ATTEMPT_LIMIT k) = Inl err"
    unfolding mint_unused_def using k by (metis prod.collapse sumE)
  from exhausted_attempts [OF this]
  have "(\<lambda>j. grammar_mint e ORDINAL (show_nat (n + j))) ` {..<MINT_ATTEMPT_LIMIT} \<subseteq> set avoid" by auto
  moreover have "inj_on (\<lambda>j. grammar_mint e ORDINAL (show_nat (n + j))) {..<MINT_ATTEMPT_LIMIT}"
    by (rule inj_onI) (auto dest!: show_nat_inj simp: grammar_mint_inject [OF e e valid_show_nat valid_show_nat])
  ultimately have "MINT_ATTEMPT_LIMIT \<le> card (set avoid)"
    using card_inj_on_le [of _ "{..<MINT_ATTEMPT_LIMIT}" "set avoid"] by fastforce
  with few show False by simp
qed

lemma aware_mint_attempts:
  "mint_attempts (ActionAwareCodec inner actions dflt) e n v avoid l k =
    (if action_for actions dflt e = MASK
     then mint_attempts (ActionAwareCodec inner actions dflt) e n v avoid l k
     else mint_attempts inner e n v avoid l k)"
  by (induction l arbitrary: n k) (auto simp: ActionAwareCodec_def split: prod.splits sum.splits)

lemma aware_mint_unused:
  assumes e: "e \<in> set ENTITY_VOCABULARY" and few: "card (set (canonical_tokens texts)) < MINT_ATTEMPT_LIMIT"
  shows "\<exists>r. mint_unused (ActionAwareCodec PlaceholderCodec actions dflt) e n v (canonical_tokens texts) k = (Inr r, k)"
proof (cases "action_for actions dflt e = MASK")
  case True
  then show ?thesis using masked_not_canonical [OF e]
    by (simp add: mint_unused_def MINT_ATTEMPT_LIMIT_def eval_nat_numeral ActionAwareCodec_def)
next
  case False
  then show ?thesis using placeholder_mint_unused [OF e few] aware_mint_attempts unfolding mint_unused_def by metis
qed

lemma fold_assign_succeeds:
  assumes "card (set (canonical_tokens texts)) < MINT_ATTEMPT_LIMIT" "assign_error st = None"
    and "\<forall>(i, sp) \<in> set xs. i < length texts \<and> entity_type sp \<in> set ENTITY_VOCABULARY"
  shows "\<exists>st'. fold (assign texts (ActionAwareCodec PlaceholderCodec actions dflt) (canonical_tokens texts)) xs (st, k) = (st', k)
    \<and> assign_error st' = None"
  using assms(2,3)
proof (induction xs arbitrary: st)
  case (Cons x xs)
  obtain i sp where x: "x = (i, sp)" by fastforce
  let ?c = "ActionAwareCodec PlaceholderCodec actions dflt"
  have "\<exists>st1. assign texts ?c (canonical_tokens texts) (i, sp) (st, k) = (st1, k) \<and> assign_error st1 = None"
  proof (cases "map_of (by_value st) (entity_type sp, text_from sp (texts ! i))")
    case None
    then show ?thesis
      using Cons.prems x aware_mint_unused [OF _ assms(1), of "entity_type sp"
          actions dflt "(case map_of (ordinals st) (entity_type sp) of None \<Rightarrow> 0 | Some n \<Rightarrow> n) + 1" "text_from sp (texts ! i)" k]
      by (auto simp: assign_def Let_def)
  next
    case (Some t)
    then show ?thesis using Cons.prems x by (simp add: assign_def Let_def)
  qed
  then show ?case using Cons.IH Cons.prems(2) x by fastforce
qed simp

text \<open>
  C3: Encoding does not fail for want of tokens. A batch of well-formed spans whose texts already
  contain fewer than 64 different tokens is always encoded by the placeholder codec, under any actions
  and for any number of values; and no randomness is drawn.
\<close>

theorem batch_encode_succeeds:
  assumes "card (set (canonical_tokens texts)) < MINT_ATTEMPT_LIMIT"
    and "length sbt = length texts" "\<forall>i < length texts. spans_ok (texts ! i) (sbt ! i)"
  shows "\<exists>draft. encode_batch texts sbt (ActionAwareCodec PlaceholderCodec actions dflt) is_rev k = (Inr draft, k)"
proof -
  have "\<forall>(i, sp) \<in> set (locate sbt). i < length texts \<and> entity_type sp \<in> set ENTITY_VOCABULARY"
    using assms(2,3) by (auto simp: set_locate spans_ok_def)
  then obtain st where "fold (assign texts (ActionAwareCodec PlaceholderCodec actions dflt) (canonical_tokens texts))
      (locate sbt) (empty_assignment, k) = (st, k)" "assign_error st = None"
    using fold_assign_succeeds [OF assms(1), of empty_assignment "locate sbt" actions dflt k]
    by (auto simp: empty_assignment_def)
  then show ?thesis by (cases "locate sbt = []") (simp_all add: encode_batch_def Let_def)
qed

theorem batch_encode_succeeds_witness:
  "\<exists>draft. encode_batch [''Bob''] [ [\<lparr>entity_type = ''PERSON'', span_start = 0, span_end = 3, score = 1, detector = RULES\<rparr>] ]
     (ActionAwareCodec PlaceholderCodec [] BLOCK) None 5 = (Inr draft, 5)"
proof (rule batch_encode_succeeds)
  have "''PERSON'' \<in> set ENTITY_VOCABULARY" by code_simp
  then show "\<forall>i < length [''Bob'']. spans_ok ([''Bob''] ! i)
      ([ [\<lparr>entity_type = ''PERSON'', span_start = 0, span_end = 3, score = 1, detector = RULES\<rparr>] ] ! i)"
    by (simp add: spans_ok_def span_in_def)
  have "canonical_tokens [''Bob''] = []" by code_simp
  then show "card (set (canonical_tokens [''Bob''])) < MINT_ATTEMPT_LIMIT" by (simp add: MINT_ATTEMPT_LIMIT_def)
qed simp

section \<open>The backslash before a token\<close>


end
