(* ===== verification/Cache_Store.thy ===== *)
theory Cache_Store
  imports Store_Laws
begin

text \<open>
  The dual-cache store against the contract of a token store: sound for every cache that invents nothing
  and every value whose sealed form is not JSON. Its completeness is shown for an in-memory deployment
  with room for the batch.
\<close>

section \<open>What a store relies on of its cache\<close>

locale kv_cache =
  fixes cache :: "'c AsyncKeyValueCache"
    and peek :: "'c \<Rightarrow> string \<Rightarrow> pyobj option"
    and valid :: "'c \<Rightarrow> bool"
  assumes set_peek: "valid c \<Longrightarrow> kv_set cache key v ttl c = (exc, c') \<Longrightarrow>
      valid c' \<and> (\<forall>k x. peek c' k = Some x \<longrightarrow> k = key \<and> x = PStr v \<or> peek c k = Some x)"
    and get_peek: "valid c \<Longrightarrow> kv_batch_get cache keys c = (Inr answer, c') \<Longrightarrow>
      valid c' \<and> (\<forall>vs i. as_list answer = Some vs \<longrightarrow> length vs = length keys \<longrightarrow> i < length keys \<longrightarrow> vs ! i \<noteq> PNone \<longrightarrow>
         (\<exists>x. peek c (keys ! i) = Some x \<and> vs ! i = decoded x))"
begin

lemma write_all_peek:
  assumes "valid c" "write_all cache sc ttl es c = (exc, c')"
  shows "valid c' \<and> (\<forall>k x. peek c' k = Some x \<longrightarrow> (\<exists>t s. (t, s) \<in> set es \<and> k = cache_key sc t \<and> x = PStr s) \<or> peek c k = Some x)"
  using assms
proof (induction es arbitrary: c exc c')
  case (Cons e es)
  obtain t s where e: "e = (t, s)" by fastforce
  obtain exc1 c1 where s: "kv_set cache (cache_key sc t) s ttl c = (exc1, c1)" by fastforce
  obtain exc2 c2 where r: "write_all cache sc ttl es c1 = (exc2, c2)" by fastforce
  have c2: "c' = c2" using Cons.prems(2) e s r by simp
  from set_peek [OF Cons.prems(1) s] have v: "valid c1" and p: "\<forall>k x. peek c1 k = Some x \<longrightarrow> k = cache_key sc t \<and> x = PStr s \<or> peek c k = Some x"
    by simp_all
  from Cons.IH [OF v r] p show ?case unfolding c2 e by (fastforce simp del: write_all.simps)
qed simp

end

text \<open>The value a token has in a cache: read as the cache reads it, and opened.\<close>

definition cached_value :: "ValueCipher \<Rightarrow> ('c \<Rightarrow> string \<Rightarrow> pyobj option) \<Rightarrow> 'c \<times> draws \<Rightarrow> TokenScope \<Rightarrow> string \<Rightarrow> string option" where
  "cached_value cipher peek w sc t = (case peek (fst w) (cache_key sc t) of
     None \<Rightarrow> None
   | Some x \<Rightarrow> (case as_str (decoded x) of
       None \<Rightarrow> None
     | Some s \<Rightarrow> (case unseal cipher s of Inl e \<Rightarrow> None | Inr v \<Rightarrow> Some v)))"

locale sealed_cache = kv_cache +
  fixes cipher :: ValueCipher and storable :: "string \<Rightarrow> bool"
  assumes seal_storable: "storable v \<Longrightarrow> seal cipher v k = (Inr s, k') \<Longrightarrow> json_loads s = None \<and> unseal cipher s = Inr v"
begin

lemma seal_all_opens:
  assumes "seal_all cipher es k = (rs, k')" "\<forall>v \<in> snd ` set es. storable v" "(t, Inr s) \<in> set rs"
  shows "\<exists>v. (t, v) \<in> set es \<and> json_loads s = None \<and> unseal cipher s = Inr v"
  using assms
proof (induction es arbitrary: k rs)
  case (Cons e es)
  obtain t' v where e: "e = (t', v)" by fastforce
  obtain r k1 where s: "seal cipher v k = (r, k1)" by fastforce
  obtain rs' k2 where a: "seal_all cipher es k1 = (rs', k2)" by fastforce
  have rs: "rs = (t', r) # rs'" "k' = k2" using Cons.prems(1) e s a by auto
  show ?case
  proof (cases "(t, Inr s) \<in> set rs'")
    case True
    with Cons.IH [of k1 rs'] a rs Cons.prems(2) show ?thesis by auto
  next
    case False
    with Cons.prems(3) rs have "t = t'" "r = Inr s" by auto
    with s seal_storable [of v] Cons.prems(2) e show ?thesis by auto
  qed
qed simp

lemma cache_put_sound:
  assumes "valid (fst w)" "\<forall>v \<in> snd ` set es. storable v" "dual_put_many cache cipher ttl sc es w = (None, w')"
  shows "valid (fst w') \<and> (\<forall>t v. cached_value cipher peek w' sc t = Some v \<longrightarrow> (t, v) \<in> set es \<or> cached_value cipher peek w sc t = Some v)"
proof -
  obtain c k where w: "w = (c, k)" by fastforce
  obtain rs k' where s: "seal_all cipher es k = (rs, k')" by fastforce
  define sealed where "sealed = List.map_filter (\<lambda>(t, r). case r of Inr s \<Rightarrow> Some (t, s) | Inl _ \<Rightarrow> None) rs"
  obtain exc c' where wr: "write_all cache sc ttl sealed c = (exc, c')" by fastforce
  from assms(3) have w': "w' = (c', k')"
    by (auto simp: dual_put_many_def w s wr [unfolded sealed_def] split: list.splits option.splits)
  have in_rs: "(t, Inr s) \<in> set rs" if "(t, s) \<in> set sealed" for t s
    using that unfolding sealed_def by (auto simp: List.map_filter_def split: sum.splits)
  note p = write_all_peek [OF _ wr]
  show ?thesis
  proof (intro conjI allI impI)
    show "valid (fst w')" using p assms(1) by (simp add: w w')
    fix t v assume h: "cached_value cipher peek w' sc t = Some v"
    then obtain x where x: "peek c' (cache_key sc t) = Some x" by (auto simp: cached_value_def w' split: option.splits)
    with p assms(1) consider t' s where "(t', s) \<in> set sealed" "cache_key sc t = cache_key sc t'" "x = PStr s"
      | "peek c (cache_key sc t) = Some x" by (fastforce simp: w)
    then show "(t, v) \<in> set es \<or> cached_value cipher peek w sc t = Some v"
    proof cases
      case 1
      then have "t' = t" by (simp add: cache_key_def)
      with seal_all_opens [OF s assms(2) in_rs [OF 1(1)]] obtain u where
        "(t, u) \<in> set es" "json_loads s = None" "unseal cipher s = Inr u" by blast
      with h x 1(3) show ?thesis by (simp add: cached_value_def w' decoded_def)
    next
      case 2
      with h x show ?thesis by (simp add: cached_value_def w w')
    qed
  qed
qed

lemma cache_get_sound:
  assumes "valid (fst w)" "dual_get_many cache cipher ttl sc ts w = (Inr d, w')"
  shows "valid (fst w') \<and> (\<forall>t v. map_of d t = Some v \<longrightarrow> t \<in> set ts \<and> cached_value cipher peek w sc t = Some v)"
proof -
  obtain c k where w: "w = (c, k)" by fastforce
  show ?thesis
  proof (cases "ts = []")
    case True
    with assms w show ?thesis by (auto simp: dual_get_many_def)
  next
    case False
    obtain answer c' vs where b: "kv_batch_get cache (map (cache_key sc) ts) c = (Inr answer, c')" "as_list answer = Some vs"
      and len: "length vs = length ts" and ok: "List.find (\<lambda>(t, r). isl r) (open_all cipher ts vs) = None"
      and d: "d = dict_of (map (\<lambda>(t, r). (t, projr r)) (open_all cipher ts vs))" and w': "w' = (c', k)"
      using assms(2) False w
      by (auto simp: dual_get_many_def Let_def split: prod.splits sum.splits option.splits if_splits)
    note g = get_peek [OF _ b(1)]
    have "t \<in> set ts \<and> cached_value cipher peek w sc t = Some v" if "map_of d t = Some v" for t v
    proof -
      from that have "(t, v) \<in> set d" by (rule map_of_SomeD)
      then obtain r where tr: "(t, r) \<in> set (open_all cipher ts vs)" "v = projr r" using set_dict_of_sub unfolding d by fastforce
      then obtain x s where x: "(t, x) \<in> set (zip ts vs)" "as_str x = Some s" "r = unseal cipher s"
        by (auto simp: open_all_def List.map_filter_def)
      then obtain i where i: "i < length ts" "ts ! i = t" "vs ! i = x" using len by (auto simp: in_set_zip)
      have "x \<noteq> PNone" using x(2) by auto
      then obtain y where y: "peek c (cache_key sc t) = Some y" "x = decoded y"
        using g assms(1) b(2) len i by (fastforce simp: w)
      have "\<not> isl r" using ok tr(1) by (auto simp: find_None_iff)
      with x y tr(2) i show ?thesis by (cases "unseal cipher s") (auto simp: cached_value_def w)
    qed
    then show ?thesis using g assms(1) by (simp add: w w')
  qed
qed

end

sublocale sealed_cache \<subseteq> token_store "dual_put_many cache cipher ttl" "dual_get_many cache cipher ttl" storable "cached_value cipher peek" "\<lambda>w. valid (fst w)" for ttl
  using cache_put_sound cache_get_sound by unfold_locales blast+

section \<open>The in-memory deployment\<close>

definition memory_peek :: "'r DualCache \<Rightarrow> string \<Rightarrow> pyobj option" where
  "memory_peek d = map_of (cache_dict (in_memory_cache d))"

lemma remove_key_shrinks: "map_of (cache_dict (remove_key key c)) \<subseteq>\<^sub>m map_of (cache_dict c)"
  by (auto simp: remove_key_def map_of_delete map_le_def)

lemma evict_expired_shrinks: "map_of (cache_dict (evict_expired now c)) \<subseteq>\<^sub>m map_of (cache_dict c)"
proof (induction now c rule: evict_expired.induct)
  case (1 now c)
  show ?case
  proof (cases "expiration_heap c")
    case (Cons x rest)
    obtain e key where x: "x = (e, key)" by fastforce
    show ?thesis
      using "1.IH" Cons x map_le_trans [OF _ remove_key_shrinks, of _ key "c\<lparr>expiration_heap := rest\<rparr>"]
      by (subst evict_expired.simps) auto
  qed (subst evict_expired.simps, simp)
qed

lemma evict_full_shrinks: "evict_full c = Inr c' \<Longrightarrow> map_of (cache_dict c') \<subseteq>\<^sub>m map_of (cache_dict c)"
proof (induction c rule: evict_full.induct)
  case (1 c)
  show ?case
  proof (cases "int (length (cache_dict c)) < max_size_in_memory c")
    case True
    with "1.prems" show ?thesis by (subst (asm) evict_full.simps) simp
  next
    case False
    with "1.prems" obtain e key rest where h: "expiration_heap c = (e, key) # rest"
      by (subst (asm) evict_full.simps) (auto split: list.splits)
    show ?thesis
    proof (cases "map_of (ttl_dict c) key = Some e")
      case True
      with "1.prems" False h have "evict_full (remove_key key (c\<lparr>expiration_heap := rest\<rparr>)) = Inr c'"
        by (subst (asm) evict_full.simps) simp
      from "1.IH"(1) [OF False h refl True this] show ?thesis
        using map_le_trans [OF _ remove_key_shrinks, of _ key "c\<lparr>expiration_heap := rest\<rparr>"] by simp
    next
      case ne: False
      with "1.prems" False h have "evict_full (c\<lparr>expiration_heap := rest\<rparr>) = Inr c'"
        by (subst (asm) evict_full.simps) simp
      from "1.IH"(2) [OF False h refl ne this] show ?thesis by simp
    qed
  qed
qed

lemma set_cache_peek:
  assumes "set_cache py_str sizeof now key v ttl c = Inr c'" "map_of (cache_dict c') k = Some x"
  shows "k = key \<and> x = v \<or> map_of (cache_dict c) k = Some x"
proof (cases "max_size_in_memory c = 0")
  case True
  with assms show ?thesis by (simp add: set_cache_def)
next
  case False
  then obtain c1 where c1: "evict_cache now c = Inr c1" using assms(1) by (auto simp: set_cache_def split: sum.splits)
  have "map_of (cache_dict c1) \<subseteq>\<^sub>m map_of (cache_dict c)"
    using c1 unfolding evict_cache_def by (rule map_le_trans [OF evict_full_shrinks evict_expired_shrinks])
  moreover have "k = key \<and> x = v \<or> map_of (cache_dict c1) k = Some x"
    using assms False c1 by (auto simp: set_cache_def Let_def update_conv' split: if_splits)
  ultimately show ?thesis by (auto simp: map_le_def dom_def)
qed

interpretation memory_cache: kv_cache "cache_of_dual py_str sizeof now" memory_peek "\<lambda>d. redis_cache d = None"
  for py_str sizeof now
proof
  fix c :: "'a DualCache" and key v ttl exc c'
  assume r: "redis_cache c = None" and s: "kv_set (cache_of_dual py_str sizeof now) key v ttl c = (exc, c')"
  then have c': "c' = (case set_cache py_str sizeof now key (PStr v) (backfill_ttl c (Some (of_int ttl))) (in_memory_cache c) of
      Inl exc \<Rightarrow> c | Inr m \<Rightarrow> c\<lparr>in_memory_cache := m\<rparr>)"
    by (simp add: cache_of_dual_def dual_async_set_cache_def dual_set_cache_def Let_def split: sum.splits)
  show "redis_cache c' = None \<and> (\<forall>k x. memory_peek c' k = Some x \<longrightarrow> k = key \<and> x = PStr v \<or> memory_peek c k = Some x)"
    using r set_cache_peek by (fastforce simp: c' memory_peek_def split: sum.splits)
next
  fix c :: "'a DualCache" and keys answer c'
  assume r: "redis_cache c = None" and g: "kv_batch_get (cache_of_dual py_str sizeof now) keys c = (Inr answer, c')"
  obtain vs m where b: "async_batch_get_cache now keys (in_memory_cache c) = (vs, m)" by fastforce
  have a: "answer = PList vs" "c' = c\<lparr>in_memory_cache := m\<rparr>"
    using g r b by (auto simp: cache_of_dual_def dual_async_batch_get_cache_def Let_def)
  show "redis_cache c' = None \<and> (\<forall>vs i. as_list answer = Some vs \<longrightarrow> length vs = length keys \<longrightarrow> i < length keys \<longrightarrow> vs ! i \<noteq> PNone \<longrightarrow>
      (\<exists>x. memory_peek c (keys ! i) = Some x \<and> vs ! i = decoded x))"
    using r batch_get_sound [OF b] by (simp add: a memory_peek_def)
qed

text \<open>Plaintext in memory: sound for values that are not JSON. Sealed values never are.\<close>

interpretation null_memory: sealed_cache "cache_of_dual py_str sizeof now" memory_peek "\<lambda>d. redis_cache d = None"
    NullCipher "\<lambda>v. json_loads v = None"
  for py_str sizeof now
  by unfold_locales (simp add: NullCipher_def)

lemma aes_sealed_not_json: "aesgcm_seal urandom enc key v k = (Inr s, k') \<Longrightarrow> json_loads s = None"
proof -
  assume "aesgcm_seal urandom enc key v k = (Inr s, k')"
  then obtain r where "s = CHR ''v'' # r" by (auto simp: aesgcm_seal_def AES_GCM_PREFIX_def Let_def split: if_splits)
  then show ?thesis by (simp add: json_loads_letter json_space_def is_digit_def)
qed

lemma aes_sealed_cache:
  assumes "aead_inverse enc dec" "draws_sized urandom"
  shows "sealed_cache (cache_of_dual py_str sizeof now) memory_peek (\<lambda>d. redis_cache d = None) (AesGcmCipher urandom enc dec key) (\<lambda>_. True)"
proof (intro sealed_cache.intro sealed_cache_axioms.intro)
  show "kv_cache (cache_of_dual py_str sizeof now) memory_peek (\<lambda>d. redis_cache d = None)" by unfold_locales
next
  fix v k s k'
  assume "seal (AesGcmCipher urandom enc dec key) v k = (Inr s, k')"
  then show "json_loads s = None \<and> unseal (AesGcmCipher urandom enc dec key) s = Inr v"
    using aes_sealed_not_json aesgcm_unseal_seal [OF assms] by (auto simp: AesGcmCipher_def)
qed

section \<open>Completeness within capacity\<close>

text \<open>A key holds a value until a given time.\<close>

definition lives :: "rat \<Rightarrow> InMemoryCache \<Rightarrow> string \<Rightarrow> pyobj \<Rightarrow> bool" where
  "lives e c k v \<longleftrightarrow> map_of (cache_dict c) k = Some v \<and> map_of (ttl_dict c) k = Some e"

lemma evict_expired_keeps:
  "(lives e c k v \<longrightarrow> now < e \<longrightarrow> lives e (evict_expired now c) k v)
   \<and> map_of (ttl_dict (evict_expired now c)) \<subseteq>\<^sub>m map_of (ttl_dict c)
   \<and> length (cache_dict (evict_expired now c)) \<le> length (cache_dict c)
   \<and> max_size_in_memory (evict_expired now c) = max_size_in_memory c
   \<and> max_size_per_item (evict_expired now c) = max_size_per_item c"
proof (induction now c rule: evict_expired.induct)
  case (1 now c)
  show ?case
  proof (cases "expiration_heap c")
    case Nil
    then show ?thesis by (subst (1 2 3 4 5) evict_expired.simps) simp
  next
    case (Cons x rest)
    obtain a key where x: "x = (a, key)" by fastforce
    note h = Cons [unfolded x]
    let ?c = "c\<lparr>expiration_heap := rest\<rparr>"
    consider "map_of (ttl_dict c) key \<noteq> Some a" | "map_of (ttl_dict c) key = Some a" "a \<le> now"
      | "map_of (ttl_dict c) key = Some a" "\<not> a \<le> now" by blast
    then show ?thesis
    proof cases
      case 1
      with "1.IH"(1) [OF h refl 1] h show ?thesis by (subst (1 2 3 4 5) evict_expired.simps) (simp add: lives_def)
    next
      case 2
      have r: "lives e c k v \<longrightarrow> now < e \<longrightarrow> lives e (remove_key key ?c) k v"
        "map_of (ttl_dict (remove_key key ?c)) \<subseteq>\<^sub>m map_of (ttl_dict c)"
        "length (cache_dict (remove_key key ?c)) \<le> length (cache_dict c)"
        using 2 by (auto simp: lives_def remove_key_def map_of_delete map_le_def length_delete_le)
      have e: "evict_expired now c = evict_expired now (remove_key key ?c)"
        using 2 h by (subst evict_expired.simps) simp
      have "max_size_in_memory (remove_key key ?c) = max_size_in_memory c" "max_size_per_item (remove_key key ?c) = max_size_per_item c"
        by (simp_all add: remove_key_def)
      with "1.IH"(2) [OF h refl] 2 r map_le_trans [OF _ r(2)] show ?thesis unfolding e by auto
    next
      case 3
      with h show ?thesis by (subst (1 2 3 4 5) evict_expired.simps) simp
    qed
  qed
qed

lemma check_value_size_cong:
  "max_size_per_item c' = max_size_per_item c \<Longrightarrow> check_value_size py_str sizeof c' v = check_value_size py_str sizeof c v"
  by (simp add: check_value_size_def)

lemma set_cache_room:
  assumes "int (length (cache_dict c)) < max_size_in_memory c" "check_value_size py_str sizeof c v" "map_of (ttl_dict c) key = None" "0 < T"
  shows "\<exists>c'. set_cache py_str sizeof now key v (Some T) c = Inr c' \<and> lives (now + T) c' key v
    \<and> (\<forall>k x. k \<noteq> key \<longrightarrow> lives (now + T) c k x \<longrightarrow> lives (now + T) c' k x)
    \<and> (\<forall>k. k \<noteq> key \<longrightarrow> map_of (ttl_dict c) k = None \<longrightarrow> map_of (ttl_dict c') k = None)
    \<and> length (cache_dict c') \<le> Suc (length (cache_dict c))
    \<and> max_size_in_memory c' = max_size_in_memory c \<and> max_size_per_item c' = max_size_per_item c"
proof -
  define c1 where "c1 = evict_expired now c"
  have k: "lives e c k x \<Longrightarrow> now < e \<Longrightarrow> lives e c1 k x" "map_of (ttl_dict c1) \<subseteq>\<^sub>m map_of (ttl_dict c)"
    "length (cache_dict c1) \<le> length (cache_dict c)" "max_size_in_memory c1 = max_size_in_memory c" "max_size_per_item c1 = max_size_per_item c" for e k x
    using evict_expired_keeps [of e c k x now] unfolding c1_def by blast+
  have e: "evict_cache now c = Inr c1"
    unfolding evict_cache_def c1_def [symmetric] using k(3,4) assms(1) by (subst evict_full.simps) simp
  have n: "map_of (ttl_dict c1) j = None" if "map_of (ttl_dict c) j = None" for j
    using k(2) that unfolding map_le_def by (metis domIff)
  have s: "check_value_size py_str sizeof c1 v" using assms(2) check_value_size_cong [OF k(5)] by simp
  have l: "length (AList.update key v (cache_dict c1)) \<le> Suc (length (cache_dict c))"
    using length_update_le [of key v "cache_dict c1"] k(3) by simp
  show ?thesis
    using assms(1) e s l n assms(3,4) k
    by (auto simp: set_cache_def Let_def allow_ttl_override_def lives_def update_conv')
qed

lemma cache_key_inject [simp]: "cache_key sc t = cache_key sc t' \<longleftrightarrow> t = t'"
  by (simp add: cache_key_def)

lemma write_all_room:
  assumes "redis_cache d = None" "distinct (map fst es)" "0 < ttl"
    and "\<forall>t \<in> fst ` set es. map_of (ttl_dict (in_memory_cache d)) (cache_key sc t) = None"
    and "int (length (cache_dict (in_memory_cache d)) + length es) \<le> max_size_in_memory (in_memory_cache d)"
    and "\<forall>s \<in> snd ` set es. check_value_size py_str sizeof (in_memory_cache d) (PStr s)"
  shows "\<exists>d'. write_all (cache_of_dual py_str sizeof now) sc ttl es d = (None, d') \<and> redis_cache d' = None
    \<and> (\<forall>(t, s) \<in> set es. lives (now + of_int ttl) (in_memory_cache d') (cache_key sc t) (PStr s))
    \<and> (\<forall>k v. k \<notin> cache_key sc ` fst ` set es \<longrightarrow> lives (now + of_int ttl) (in_memory_cache d) k v \<longrightarrow> lives (now + of_int ttl) (in_memory_cache d') k v)"
  using assms
proof (induction es arbitrary: d)
  case (Cons e es)
  obtain t s where e: "e = (t, s)" by fastforce
  let ?c = "in_memory_cache d" and ?T = "of_int ttl :: rat"
  obtain c1 where c1: "set_cache py_str sizeof now (cache_key sc t) (PStr s) (Some ?T) ?c = Inr c1"
    "lives (now + ?T) c1 (cache_key sc t) (PStr s)"
    "\<forall>k x. k \<noteq> cache_key sc t \<longrightarrow> lives (now + ?T) ?c k x \<longrightarrow> lives (now + ?T) c1 k x"
    "\<forall>k. k \<noteq> cache_key sc t \<longrightarrow> map_of (ttl_dict ?c) k = None \<longrightarrow> map_of (ttl_dict c1) k = None"
    "length (cache_dict c1) \<le> Suc (length (cache_dict ?c))" "max_size_in_memory c1 = max_size_in_memory ?c" "max_size_per_item c1 = max_size_per_item ?c"
  proof -
    have a: "int (length (cache_dict ?c)) < max_size_in_memory ?c" using Cons.prems(5) by simp
    have b: "check_value_size py_str sizeof ?c (PStr s)" "map_of (ttl_dict ?c) (cache_key sc t) = None"
      using Cons.prems(4,6) by (simp_all add: e)
    have T: "0 < ?T" using Cons.prems(3) by simp
    from set_cache_room [OF a b T, of now] show thesis by (elim exE conjE) (rule that)
  qed
  let ?d = "d\<lparr>in_memory_cache := c1\<rparr>"
  have w: "kv_set (cache_of_dual py_str sizeof now) (cache_key sc t) s ttl d = (None, ?d)"
    using c1(1) Cons.prems(1) by (simp add: cache_of_dual_def dual_async_set_cache_def dual_set_cache_def backfill_ttl_def)
  obtain d' where d': "write_all (cache_of_dual py_str sizeof now) sc ttl es ?d = (None, d')" "redis_cache d' = None"
    "\<forall>(t, s) \<in> set es. lives (now + ?T) (in_memory_cache d') (cache_key sc t) (PStr s)"
    "\<forall>k v. k \<notin> cache_key sc ` fst ` set es \<longrightarrow> lives (now + ?T) c1 k v \<longrightarrow> lives (now + ?T) (in_memory_cache d') k v"
  proof -
    have m: "in_memory_cache ?d = c1" by simp
    have "\<exists>d'. write_all (cache_of_dual py_str sizeof now) sc ttl es ?d = (None, d') \<and> redis_cache d' = None
      \<and> (\<forall>(t, s) \<in> set es. lives (now + ?T) (in_memory_cache d') (cache_key sc t) (PStr s))
      \<and> (\<forall>k v. k \<notin> cache_key sc ` fst ` set es \<longrightarrow> lives (now + ?T) (in_memory_cache ?d) k v \<longrightarrow> lives (now + ?T) (in_memory_cache d') k v)"
    proof (rule Cons.IH)
      show "\<forall>t \<in> fst ` set es. map_of (ttl_dict (in_memory_cache ?d)) (cache_key sc t) = None"
      proof
        fix u assume u: "u \<in> fst ` set es"
        then have "u \<noteq> t" using Cons.prems(2) e by auto
        moreover have "map_of (ttl_dict ?c) (cache_key sc u) = None" using Cons.prems(4) u by auto
        ultimately show "map_of (ttl_dict (in_memory_cache ?d)) (cache_key sc u) = None" using c1(4) by simp
      qed
      show "\<forall>s \<in> snd ` set es. check_value_size py_str sizeof (in_memory_cache ?d) (PStr s)"
        using Cons.prems(6) check_value_size_cong [OF c1(7)] by simp
      show "int (length (cache_dict (in_memory_cache ?d)) + length es) \<le> max_size_in_memory (in_memory_cache ?d)"
        using Cons.prems(5) c1(5,6) by simp
      show "redis_cache ?d = None" "distinct (map fst es)" "0 < ttl" using Cons.prems(1-3) by simp_all
    qed
    then show thesis unfolding m by (elim exE conjE) (rule that)
  qed
  have "t \<notin> fst ` set es" using Cons.prems(2) e by simp
  then have "lives (now + ?T) (in_memory_cache d') (cache_key sc t) (PStr s)" using d'(4) c1(2) by (simp add: image_iff)
  moreover have "write_all (cache_of_dual py_str sizeof now) sc ttl (e # es) d = (None, d')" using w d'(1) e by simp
  moreover have "lives (now + ?T) (in_memory_cache d') k v"
    if "k \<notin> cache_key sc ` fst ` set (e # es)" "lives (now + ?T) ?c k v" for k v
    using that c1(3) d'(4) e by simp
  ultimately show ?case using d'(2,3) unfolding e by (intro exI [of _ d'] conjI) simp_all
qed simp

lemma batch_get_live:
  assumes "\<forall>k \<in> set keys. lives e c k (f k)" "now \<le> e"
  shows "async_batch_get_cache now keys c = (map (\<lambda>k. decoded (f k)) keys, c)"
  using assms
proof (induction keys)
  case (Cons k ks)
  then have "get_cache now k c = (decoded (f k), c)" by (intro get_cache_live) (auto simp: lives_def is_key_expired_def)
  with Cons show ?case by simp
qed simp

lemma update_new: "k \<notin> fst ` set d \<Longrightarrow> AList.update k v d = d @ [(k, v)]"
  by (induction d) auto

lemma dict_update_new: "distinct (map fst (d @ e)) \<Longrightarrow> dict_update d e = d @ e"
  by (induction e arbitrary: d) (auto simp: dict_update_def update_new)

lemma dict_of_distinct: "distinct (map fst e) \<Longrightarrow> dict_of e = e"
  by (simp add: dict_of_def dict_update_new)

text \<open>The sealed form of every value passes the cache's size check.\<close>

definition fits :: "(pyobj \<Rightarrow> string) \<Rightarrow> (pyobj \<Rightarrow> nat) \<Rightarrow> InMemoryCache \<Rightarrow> (string \<times> (pii_error + string)) list \<Rightarrow> bool" where
  "fits py_str sizeof c sealed \<longleftrightarrow> list_all (\<lambda>(t, r). isl r \<or> check_value_size py_str sizeof c (PStr (projr r))) sealed"

lemma aes_seal_all:
  assumes "aead_inverse enc dec" "draws_sized urandom" "length key = KEY_BYTES"
  shows "\<exists>ss k'. seal_all (AesGcmCipher urandom enc dec key) es k = (map2 (\<lambda>e s. (fst e, Inr s)) es ss, k') \<and> length ss = length es
    \<and> (\<forall>i < length es. aesgcm_unseal dec key (ss ! i) = Inr (snd (es ! i)) \<and> json_loads (ss ! i) = None)"
proof (induction es arbitrary: k)
  case (Cons e es)
  obtain t v where e: "e = (t, v)" by fastforce
  obtain s k1 where s: "aesgcm_seal urandom enc key v k = (Inr s, k1)" using assms(3) by (simp add: aesgcm_seal_def Let_def)
  note o = aesgcm_unseal_seal [OF assms(1,2) s] aes_sealed_not_json [OF s]
  obtain ss k' where ss: "seal_all (AesGcmCipher urandom enc dec key) es k1 = (map2 (\<lambda>e s. (fst e, Inr s)) es ss, k')"
    "length ss = length es" "\<forall>i < length es. aesgcm_unseal dec key (ss ! i) = Inr (snd (es ! i)) \<and> json_loads (ss ! i) = None"
    using Cons.IH by blast
  have "seal_all (AesGcmCipher urandom enc dec key) (e # es) k = (map2 (\<lambda>e s. (fst e, Inr s)) (e # es) (s # ss), k')"
    using s ss(1) by (simp add: e AesGcmCipher_def)
  moreover have "\<forall>i < length (e # es). aesgcm_unseal dec key ((s # ss) ! i) = Inr (snd ((e # es) ! i)) \<and> json_loads ((s # ss) ! i) = None"
    using o ss(3) by (auto simp: e nth_Cons split: nat.splits)
  ultimately show ?case using ss(2) by (metis length_Cons)
qed simp

lemma map_filter_Inr: "List.map_filter (\<lambda>(t, r). case r of Inr s \<Rightarrow> Some (t, s) | Inl _ \<Rightarrow> None) (map2 (\<lambda>e s. (fst e, Inr s)) es ss) = map2 (\<lambda>e s. (fst e, s)) es ss"
  by (induction es ss rule: list_induct2') (auto simp: List.map_filter_simps)

lemma filter_unavailable_Inr: "filter is_KeyUnavailable (map snd (map2 (\<lambda>e s. (fst e, Inr s)) es ss)) = []"
  by (auto simp: filter_empty_conv is_KeyUnavailable_def)

lemma dual_get_many_live:
  assumes "redis_cache d = None" "length ss = length es" "now \<le> e"
    and "\<forall>i < length es. lives e (in_memory_cache d) (cache_key sc (fst (es ! i))) (PStr (ss ! i))"
    and "\<forall>i < length es. unseal cipher (ss ! i) = Inr (snd (es ! i)) \<and> json_loads (ss ! i) = None" "distinct (map fst es)"
  shows "dual_get_many (cache_of_dual py_str sizeof now) cipher ttl sc (map fst es) (d, k) = (Inr es, (d, k))"
proof (cases "es = []")
  case True
  then show ?thesis by (simp add: dual_get_many_def)
next
  case False
  let ?keys = "map (cache_key sc) (map fst es)" and ?c = "in_memory_cache d"
  define f where "f = (\<lambda>k. the (map_of (cache_dict ?c) k))"
  have f: "f (cache_key sc (fst (es ! i))) = PStr (ss ! i)" if "i < length es" for i
    using assms(4) that by (simp add: f_def lives_def)
  have "\<forall>k \<in> set ?keys. lives e ?c k (f k)"
  proof
    fix k assume "k \<in> set ?keys"
    then obtain p where p: "p \<in> set es" "k = cache_key sc (fst p)" by auto
    then obtain i where i: "i < length es" "es ! i = p" unfolding in_set_conv_nth by blast
    with assms(4) f [OF i(1)] p(2) show "lives e ?c k (f k)" by auto
  qed
  from batch_get_live [OF this assms(3)]
  have b: "async_batch_get_cache now ?keys ?c = (map (\<lambda>k. decoded (f k)) ?keys, ?c)" .
  have vs: "map (\<lambda>k. decoded (f k)) ?keys = map PStr ss"
    by (rule nth_equalityI) (use f assms(2,5) in \<open>auto simp: decoded_def\<close>)
  have kv: "kv_batch_get (cache_of_dual py_str sizeof now) ?keys d = (Inr (PList (map PStr ss)), d)"
    using b vs assms(1) by (simp add: cache_of_dual_def dual_async_batch_get_cache_def)
  have op: "open_all cipher (map fst es) (map PStr ss) = map (\<lambda>(t, v). (t, Inr v)) es"
    unfolding open_all_def using assms(2,5)
  proof (induction es ss rule: list_induct2')
    case (4 x xs y ys)
    have "List.map_filter (\<lambda>(t, v). map_option (\<lambda>s. (t, unseal cipher s)) (as_str v)) (zip (map fst xs) (map PStr ys)) = map (\<lambda>(t, v). (t, Inr v)) xs"
      using 4 by (intro "4.IH") (simp, metis Suc_less_eq length_Cons nth_Cons_Suc)
    moreover have "unseal cipher y = Inr (snd x)" using "4.prems"(2) by fastforce
    ultimately show ?case by (cases x) (simp add: List.map_filter_simps)
  qed (auto simp: List.map_filter_simps)
  have mt: "first_mistyped (map PStr ss) = None" by (auto simp: first_mistyped_def find_None_iff)
  have fe: "List.find (\<lambda>(t, r). isl r) (map (\<lambda>(t, v). (t, Inr v :: pii_error + string)) es) = None" by (auto simp: find_None_iff)
  have "map (\<lambda>(t, r). (t, projr r)) (map (\<lambda>(t, v). (t, Inr v :: pii_error + string)) es) = es" by (simp add: split_beta map_idI)
  with False kv op mt fe assms(2) dict_of_distinct [OF assms(6)] show ?thesis by (simp add: dual_get_many_def Let_def)
qed

lemma dual_put_get:
  assumes "aead_inverse enc dec" "draws_sized urandom" "length key = KEY_BYTES"
    and "redis_cache d = None" "distinct (map fst es)" "0 < ttl"
    and "\<forall>t \<in> fst ` set es. map_of (ttl_dict (in_memory_cache d)) (cache_key sc t) = None"
    and "int (length (cache_dict (in_memory_cache d)) + length es) \<le> max_size_in_memory (in_memory_cache d)"
    and "fits py_str sizeof (in_memory_cache d) (fst (seal_all (AesGcmCipher urandom enc dec key) es k))"
    and "now' \<le> now + of_int ttl"
  shows "\<exists>w. dual_put_many (cache_of_dual py_str sizeof now) (AesGcmCipher urandom enc dec key) ttl sc es (d, k) = (None, w)
    \<and> dual_get_many (cache_of_dual py_str sizeof now') (AesGcmCipher urandom enc dec key) ttl sc (map fst es) w = (Inr es, w)"
proof -
  let ?cipher = "AesGcmCipher urandom enc dec key"
  obtain ss k' where ss: "seal_all ?cipher es k = (map2 (\<lambda>e s. (fst e, Inr s)) es ss, k')" "length ss = length es"
    "\<forall>i < length es. aesgcm_unseal dec key (ss ! i) = Inr (snd (es ! i)) \<and> json_loads (ss ! i) = None"
    using aes_seal_all [OF assms(1-3)] by blast
  let ?ws = "map2 (\<lambda>e s. (fst e, s)) es ss"
  have m: "map fst ?ws = map fst es" by (rule nth_equalityI) (simp_all add: ss(2))
  have sz: "\<forall>s \<in> snd ` set ?ws. check_value_size py_str sizeof (in_memory_cache d) (PStr s)"
    using assms(9) unfolding ss(1) fits_def by (auto simp: list_all_iff split_beta)
  have k: "fst ` set ?ws = fst ` set es" using m by (metis set_map)
  obtain d' where d': "write_all (cache_of_dual py_str sizeof now) sc ttl ?ws d = (None, d')" "redis_cache d' = None"
    "\<forall>(t, s) \<in> set ?ws. lives (now + of_int ttl) (in_memory_cache d') (cache_key sc t) (PStr s)"
  proof -
    have a: "distinct (map fst ?ws)" unfolding m by (rule assms(5))
    have b: "\<forall>t \<in> fst ` set ?ws. map_of (ttl_dict (in_memory_cache d)) (cache_key sc t) = None" unfolding k by (rule assms(7))
    have c: "int (length (cache_dict (in_memory_cache d)) + length ?ws) \<le> max_size_in_memory (in_memory_cache d)"
      using assms(8) ss(2) by simp
    from write_all_room [OF assms(4) a assms(6) b c sz, of now] show thesis by (elim exE conjE) (rule that)
  qed
  have put: "dual_put_many (cache_of_dual py_str sizeof now) ?cipher ttl sc es (d, k) = (None, (d', k'))"
    by (simp only: dual_put_many_def ss(1) prod.case filter_unavailable_Inr list.case map_filter_Inr d'(1) option.case)
  have "(fst (es ! i), ss ! i) \<in> set ?ws" if "i < length es" for i using that ss(2) by (force simp: in_set_conv_nth)
  then have l: "\<forall>i < length es. lives (now + of_int ttl) (in_memory_cache d') (cache_key sc (fst (es ! i))) (PStr (ss ! i))"
    using d'(3) by fastforce
  have "dual_get_many (cache_of_dual py_str sizeof now') ?cipher ttl sc (map fst es) (d', k') = (Inr es, (d', k'))"
    by (rule dual_get_many_live [OF d'(2) ss(2) assms(10) l _ assms(5)]) (use ss(3) in \<open>simp add: AesGcmCipher_def\<close>)
  with put show ?thesis by blast
qed


text \<open>Concrete AES and random draws, for examples.\<close>

definition sample_cipher :: ValueCipher where
  "sample_cipher = AesGcmCipher (\<lambda>k n. replicate n (CHR ''n'')) (\<lambda>key nonce p aad. rev p) (\<lambda>key nonce b aad. Inr (rev b))
     (replicate 32 (CHR ''k''))"

definition sample_dual :: "unit DualCache" where
  "sample_dual = new_DualCache None None None None None () None None None 1000"

definition sample_scope :: TokenScope where
  "sample_scope = \<lparr>namespace = ''ns'', session_id = ''s''\<rparr>"

lemma sample_aes: "aead_inverse (\<lambda>key nonce p aad. rev p) (\<lambda>key nonce b aad. Inr (rev b))" "draws_sized (\<lambda>k n. replicate n (CHR ''n''))"
  by (simp_all add: aead_inverse_def draws_sized_def)

definition sample_entries :: "(string, string) dict" where
  "sample_entries = [(''<PERSON_1>'', ''4111''), (''<PERSON_2>'', ''Bo'')]"

lemma sample_dual_fields:
  "redis_cache sample_dual = None" "ttl_dict (in_memory_cache sample_dual) = []" "cache_dict (in_memory_cache sample_dual) = []"
  "max_size_in_memory (in_memory_cache sample_dual) = 200" "max_size_per_item (in_memory_cache sample_dual) = 1024"
  "memory_peek sample_dual x = None"
  by (simp_all add: sample_dual_def new_DualCache_def new_InMemoryCache_def memory_peek_def)

lemma sample_fits: "fits (\<lambda>v. []) (\<lambda>v. 0) (in_memory_cache sample_dual) x"
  by (simp add: fits_def list_all_iff check_value_size_def sample_dual_fields split_beta)

lemmas sample_simps = sample_dual_fields sample_fits sample_entries_def KEY_BYTES_def


text \<open>
  C27: The cache-backed store never answers a wrong value. Whatever the capacity, eviction and expiry do
  to it in between, what an in-memory deployment with an AES key answers for a token new to the scope
  is the value that was put for that token: a batch is read back wholly, partly or not at all, and
  never altered or mixed up.
\<close>

theorem dual_store_never_wrong:
  assumes "aead_inverse enc dec" "draws_sized urandom" "redis_cache d = None"
    and "\<forall>t \<in> fst ` set es. memory_peek d (cache_key sc t) = None"
    and "dual_put_many (cache_of_dual py_str sizeof now) (AesGcmCipher urandom enc dec key) ttl sc es (d, k) = (None, w)"
    and "dual_get_many (cache_of_dual py_str sizeof now') (AesGcmCipher urandom enc dec key) ttl sc ts w = (Inr hits, w')"
    and "map_of hits t = Some v" "t \<in> fst ` set es"
  shows "(t, v) \<in> set es"
proof -
  let ?cipher = "AesGcmCipher urandom enc dec key"
  note put = sealed_cache.cache_put_sound [OF aes_sealed_cache [OF assms(1,2)] _ _ assms(5)]
  note got = sealed_cache.cache_get_sound [OF aes_sealed_cache [OF assms(1,2)] _ assms(6)]
  have h: "cached_value ?cipher memory_peek w sc t = Some v"
    using put got assms(3,7) by auto
  moreover have "cached_value ?cipher memory_peek (d, k) sc t = None" using assms(4,8) by (auto simp: cached_value_def)
  moreover have "\<forall>t v. cached_value ?cipher memory_peek w sc t = Some v \<longrightarrow> (t, v) \<in> set es \<or> cached_value ?cipher memory_peek (d, k) sc t = Some v"
    using put assms(3) by simp
  then have "(t, v) \<in> set es \<or> cached_value ?cipher memory_peek (d, k) sc t = Some v" using h by blast
  ultimately show ?thesis by simp
qed

theorem dual_store_never_wrong_witness:
  "\<exists>w hits w'. dual_put_many (cache_of_dual (\<lambda>v. []) (\<lambda>v. 0) 5) sample_cipher 60 sample_scope sample_entries (sample_dual, 0) = (None, w)
    \<and> dual_get_many (cache_of_dual (\<lambda>v. []) (\<lambda>v. 0) 64) sample_cipher 60 sample_scope (map fst sample_entries) w = (Inr hits, w')
    \<and> (''<PERSON_1>'', the (map_of hits ''<PERSON_1>'')) \<in> set sample_entries"
proof -
  have "\<exists>w. dual_put_many (cache_of_dual (\<lambda>v. []) (\<lambda>v. 0) 5) sample_cipher 60 sample_scope sample_entries (sample_dual, 0) = (None, w)
    \<and> dual_get_many (cache_of_dual (\<lambda>v. []) (\<lambda>v. 0) 64) sample_cipher 60 sample_scope (map fst sample_entries) w = (Inr sample_entries, w)"
    unfolding sample_cipher_def by (rule dual_put_get [OF sample_aes]) (simp_all add: sample_simps)
  then obtain w where w: "dual_put_many (cache_of_dual (\<lambda>v. []) (\<lambda>v. 0) 5) sample_cipher 60 sample_scope sample_entries (sample_dual, 0) = (None, w)"
    "dual_get_many (cache_of_dual (\<lambda>v. []) (\<lambda>v. 0) 64) sample_cipher 60 sample_scope (map fst sample_entries) w = (Inr sample_entries, w)"
    by blast
  have m: "map_of sample_entries ''<PERSON_1>'' = Some ''4111''" by (simp add: sample_entries_def)
  have "(''<PERSON_1>'', ''4111'') \<in> set sample_entries"
    by (rule dual_store_never_wrong [OF sample_aes _ _ w [unfolded sample_cipher_def] m]) (simp_all add: sample_simps)
  with w m show ?thesis by auto
qed

text \<open>
  C40: With the null cipher a value that is JSON does not survive. The in-memory cache decodes a stored
  string that parses as JSON, so a number put as plaintext is read back as an integer, and the read
  of its token fails as an outage although the put reported success.
\<close>

theorem null_cipher_json_value_lost:
  assumes "redis_cache d = None" "0 < ttl" "map_of (ttl_dict (in_memory_cache d)) (cache_key sc t) = None"
    and "int (length (cache_dict (in_memory_cache d))) < max_size_in_memory (in_memory_cache d)"
    and "check_value_size py_str sizeof (in_memory_cache d) (PStr v)" "now' \<le> now + of_int ttl"
    and "json_loads v = Some (PInt n)"
  shows "\<exists>w. dual_put_many (cache_of_dual py_str sizeof now) NullCipher ttl sc [(t, v)] (d, k) = (None, w)
    \<and> fst (dual_get_many (cache_of_dual py_str sizeof now') NullCipher ttl sc [t] w) = Inl (StoreUnavailable ''unexpected cached type int'')"
proof -
  obtain d' where d': "write_all (cache_of_dual py_str sizeof now) sc ttl [(t, v)] d = (None, d')" "redis_cache d' = None"
    "lives (now + of_int ttl) (in_memory_cache d') (cache_key sc t) (PStr v)"
    using write_all_room [OF assms(1) _ assms(2), of "[(t, v)]" sc py_str sizeof now] assms(3-5) by auto
  have put: "dual_put_many (cache_of_dual py_str sizeof now) NullCipher ttl sc [(t, v)] (d, k) = (None, (d', k))"
    using d'(1) by (simp add: dual_put_many_def NullCipher_def is_KeyUnavailable_def List.map_filter_simps del: write_all.simps)
  have "async_batch_get_cache now' [cache_key sc t] (in_memory_cache d') = ([PInt n], in_memory_cache d')"
    using batch_get_live [of "[cache_key sc t]" _ "in_memory_cache d'" "\<lambda>_. PStr v", OF _ assms(6)] d'(3) assms(7)
    by (simp add: decoded_def)
  then have "kv_batch_get (cache_of_dual py_str sizeof now') [cache_key sc t] d' = (Inr (PList [PInt n]), d')"
    using d'(2) by (simp add: cache_of_dual_def dual_async_batch_get_cache_def del: async_batch_get_cache.simps)
  then show ?thesis using put by (simp add: dual_get_many_def first_mistyped_def)
qed

theorem null_cipher_json_value_lost_witness:
  "\<exists>w. dual_put_many (cache_of_dual (\<lambda>v. []) (\<lambda>v. 0) 5) NullCipher 60 sample_scope [(''<PIN_1>'', ''42'')] (sample_dual, 0) = (None, w)
    \<and> fst (dual_get_many (cache_of_dual (\<lambda>v. []) (\<lambda>v. 0) 6) NullCipher 60 sample_scope [''<PIN_1>''] w) = Inl (StoreUnavailable ''unexpected cached type int'')"
proof -
  have "json_loads ''42'' = Some (PInt 42)" by code_simp
  then show ?thesis
    by (intro null_cipher_json_value_lost [where n = 42])
       (simp_all add: sample_simps check_value_size_def is_primitive_def MAX_SIZE_PER_ITEM_IN_MEMORY_CACHE_IN_KB_def)
qed

lemma write_all_of_dual: "fst (write_all (cache_of_dual py_str sizeof now) sc ttl es d) = None"
proof (induction es arbitrary: d)
  case (Cons e es)
  obtain t s where e: "e = (t, s)" by fastforce
  obtain d1 where "kv_set (cache_of_dual py_str sizeof now) (cache_key sc t) s ttl d = (None, d1)" by (simp add: cache_of_dual_def)
  with Cons.IH [of d1] show ?case by (simp add: e split: prod.splits)
qed simp

text \<open>
  A put into a dual cache reports a failed sealing and nothing else. The cache logs and swallows
  the exceptions of its own writes, so the answer depends on the cipher alone: with a Redis that refuses
  every write, a put still reports success.
\<close>

lemma put_reports_only_seal_failures:
  "fst (dual_put_many (cache_of_dual py_str sizeof now) cipher ttl sc es (d, k)) =
     (case filter is_KeyUnavailable (map snd (fst (seal_all cipher es k))) of
        [] \<Rightarrow> None | failure # _ \<Rightarrow> Some (StoreUnavailable (error_reason (projl failure))))"
proof -
  obtain rs k' where s: "seal_all cipher es k = (rs, k')" by fastforce
  define sealed where "sealed = List.map_filter (\<lambda>(t, r). case r of Inr s \<Rightarrow> Some (t, s) | Inl _ \<Rightarrow> None) rs"
  obtain c' where "write_all (cache_of_dual py_str sizeof now) sc ttl sealed d = (None, c')"
    using write_all_of_dual [of py_str sizeof now sc ttl sealed d] by (metis prod.collapse)
  then show ?thesis by (simp add: dual_put_many_def s flip: sealed_def split: list.splits)
qed

end
