(* ===== verification/Endpoint_Props.thy ===== *)
theory Endpoint_Props
  imports Endpoints
begin

text \<open>
  What the vault's routes guarantee a caller and an operator: values are handed out under the grant and on record, a
  refused read changes nothing, and what a caller encodes it decodes again.
\<close>

section \<open>Authorization\<close>

lemma authorized_scope_Inr:
  assumes "authorized_scope identity sty sid = Inr scope"
  shows "requested_scope identity sty sid = Inr scope" "authorize_decode identity scope = None"
    "can_decode identity \<and> belongs_to identity scope \<or> can_decode_any identity"
    "used_break_glass identity scope \<longleftrightarrow> \<not> belongs_to identity scope"
  using assms
  by (auto simp: authorized_scope_def authorize_decode_def used_break_glass_def split: sum.splits option.splits if_splits)

lemma requested_scope_Inl: "requested_scope identity sty sid = Inl err \<Longrightarrow> \<exists>m. err = VaultForbidden m"
  by (auto simp: requested_scope_def scope_to_mint_def Let_def split: option.splits if_splits)

lemma authorized_scope_refused:
  assumes "\<not> can_decode identity" "\<not> can_decode_any identity"
  shows "\<exists>m. authorized_scope identity sty sid = Inl (HTTPException 403 m)"
  using assms requested_scope_Inl [of identity sty sid]
  by (fastforce simp: authorized_scope_def raise_public_def authorize_decode_def split: sum.splits)

lemma identity_grants [simp]:
  "can_decode (identity_from caller) = granted caller DECODE_PERMISSION"
  "can_decode_any (identity_from caller) = granted caller DECODE_ANY_PERMISSION"
  by (simp_all add: identity_from_def)

text \<open>
  C11: Values leave the vault under the grant, and every time on record. A decode that answers texts was asked for by a key that may
  decode in a scope of its own, or that may decode any scope; the texts are what the vault resolves in that very scope; and exactly
  one audit entry was handed to the sink, which counts the tokens resolved and says break-glass exactly if the scope is not the
  caller's own.
\<close>

theorem vault_decode_authorized_and_audited:
  assumes "decode_pii ext sink caller service (Some v) request stamp now w = (Inr resp, w')"
  shows "\<exists>scope n. requested_scope (identity_from caller) (dq_scope_type request) (dq_scope_id request) = Inr scope
    \<and> (granted caller DECODE_PERMISSION \<and> belongs_to (identity_from caller) scope \<or> granted caller DECODE_ANY_PERMISSION)
    \<and> vault_decode v (dq_texts request) scope now (w_db w) = Inr \<lparr>dec_texts = der_texts resp, dec_resolved = n\<rparr>
    \<and> w_audit w' = snd (sink (decode_audit_entry caller scope n (\<not> belongs_to (identity_from caller) scope) (fst stamp)) (w_audit w))"
proof -
  obtain scope where scope: "authorized_scope (identity_from caller) (dq_scope_type request) (dq_scope_id request) = Inr scope"
    using assms by (auto simp: decode_pii_def Let_def split: sum.splits)
  obtain result where r: "vault_decode v (dq_texts request) scope now (w_db w) = Inr result"
    using assms scope by (auto simp: decode_pii_def Let_def split: sum.splits prod.splits)
  have "der_texts resp = dec_texts result"
    and "w_audit w' = record_decode sink caller scope (dec_resolved result) (used_break_glass (identity_from caller) scope) (fst stamp) (w_audit w)"
    using assms scope r by (auto simp: decode_pii_def record_decode_event_def endpoint_record_def Let_def)
  moreover have "vault_decode v (dq_texts request) scope now (w_db w) = Inr \<lparr>dec_texts = dec_texts result, dec_resolved = dec_resolved result\<rparr>"
    using r by simp
  ultimately show ?thesis
    using authorized_scope_Inr [OF scope] by (intro exI conjI) (auto simp: record_decode_def audit_write_def)
qed


definition sample_caller :: "(string, pyobj) dict \<Rightarrow> UserAPIKeyAuth" where
  "sample_caller grants = \<lparr>ua_api_key = Some ''k'', ua_user_id = Some ''u'', ua_team_id = None, ua_org_id = None, ua_key_alias = None,
     ua_end_user_id = None, ua_user_role = None, ua_permissions = grants\<rparr>"

definition sample_world :: "(backing, record_dict list, AuditEntry list) World" where
  "sample_world = \<lparr>w_cache = [], w_db = [], w_audit = [], w_log = new_log 5, w_draws = 0\<rparr>"

definition list_sink :: "AuditEntry list audit_sink" where "list_sink entry a = (None, a @ [entry])"

definition decode_request :: "string list \<Rightarrow> PiiDecodeRequest" where
  "decode_request texts = \<lparr>dq_texts = texts, dq_session_id = ''s'', dq_scope_type = None, dq_scope_id = None\<rparr>"


definition decoding_caller :: UserAPIKeyAuth where "decoding_caller = sample_caller [(''allow_pii_decode'', PBool True)]"

lemma decoding_caller_scope:
  "authorized_scope (identity_from decoding_caller) None None = Inr (row_scope sample_row)"
  by (simp add: authorized_scope_def requested_scope_def scope_to_mint_def default_mint_scope_def identity_from_def decoding_caller_def
      sample_caller_def is_empty_str_def authorize_decode_def belongs_to_def granted_def obj_get_def DECODE_PERMISSION_def
      DECODE_ANY_PERMISSION_def sample_row_def)

theorem vault_decode_authorized_and_audited_witness:
  "\<exists>w' n. decode_pii sample_externals list_sink decoding_caller handle_service (Some vault_service) (decode_request [''hi''])
      ((''e'', 0), 1) 5 sample_world = (Inr \<lparr>der_texts = [''hi'']\<rparr>, w')
    \<and> w_audit w' = [decode_audit_entry decoding_caller (row_scope sample_row) n False (''e'', 0)]"
proof -
  have "canonical_tokens [''hi''] = []" by code_simp
  then have "vault_decode vault_service [''hi''] (row_scope sample_row) 5 [] = Inr \<lparr>dec_texts = [''hi''], dec_resolved = 0\<rparr>"
    by (simp add: vault_decode_def py_sorted_def)
  then obtain w' where d: "decode_pii sample_externals list_sink decoding_caller handle_service (Some vault_service) (decode_request [''hi''])
      ((''e'', 0), 1) 5 sample_world = (Inr \<lparr>der_texts = [''hi'']\<rparr>, w')"
    by (simp add: decode_pii_def decode_request_def decoding_caller_scope sample_world_def Let_def)
  have sc: "requested_scope (identity_from decoding_caller) None None = Inr (row_scope sample_row)"
    "belongs_to (identity_from decoding_caller) (row_scope sample_row)"
    by (simp_all add: requested_scope_def scope_to_mint_def default_mint_scope_def identity_from_def decoding_caller_def
        sample_caller_def is_empty_str_def belongs_to_def sample_row_def)
  from vault_decode_authorized_and_audited [OF d] sc d show ?thesis
    by (auto simp: decode_request_def list_sink_def sample_world_def)
qed

section \<open>Encode, then decode\<close>

lemma vault_encode_spans:
  assumes "vault_encode self texts sc session subject creator lang ents now w = (Inr batch, w')"
  shows "\<exists>ds. detect_many (vsv_pii self) texts lang ents = Inr ds \<and> eb_spans_by_text batch = map result_spans ds"
  using assms by (auto simp: vault_encode_def svc_draft_def Let_def split: prod.splits sum.splits option.splits)

lemma encode_pii_vault:
  assumes "encode_pii ext caller service (Some v) request stamp new_session now w = (Inr resp, w1)" "rq_codec request = None"
  obtains scope session subject batch d k where
    "requested_scope (identity_from caller) (rq_scope_type request) None = Inr scope"
    "vault_encode (v\<lparr>vsv_pii := service\<rparr>) (rq_texts request) scope session subject (ua_user_id caller) (rq_language request)
       (rq_entities request) now (w_db w, w_draws w) = (Inr batch, (d, k))"
    "resp = encode_response batch" "w_db w1 = d" "w_draws w1 = k"
  using assms
  by (auto simp: encode_pii_def with_codec_def finish_encode_def endpoint_record_def Let_def fail_recorded_def
      split: prod.splits sum.splits option.splits if_splits)

text \<open>
  C10: Through the HTTP routes, what a caller encodes it decodes. With the vault over a database that gives the clauses
  their documented meaning, a cipher that binds and handles that have not repeated, if an encode answers a
  response then, until the retention runs out, a decode of the response's texts by the same key, holding the decode permission, answers
  the texts of the request. Detection stages report spans of the vocabulary inside the texts, no
  backslash directly precedes a detected value, and the tokens of the response are not stored already.
\<close>

theorem vault_routes_roundtrip:
  assumes db: "prisma_table (vs_table (vsv_store v)) rows" "table_ok rows (w_db w)"
    and cipher: "aead_binds (vc_encrypt (vs_cipher (vsv_store v))) (vc_decrypt (vs_cipher (vsv_store v)))"
      "draws_sized (vc_urandom (vs_cipher (vsv_store v)))"
      "\<forall>sc. \<exists>key. checked_key (vs_cipher (vsv_store v)) sc (current_version (vc_keys (vs_cipher (vsv_store v)))) = Inr key"
    and svc: "vsv_pii v = service" "svc_codec service = HandleCodec urandom" "draws_sized urandom" "draws_distinct urandom (w_draws w1)"
    and enc: "encode_pii ext caller service (Some v) request stamp new_session now w = (Inr resp, w1)" "rq_codec request = None"
    and ok: "\<forall>t \<in> set (rq_texts request). detector_ok (svc_detector service) t (rq_language request) (rq_entities request)
      \<and> (\<forall>r. cascade_detect (svc_detector service) t (rq_language request) (rq_entities request) = Inr r \<longrightarrow> unescaped t (result_spans r))"
    and fresh: "(im_token ` set (er_tokens resp) \<union> set (canonical_tokens (er_texts resp))) \<inter> token_id ` set (vault_rows rows (w_db w)) = {}"
    and grant: "granted caller DECODE_PERMISSION" and time: "now' < now + days (retention_days (vsv_store v))"
    and dec: "dq_texts request' = er_texts resp" "dq_scope_type request' = rq_scope_type request" "dq_scope_id request' = None"
  shows "\<exists>w2. decode_pii ext sink caller service (Some v) request' stamp' now' w1 = (Inr \<lparr>der_texts = rq_texts request\<rparr>, w2)"
proof -
  obtain scope session subject batch d k where e: "requested_scope (identity_from caller) (rq_scope_type request) None = Inr scope"
    "vault_encode (v\<lparr>vsv_pii := service\<rparr>) (rq_texts request) scope session subject (ua_user_id caller) (rq_language request)
       (rq_entities request) now (w_db w, w_draws w) = (Inr batch, (d, k))"
    "resp = encode_response batch" "w_db w1 = d" "w_draws w1 = k"
    by (rule encode_pii_vault [OF enc])
  have v: "v\<lparr>vsv_pii := service\<rparr> = v" using svc(1) by (cases v) simp
  note ve = e(2) [unfolded v]
  obtain ds where ds: "detect_many service (rq_texts request) (rq_language request) (rq_entities request) = Inr ds"
    "eb_spans_by_text batch = map result_spans ds"
    using vault_encode_spans [OF ve] svc(1) by blast
  have un: "\<forall>i < length (rq_texts request). unescaped (rq_texts request ! i) (eb_spans_by_text batch ! i)"
    using ds ok unfolding detect_many_Inr by (auto dest!: nth_mem)
  have det: "\<forall>t \<in> set (rq_texts request). detector_ok (svc_detector (vsv_pii v)) t (rq_language request) (rq_entities request)"
    using ok svc(1) by simp
  have fr: "(issued_token ` set (eb_tokens batch) \<union> set (canonical_tokens (eb_texts batch))) \<inter> token_id ` set (vault_rows rows (w_db w)) = {}"
    using fresh by (simp add: e(3) encode_response_def image_image)
  obtain key where key: "checked_key (vs_cipher (vsv_store v)) scope (current_version (vc_keys (vs_cipher (vsv_store v)))) = Inr key"
    using cipher(3) by blast
  obtain n where n: "vault_decode v (eb_texts batch) scope now' d = Inr \<lparr>dec_texts = rq_texts request, dec_resolved = n\<rparr>"
    using vault_restores [OF db cipher(1,2) key _ svc(3) _ ve det un fr time] svc(1,2,4) e(5) by auto
  have "belongs_to (identity_from caller) scope"
    using e(1) scope_to_mint_belongs by (auto simp: requested_scope_def)
  then have "authorized_scope (identity_from caller) (rq_scope_type request) None = Inr scope"
    using grant e(1) by (simp add: authorized_scope_def authorize_decode_def)
  with n dec show ?thesis by (simp add: decode_pii_def e encode_response_def)
qed

definition encode_request :: PiiEncodeRequest where
  "encode_request = \<lparr>rq_texts = [''Bob paid''], rq_session_id = Some ''s'', rq_language = ''en'', rq_entities = None, rq_scope_type = None,
     rq_subject_id = None, rq_codec = None\<rparr>"

theorem vault_routes_roundtrip_witness:
  "\<exists>resp w1 w2. encode_pii sample_externals decoding_caller handle_service (Some vault_service) encode_request ((''e'', 0), 1) ''n'' 0 sample_world
      = (Inr resp, w1) \<and> er_texts resp = [''<PERSON:6161616161616161> paid'']
    \<and> decode_pii sample_externals list_sink decoding_caller handle_service (Some vault_service) (decode_request (er_texts resp)) ((''f'', 1), 1) 5 w1
      = (Inr \<lparr>der_texts = [''Bob paid'']\<rparr>, w2)"
proof -
  have sc: "requested_scope (identity_from decoding_caller) None None = Inr (row_scope sample_row)"
    by (simp add: requested_scope_def scope_to_mint_def default_mint_scope_def identity_from_def decoding_caller_def
        sample_caller_def is_empty_str_def sample_row_def)
  have cap: "\<not> capture_enabled (ext_getenv sample_externals)"
    by (simp add: capture_enabled_def str_to_bool_def sample_externals_def ENV_CAPTURE_TEXT_def ENV_ANALYZER_API_BASE_def ENV_NER_API_BASE_def)
  have grant: "granted decoding_caller DECODE_PERMISSION"
    by (simp add: granted_def decoding_caller_def sample_caller_def obj_get_def DECODE_PERMISSION_def)
  have same: "vault_service\<lparr>vsv_pii := handle_service\<rparr> = vault_service" by (simp add: vault_service_def)
  obtain d where d: "vault_encode vault_service [''Bob paid''] (row_scope sample_row) ''s'' None (Some ''u'') ''en'' None 0 ([], 0) = (Inr vault_sample_batch, (d, 2))"
    using vault_service_encodes by blast
  let ?resp = "encode_response vault_sample_batch"
  obtain w1 where enc: "encode_pii sample_externals decoding_caller handle_service (Some vault_service) encode_request ((''e'', 0), 1) ''n'' 0 sample_world = (Inr ?resp, w1)"
    and w1: "w_draws w1 = 2"
    using d by (simp add: encode_pii_def encode_request_def with_codec_def is_empty_str_def sc same sample_world_def decoding_caller_def
        sample_caller_def finish_encode_def capture_of_def cap endpoint_record_def Let_def sc [unfolded decoding_caller_def sample_caller_def])
  have world: "w_db sample_world = []" "rq_texts encode_request = [''Bob paid'']" "rq_language encode_request = ''en''" "rq_entities encode_request = None"
    "rq_codec encode_request = None" "dq_texts (decode_request ts) = ts" "dq_scope_type (decode_request ts) = rq_scope_type encode_request"
    "dq_scope_id (decode_request ts) = None" for ts
    by (simp_all add: sample_world_def encode_request_def decode_request_def)
  have det: "detector_ok (svc_detector handle_service) ''Bob paid'' ''en'' None"
    using sample_detector_ok by (simp add: handle_service_def)
  have spans: "\<forall>r. cascade_detect (svc_detector handle_service) ''Bob paid'' ''en'' None = Inr r \<longrightarrow> unescaped ''Bob paid'' (result_spans r)"
  proof -
    have "fst (svc_draft handle_service [''Bob paid''] ''en'' None None 0) \<noteq> Inl e" for e by (simp add: handle_service_drafts Let_def)
    have "map result_spans (projr (detect_many handle_service [''Bob paid''] ''en'' None)) = eb_spans_by_text vault_sample_batch"
      using vault_encode_spans [OF d] by (auto simp: vault_service_laws)
    moreover obtain ds where "detect_many handle_service [''Bob paid''] ''en'' None = Inr ds" using vault_encode_spans [OF d] by (auto simp: vault_service_laws)
    ultimately show ?thesis by (auto simp: detect_many_Inr vault_sample_batch_def unescaped_def Let_def)
  qed
  have "\<exists>w2. decode_pii sample_externals list_sink decoding_caller handle_service (Some vault_service) (decode_request (er_texts ?resp)) ((''f'', 1), 1) 5 w1
      = (Inr \<lparr>der_texts = rq_texts encode_request\<rparr>, w2)"
    by (rule vault_routes_roundtrip [where rows = id, OF _ _ _ _ _ vault_service_laws(6) handle_service_laws(1,2) _ enc world(5) _ _ grant _ world(6-8)])
       (use det spans handle_service_laws(3) in \<open>simp_all add: vault_service_laws world toy_cipher_laws w1 days_def\<close>)
  with enc show ?thesis by (auto simp: world encode_response_def vault_sample_batch_def Let_def)
qed

end
