(* ===== verification/Streaming.thy ===== *)
theory Streaming
  imports Config
begin

text \<open>
  The streaming side of the guardrail framework: the incremental transform of
  \<open>litellm/proxy/guardrails/guardrail_hooks/unified_guardrail/unified_guardrail.py\<close> and the part of
  \<open>litellm/llms/openai/chat/guardrail_translation/handler.py\<close> it runs, which is how a guardrail that rewrites text (the
  PII guardrail asks for \<open>incremental_diff\<close>) sees a streamed response. Raw chunks are withheld and accumulated; in each round
  the guardrail rewrites the accumulated text and what it settled beyond the text already sent goes out as a new delta.
  The guardrail is a record of operations over its own state. A run is a state with what was sent so far, and an
  end when an exception leaves the generator. The chat handler is the only one on this path: it keeps the base
  class's \<open>build_block_sse_chunks\<close>, which answers \<open>None\<close>, and serves no A2A call type, so a
  block and an HTTP error are raised to the proxy and nothing is sent in their place.
\<close>

section \<open>Chunks\<close>

text \<open>
  A choice of a chunk with its delta, and the chunk. \<open>content\<close> and \<open>tool_calls\<close> are any Python value. Finish reasons are those the
  constructor of \<open>StreamingChoices\<close> has already mapped.
\<close>

record StreamingChoice =
  choice_index :: int
  delta_content :: pyobj
  delta_role :: "string option"
  delta_tool_calls :: pyobj
  choice_finish_reason :: "string option"

record StreamChunk =
  chunk_id :: string
  chunk_created :: int
  chunk_model :: "string option"
  chunk_choices :: "StreamingChoice list"

text \<open>Non-empty string content.\<close>

definition delta_text :: "StreamingChoice \<Rightarrow> string" where
  "delta_text choice = (case delta_content choice of PStr s \<Rightarrow> s | _ \<Rightarrow> [])"

definition chunk_has_tool_calls :: "StreamChunk \<Rightarrow> bool" where
  "chunk_has_tool_calls item = list_ex (\<lambda>choice. truthy (delta_tool_calls choice)) (chunk_choices item)"

definition chunk_carries_text :: "StreamChunk \<Rightarrow> bool" where
  "chunk_carries_text item = list_ex (\<lambda>choice. delta_text choice \<noteq> []) (chunk_choices item)"

definition chunk_has_finish_reason :: "StreamChunk \<Rightarrow> bool" where
  "chunk_has_finish_reason item = list_ex (\<lambda>choice. choice_finish_reason choice \<noteq> None) (chunk_choices item)"

definition record_finish_reasons :: "StreamChunk \<Rightarrow> (int, string) dict \<Rightarrow> (int, string) dict" where
  "record_finish_reasons item reasons =
     fold (\<lambda>choice rs. case choice_finish_reason choice of None \<Rightarrow> rs | Some reason \<Rightarrow> AList.update (choice_index choice) reason rs)
       (chunk_choices item) reasons"

text \<open>
  \<open>_tool_call_passthrough_chunk\<close>: the chunk without its content; a choice with both text and tool calls
  leaves its finish reason for the last text chunk.
\<close>

definition passthrough_choice :: "StreamingChoice \<Rightarrow> StreamingChoice" where
  "passthrough_choice choice =
     choice\<lparr>delta_content := PNone,
       choice_finish_reason := (if delta_text choice \<noteq> [] then None else choice_finish_reason choice)\<rparr>"

definition tool_call_passthrough_chunk :: "StreamChunk \<Rightarrow> (int, string) dict \<Rightarrow> StreamChunk \<times> (int, string) dict" where
  "tool_call_passthrough_chunk item reasons =
     (item\<lparr>chunk_choices := map passthrough_choice (chunk_choices item)\<rparr>,
      fold (\<lambda>choice rs. case choice_finish_reason choice of
          Some reason \<Rightarrow> if delta_text choice \<noteq> [] then AList.update (choice_index choice) reason rs else rs
        | None \<Rightarrow> rs) (chunk_choices item) reasons)"

section \<open>One round of the guardrail\<close>

datatype stream_exn = ModifyResponse string | HttpException int string | OtherException string

text \<open>What a guardrail answers: the texts, when the key is there, and the holdback per text, when there is one.\<close>

record GuardrailAnswer =
  answer_texts :: "string list option"
  answer_holdback :: "pyobj list option"

text \<open>
  The guardrail to apply: its call on texts (with the model of the first chunk), what the handler does to the
  request data before the call (the responses and the caller's metadata), and the block-only inspection of the
  assembled response, of which only the verdict counts.
\<close>

record 's StreamGuardrail =
  sg_prepare :: "StreamChunk list \<Rightarrow> 's \<Rightarrow> 's"
  sg_apply :: "string list \<Rightarrow> string option \<Rightarrow> 's \<Rightarrow> (stream_exn + GuardrailAnswer) \<times> 's"
  sg_inspect :: "StreamChunk list \<Rightarrow> 's \<Rightarrow> stream_exn option \<times> 's"

fun coerce_stream_holdback_value :: "pyobj \<Rightarrow> nat" where
  "coerce_stream_holdback_value (PBool b) = (if b then 1 else 0)"
| "coerce_stream_holdback_value (PInt i) = nat i"
| "coerce_stream_holdback_value (PFloat r) = nat \<lfloor>r\<rfloor>"
| "coerce_stream_holdback_value (PStr s) = (case py_int s of None \<Rightarrow> 0 | Some i \<Rightarrow> nat i)"
| "coerce_stream_holdback_value _ = 0"

record StreamTransformSink =
  mutated_text_per_choice :: "(int, string) dict"
  holdback_per_choice :: "(int, nat) dict"

definition text_at :: "(int, string) dict \<Rightarrow> int \<Rightarrow> string" where
  "text_at d i = (case map_of d i of None \<Rightarrow> [] | Some t \<Rightarrow> t)"

definition accumulate_choice :: "StreamingChoice \<Rightarrow> (int, string) dict \<Rightarrow> (int, string) dict" where
  "accumulate_choice choice acc =
     (if delta_text choice = [] then acc
      else AList.update (choice_index choice) (text_at acc (choice_index choice) @ delta_text choice) acc)"

definition accumulate_string_content_by_choice_index :: "StreamChunk list \<Rightarrow> (int, string) dict" where
  "accumulate_string_content_by_choice_index responses = fold accumulate_choice (concat (map chunk_choices responses)) []"

definition model_of :: "StreamChunk list \<Rightarrow> string option" where
  "model_of responses = (case responses of [] \<Rightarrow> None
     | c # _ \<Rightarrow> if is_empty_str (chunk_model c) then None else chunk_model c)"

definition process_streaming_transform ::
  "'s StreamGuardrail \<Rightarrow> StreamChunk list \<Rightarrow> 's \<Rightarrow> (stream_exn + StreamTransformSink) \<times> 's" where
  "process_streaming_transform g responses s =
     (let raw_by_index = accumulate_string_content_by_choice_index responses in
      if raw_by_index = [] then (Inr \<lparr>mutated_text_per_choice = [], holdback_per_choice = []\<rparr>, s)
      else
        (let indices = sort (map fst raw_by_index);
             texts_to_check = map (text_at raw_by_index) indices
         in case sg_apply g texts_to_check (model_of responses) (sg_prepare g responses s) of
              (Inl exc, s') \<Rightarrow> (Inl exc, s')
            | (Inr answer, s') \<Rightarrow>
                (let returned = (case answer_texts answer of None \<Rightarrow> texts_to_check | Some ts \<Rightarrow> ts);
                     holdback = (case answer_holdback answer of None \<Rightarrow> [] | Some hs \<Rightarrow> hs)
                 in (Inr \<lparr>mutated_text_per_choice = zip indices returned,
                         holdback_per_choice = zip indices (map coerce_stream_holdback_value holdback)\<rparr>, s'))))"

section \<open>The chunk of a round\<close>

text \<open>
  The new delta of each choice: the guardrailed text past what was sent, less the holdback. A text that does not
  extend what was sent is an error, since sent text cannot be retracted.
\<close>

fun choice_deltas ::
  "(int, string) dict \<Rightarrow> (int, nat) dict \<Rightarrow> bool \<Rightarrow> (int, string) dict \<Rightarrow> stream_exn + (int, string) dict" where
  "choice_deltas emitted holdback is_final [] = Inr []"
| "choice_deltas emitted holdback is_final ((i, t) # rest) =
     (let already = text_at emitted i in
      if \<not> startswith t already then Inl (HttpException 400 ''stream_transform_underflow'')
      else
        (let hold = (if is_final then 0 else case map_of holdback i of None \<Rightarrow> 0 | Some h \<Rightarrow> h);
             until = max (length already) (length t - hold)
         in case choice_deltas emitted holdback is_final rest of
              Inl exc \<Rightarrow> Inl exc
            | Inr ds \<Rightarrow> Inr ((i, drop (length already) (take until t)) # ds)))"

definition synthetic_choice ::
  "(int, string) dict \<Rightarrow> (int, string) dict \<Rightarrow> bool \<Rightarrow> int \<times> string \<Rightarrow> StreamingChoice option" where
  "synthetic_choice emitted reasons is_final d =
     (case d of (i, delta) \<Rightarrow>
      (let reason = (if is_final then map_of reasons i else None) in
       if delta = [] \<and> reason = None then None
       else Some \<lparr>choice_index = i, delta_content = PStr delta,
              delta_role = (if text_at emitted i = [] then Some ''assistant'' else None),
              delta_tool_calls = PNone, choice_finish_reason = reason\<rparr>))"

definition terminator_choice :: "int \<times> string \<Rightarrow> StreamingChoice" where
  "terminator_choice r = \<lparr>choice_index = fst r, delta_content = PStr [], delta_role = None, delta_tool_calls = PNone,
     choice_finish_reason = Some (snd r)\<rparr>"

definition emit_delta :: "int \<times> string \<Rightarrow> (int, string) dict \<Rightarrow> (int, string) dict" where
  "emit_delta d emitted = AList.update (fst d) (text_at emitted (fst d) @ snd d) emitted"

definition build_transform_chunk ::
  "StreamChunk \<Rightarrow> StreamTransformSink \<Rightarrow> (int, string) dict \<Rightarrow> (int, string) dict \<Rightarrow> bool
   \<Rightarrow> stream_exn + (StreamChunk option \<times> (int, string) dict)" where
  "build_transform_chunk reference sink emitted reasons is_final =
     (if mutated_text_per_choice sink = [] then
        (if is_final \<and> reasons \<noteq> []
         then Inr (Some (reference\<lparr>chunk_choices := map terminator_choice reasons\<rparr>), emitted)
         else Inr (None, emitted))
      else
        (case choice_deltas emitted (holdback_per_choice sink) is_final (mutated_text_per_choice sink) of
           Inl exc \<Rightarrow> Inl exc
         | Inr deltas \<Rightarrow>
             (let choices = List.map_filter (synthetic_choice emitted reasons is_final) deltas in
              if choices = [] then Inr (None, emitted)
              else Inr (Some (reference\<lparr>chunk_choices := choices\<rparr>), fold emit_delta deltas emitted))))"

section \<open>The run\<close>

record 's StreamRun =
  responses_so_far :: "StreamChunk list"
  responses_yielded :: "StreamChunk list"
  emitted_text_per_choice :: "(int, string) dict"
  finish_reason_per_choice :: "(int, string) dict"
  chunk_counter :: int
  last_chunk :: "StreamChunk option"
  saw_tool_calls :: bool
  saw_text_content :: bool
  guardrail_state :: 's

definition new_run :: "'s \<Rightarrow> 's StreamRun" where
  "new_run s = \<lparr>responses_so_far = [], responses_yielded = [], emitted_text_per_choice = [], finish_reason_per_choice = [],
     chunk_counter = 0, last_chunk = None, saw_tool_calls = False, saw_text_content = False, guardrail_state = s\<rparr>"

record StreamingConfig =
  sampling_rate :: int
  end_of_stream_only :: bool

definition send_chunk :: "StreamChunk \<Rightarrow> 's StreamRun \<Rightarrow> 's StreamRun" where
  "send_chunk chunk r = r\<lparr>responses_yielded := responses_yielded r @ [chunk]\<rparr>"

definition emit_transform_round ::
  "StreamingConfig \<Rightarrow> 's StreamGuardrail \<Rightarrow> StreamChunk \<Rightarrow> bool \<Rightarrow> 's StreamRun \<Rightarrow> 's StreamRun \<times> stream_exn option" where
  "emit_transform_round cfg g reference is_final r =
     (case process_streaming_transform g (responses_so_far r) (guardrail_state r) of
        (Inl exc, s) \<Rightarrow> (r\<lparr>guardrail_state := s\<rparr>, Some exc)
      | (Inr sink, s) \<Rightarrow>
          (case build_transform_chunk reference sink (emitted_text_per_choice r) (finish_reason_per_choice r) is_final of
             Inl exc \<Rightarrow> (r\<lparr>guardrail_state := s\<rparr>, Some exc)
           | Inr (None, emitted) \<Rightarrow> (r\<lparr>guardrail_state := s, emitted_text_per_choice := emitted\<rparr>, None)
           | Inr (Some synthetic, emitted) \<Rightarrow>
               (send_chunk synthetic (r\<lparr>guardrail_state := s, emitted_text_per_choice := emitted\<rparr>), None)))"

text \<open>One chunk of the provider's stream. A sampling rate of zero raises where it is used.\<close>

definition transform_item ::
  "StreamingConfig \<Rightarrow> 's StreamGuardrail \<Rightarrow> StreamChunk \<Rightarrow> 's StreamRun \<Rightarrow> 's StreamRun \<times> stream_exn option" where
  "transform_item cfg g item r =
     (if chunk_has_tool_calls item then
        (let r1 = r\<lparr>saw_tool_calls := True, responses_so_far := responses_so_far r @ [item], last_chunk := Some item\<rparr> in
         case (if saw_text_content r1 then emit_transform_round cfg g item False r1 else (r1, None)) of
           (r2, Some exc) \<Rightarrow> (r2, Some exc)
         | (r2, None) \<Rightarrow>
             (case tool_call_passthrough_chunk item (finish_reason_per_choice r2) of (tool_only, reasons) \<Rightarrow>
                (send_chunk tool_only (r2\<lparr>finish_reason_per_choice := reasons\<rparr>), None)))
      else
        (let r1 = r\<lparr>chunk_counter := chunk_counter r + 1, responses_so_far := responses_so_far r @ [item], last_chunk := Some item,
               finish_reason_per_choice := record_finish_reasons item (finish_reason_per_choice r),
               saw_text_content := (saw_text_content r \<or> chunk_carries_text item)\<rparr>
         in if end_of_stream_only cfg \<or> chunk_has_finish_reason item then (r1, None)
            else if sampling_rate cfg = 0 then (r1, Some (OtherException ''ZeroDivisionError''))
            else if chunk_counter r1 mod sampling_rate cfg = 0 then emit_transform_round cfg g item False r1
            else (r1, None)))"

fun transform_items ::
  "StreamingConfig \<Rightarrow> 's StreamGuardrail \<Rightarrow> StreamChunk list \<Rightarrow> 's StreamRun \<Rightarrow> 's StreamRun \<times> stream_exn option" where
  "transform_items cfg g [] r = (r, None)"
| "transform_items cfg g (item # items) r =
     (case transform_item cfg g item r of
        (r', Some exc) \<Rightarrow> (r', Some exc)
      | (r', None) \<Rightarrow> transform_items cfg g items r')"

text \<open>\<open>_inspect_full_response_for_block\<close>: tool calls still meet the guardrail's block decision.\<close>

definition inspect_full_response_for_block :: "'s StreamGuardrail \<Rightarrow> 's StreamRun \<Rightarrow> 's StreamRun \<times> stream_exn option" where
  "inspect_full_response_for_block g r =
     (case sg_inspect g (responses_so_far r) (guardrail_state r) of (exc, s) \<Rightarrow> (r\<lparr>guardrail_state := s\<rparr>, exc))"

definition run_incremental_transform_stream ::
  "StreamingConfig \<Rightarrow> 's StreamGuardrail \<Rightarrow> StreamChunk list \<Rightarrow> 's \<Rightarrow> 's StreamRun \<times> stream_exn option" where
  "run_incremental_transform_stream cfg g items s =
     (case transform_items cfg g items (new_run s) of
        (r, Some exc) \<Rightarrow> (r, Some exc)
      | (r, None) \<Rightarrow>
          (case (if saw_tool_calls r then inspect_full_response_for_block g r else (r, None)) of
             (r', Some exc) \<Rightarrow> (r', Some exc)
           | (r', None) \<Rightarrow>
               (case last_chunk r' of
                  None \<Rightarrow> (r', None)
                | Some final \<Rightarrow> emit_transform_round cfg g final True r')))"

text \<open>What a client has read of a choice.\<close>

definition streamed_text :: "int \<Rightarrow> StreamChunk list \<Rightarrow> string" where
  "streamed_text i chunks =
     concat (map delta_text (filter (\<lambda>c. choice_index c = i) (concat (map chunk_choices chunks))))"

end
