(* ===== verification/Streaming_Facts.thy ===== *)
theory Streaming_Facts
  imports Streaming "HOL-Library.Sublist"
begin

text \<open>
  What a run of the incremental transform sends, for any guardrail: the text of a choice that a client has read is the one
  the run has on record, a round extends it by a part of the guardrail's answer, and a raw delta is never forwarded.
  For guardrails whose settled text later text cannot change, the stream ends with exactly the rewritten text.
\<close>

section \<open>Accumulated text\<close>

lemma text_at_update [simp]: "text_at (AList.update k v d) i = (if i = k then v else text_at d i)"
  by (simp add: text_at_def update_conv')

lemma text_at_Nil [simp]: "text_at [] i = []"
  by (simp add: text_at_def)

lemma text_at_Cons: "text_at ((k, v) # d) i = (if k = i then v else text_at d i)"
  by (simp add: text_at_def)

lemma text_at_absent: "i \<notin> fst ` set d \<Longrightarrow> text_at d i = []"
  by (simp add: text_at_def map_of_eq_None_iff [THEN iffD2])

lemma text_at_member: "distinct (map fst d) \<Longrightarrow> (i, t) \<in> set d \<Longrightarrow> text_at d i = t"
  by (simp add: text_at_def)

lemma streamed_append [simp]: "streamed_text i (xs @ ys) = streamed_text i xs @ streamed_text i ys"
  by (simp add: streamed_text_def)

lemma streamed_Nil [simp]: "streamed_text i [] = []"
  by (simp add: streamed_text_def)

lemma text_at_fold_accumulate:
  "text_at (fold accumulate_choice cs acc) i = text_at acc i @ concat (map delta_text (filter (\<lambda>c. choice_index c = i) cs))"
  by (induction cs arbitrary: acc) (auto simp: accumulate_choice_def)

lemma text_at_accumulate: "text_at (accumulate_string_content_by_choice_index rs) i = streamed_text i rs"
  by (simp add: accumulate_string_content_by_choice_index_def streamed_text_def text_at_fold_accumulate)

lemma distinct_accumulate: "distinct (map fst (accumulate_string_content_by_choice_index rs))"
proof -
  have "distinct (map fst acc) \<Longrightarrow> distinct (map fst (fold accumulate_choice cs acc))" for cs acc
    by (induction cs arbitrary: acc) (auto simp: accumulate_choice_def distinct_update)
  from this [of "[]"] show ?thesis by (simp add: accumulate_string_content_by_choice_index_def)
qed

section \<open>The chunk of a round\<close>

definition delta_of :: "(int, string) dict \<Rightarrow> (int, nat) dict \<Rightarrow> bool \<Rightarrow> int \<times> string \<Rightarrow> int \<times> string" where
  "delta_of emitted holdback is_final m =
     (let already = length (text_at emitted (fst m));
          hold = (if is_final then 0 else case map_of holdback (fst m) of None \<Rightarrow> 0 | Some h \<Rightarrow> h)
      in (fst m, drop already (take (max already (length (snd m) - hold)) (snd m))))"

lemma fst_delta_of [simp]: "fst (delta_of em hb fin m) = fst m"
  by (simp add: delta_of_def Let_def)

lemma startswith_prefix: "startswith s p \<longleftrightarrow> prefix p s"
  by (auto simp: startswith_iff prefix_def)

lemma choice_deltas_Inr:
  "choice_deltas em hb fin ms = Inr ds \<longleftrightarrow>
     (\<forall>m \<in> set ms. prefix (text_at em (fst m)) (snd m)) \<and> ds = map (delta_of em hb fin) ms"
proof (induction ms arbitrary: ds)
  case (Cons m ms)
  have "choice_deltas em hb fin (m # ms) =
    (if \<not> prefix (text_at em (fst m)) (snd m) then Inl (HttpException 400 ''stream_transform_underflow'')
     else case choice_deltas em hb fin ms of Inl exc \<Rightarrow> Inl exc | Inr ds \<Rightarrow> Inr (delta_of em hb fin m # ds))"
    by (cases m) (auto simp: startswith_prefix delta_of_def Let_def split: sum.split)
  with Cons.IH show ?case by (auto simp del: choice_deltas.simps split: sum.splits)
qed auto

lemma choice_deltas_Inl:
  "choice_deltas em hb fin ms = Inl exc \<Longrightarrow> exc = HttpException 400 ''stream_transform_underflow''"
  by (induction ms) (auto simp: Let_def split: if_splits sum.splits)

lemma extended_text:
  assumes "prefix (text_at em i) t"
  shows "text_at em i @ snd (delta_of em hb fin (i, t)) =
    take (max (length (text_at em i)) (length t - (if fin then 0 else case map_of hb i of None \<Rightarrow> 0 | Some h \<Rightarrow> h))) t"
  using assms by (auto simp: delta_of_def Let_def prefix_def take_add [symmetric] min_def max_def)

lemma text_at_fold_emit:
  assumes "distinct (map fst ds)"
  shows "text_at (fold emit_delta ds em) i = text_at em i @ text_at ds i"
  using assms
proof (induction ds arbitrary: em)
  case (Cons d ds)
  obtain k v where d: "d = (k, v)" by fastforce
  show ?case using Cons by (cases "i = k") (auto simp: d emit_delta_def text_at_Cons text_at_absent)
qed simp

lemma sent_deltas:
  assumes "distinct (map fst ds)"
  shows "concat (map delta_text (filter (\<lambda>c. choice_index c = i) (List.map_filter (synthetic_choice em rs fin) ds))) = text_at ds i"
  using assms
proof (induction ds)
  case (Cons d ds)
  obtain k v where d: "d = (k, v)" by fastforce
  show ?case using Cons
    by (cases "i = k") (auto simp: d synthetic_choice_def Let_def text_at_Cons text_at_absent delta_text_def map_filter_simps)
qed (simp add: map_filter_simps)

lemma build_transform_chunk_Inr:
  assumes "build_transform_chunk ref sink em rs fin = Inr (out, em')" "distinct (map fst (mutated_text_per_choice sink))"
  shows "streamed_text i (case out of None \<Rightarrow> [] | Some c \<Rightarrow> [c]) = text_at (map (delta_of em (holdback_per_choice sink) fin) (mutated_text_per_choice sink)) i
    \<and> text_at em' i = text_at em i @ text_at (map (delta_of em (holdback_per_choice sink) fin) (mutated_text_per_choice sink)) i
    \<and> (\<forall>m \<in> set (mutated_text_per_choice sink). prefix (text_at em (fst m)) (snd m))"
proof (cases "mutated_text_per_choice sink = []")
  case True
  have "concat (map delta_text (filter (\<lambda>c. choice_index c = i) (map terminator_choice rs))) = []"
    by (induction rs) (auto simp: terminator_choice_def delta_text_def)
  with True assms(1) show ?thesis
    by (auto simp: build_transform_chunk_def streamed_text_def split: if_splits)
next
  case False
  define ds where "ds = map (delta_of em (holdback_per_choice sink) fin) (mutated_text_per_choice sink)"
  have cd: "choice_deltas em (holdback_per_choice sink) fin (mutated_text_per_choice sink) = Inr ds"
    using assms(1) False choice_deltas_Inr by (auto simp: build_transform_chunk_def ds_def split: sum.splits)
  have dist: "distinct (map fst ds)" using assms(2) by (simp add: ds_def comp_def)
  note sd = sent_deltas [OF dist, of i em rs fin]
  show ?thesis
  proof (cases "List.map_filter (synthetic_choice em rs fin) ds = []")
    case True
    with sd have "text_at ds i = []" by simp
    with True assms(1) False cd choice_deltas_Inr show ?thesis
      by (auto simp: build_transform_chunk_def simp flip: ds_def)
  next
    case ne: False
    with assms(1) False cd have "out = Some (ref\<lparr>chunk_choices := List.map_filter (synthetic_choice em rs fin) ds\<rparr>)" "em' = fold emit_delta ds em"
      by (auto simp: build_transform_chunk_def Let_def)
    with sd text_at_fold_emit [OF dist, of em i] cd choice_deltas_Inr show ?thesis
      by (auto simp: streamed_text_def simp flip: ds_def)
  qed
qed

section \<open>A round\<close>

text \<open>What is on record of a choice after a round that answered \<open>muts\<close>.\<close>

definition round_text :: "(int, string) dict \<Rightarrow> (int, nat) dict \<Rightarrow> bool \<Rightarrow> (int, string) dict \<Rightarrow> int \<Rightarrow> string" where
  "round_text em hb fin muts i = (case map_of muts i of None \<Rightarrow> text_at em i
     | Some t \<Rightarrow> take (max (length (text_at em i)) (length t - (if fin then 0 else case map_of hb i of None \<Rightarrow> 0 | Some h \<Rightarrow> h))) t)"

lemma text_at_delta_of:
  assumes "distinct (map fst ms)" "\<forall>m \<in> set ms. prefix (text_at em (fst m)) (snd m)"
  shows "text_at em i @ text_at (map (delta_of em hb fin) ms) i = round_text em hb fin ms i"
proof (cases "map_of ms i")
  case None
  then have "i \<notin> fst ` set (map (delta_of em hb fin) ms)" by (auto simp: map_of_eq_None_iff image_comp comp_def)
  with None show ?thesis by (simp add: round_text_def text_at_absent)
next
  case (Some t)
  then have m: "(i, t) \<in> set ms" by (rule map_of_SomeD)
  have "text_at (map (delta_of em hb fin) ms) i = snd (delta_of em hb fin (i, t))"
    using m assms(1) by (intro text_at_member) (auto simp: comp_def image_iff prod_eq_iff intro!: bexI [of _ "(i, t)"])
  with Some m assms(2) extended_text [of em i t hb fin] show ?thesis by (auto simp: round_text_def)
qed

lemma process_streaming_transform_Inr:
  assumes "process_streaming_transform g rs s = (Inr sink, s')"
  shows "distinct (map fst (mutated_text_per_choice sink))"
    "(i, t) \<in> set (mutated_text_per_choice sink) \<Longrightarrow> \<exists>texts model s0 a. sg_apply g texts model s0 = (Inr a, s') \<and>
       t \<in> set (case answer_texts a of None \<Rightarrow> texts | Some ts \<Rightarrow> ts)"
proof -
  let ?raw = "accumulate_string_content_by_choice_index rs"
  show "distinct (map fst (mutated_text_per_choice sink))"
    using assms distinct_accumulate [of rs]
    by (auto simp: process_streaming_transform_def Let_def map_fst_zip_take split: if_splits prod.splits sum.splits)
  let ?texts = "map (text_at ?raw) (sort (map fst ?raw))"
  assume m: "(i, t) \<in> set (mutated_text_per_choice sink)"
  with assms obtain a where "sg_apply g ?texts (model_of rs) (sg_prepare g rs s) = (Inr a, s')"
    "mutated_text_per_choice sink = zip (sort (map fst ?raw)) (case answer_texts a of None \<Rightarrow> ?texts | Some ts \<Rightarrow> ts)"
    by (auto simp: process_streaming_transform_def Let_def split: if_splits prod.splits sum.splits)
  with m set_zip_rightD show "\<exists>texts model s0 a. sg_apply g texts model s0 = (Inr a, s') \<and>
       t \<in> set (case answer_texts a of None \<Rightarrow> texts | Some ts \<Rightarrow> ts)" by metis
qed

definition in_step :: "'s StreamRun \<Rightarrow> bool" where
  "in_step r \<longleftrightarrow> (\<forall>i. streamed_text i (responses_yielded r) = text_at (emitted_text_per_choice r) i)"

text \<open>A round fails and sends nothing, or sends what extends the record to the guardrail's text less the holdback.\<close>

lemma emit_transform_round_cases:
  assumes "emit_transform_round cfg g ref fin r = (r', e)" "in_step r"
  obtains exc where "e = Some exc" "r' = r\<lparr>guardrail_state := guardrail_state r'\<rparr>" "in_step r'"
    "process_streaming_transform g (responses_so_far r) (guardrail_state r) = (Inl exc, guardrail_state r') \<or>
      (\<exists>sink. process_streaming_transform g (responses_so_far r) (guardrail_state r) = (Inr sink, guardrail_state r') \<and>
        (\<exists>m \<in> set (mutated_text_per_choice sink). \<not> prefix (text_at (emitted_text_per_choice r) (fst m)) (snd m)) \<and>
        exc = HttpException 400 ''stream_transform_underflow'')"
  | sink where "e = None" "in_step r'" "process_streaming_transform g (responses_so_far r) (guardrail_state r) = (Inr sink, guardrail_state r')"
    "\<forall>m \<in> set (mutated_text_per_choice sink). prefix (text_at (emitted_text_per_choice r) (fst m)) (snd m)"
    "text_at (emitted_text_per_choice r') =
      round_text (emitted_text_per_choice r) (holdback_per_choice sink) fin (mutated_text_per_choice sink)"
    "responses_so_far r' = responses_so_far r" "saw_tool_calls r' = saw_tool_calls r" "last_chunk r' = last_chunk r"
proof -
  obtain p s where p: "process_streaming_transform g (responses_so_far r) (guardrail_state r) = (p, s)" by fastforce
  let ?em = "emitted_text_per_choice r" and ?rs = "finish_reason_per_choice r"
  show thesis
  proof (cases "p")
    case (Inl exc)
    with assms p show thesis by (intro that(1)) (auto simp: emit_transform_round_def in_step_def)
  next
    case (Inr sink)
    note ps = p [unfolded Inr]
    show thesis
    proof (cases "build_transform_chunk ref sink ?em ?rs fin")
      case (Inl exc)
      then have "choice_deltas ?em (holdback_per_choice sink) fin (mutated_text_per_choice sink) = Inl exc"
        by (auto simp: build_transform_chunk_def Let_def split: if_splits sum.splits)
      note ex = choice_deltas_Inl [OF this]
      from \<open>choice_deltas ?em (holdback_per_choice sink) fin (mutated_text_per_choice sink) = Inl exc\<close>
        choice_deltas_Inr [of ?em "holdback_per_choice sink" fin "mutated_text_per_choice sink"]
      have "\<exists>m \<in> set (mutated_text_per_choice sink). \<not> prefix (text_at ?em (fst m)) (snd m)" by auto
      with Inl assms ps ex show thesis by (intro that(1)) (auto simp: emit_transform_round_def in_step_def)
    next
      case (Inr q)
      obtain out em' where q: "q = (out, em')" by fastforce
      note b = build_transform_chunk_Inr [OF Inr [unfolded q] process_streaming_transform_Inr(1) [OF ps]]
      have r': "e = None" "guardrail_state r' = s" "emitted_text_per_choice r' = em'" "responses_so_far r' = responses_so_far r"
        "responses_yielded r' = responses_yielded r @ (case out of None \<Rightarrow> [] | Some c \<Rightarrow> [c])"
        "saw_tool_calls r' = saw_tool_calls r" "last_chunk r' = last_chunk r"
        using assms(1) ps Inr q by (auto simp: emit_transform_round_def send_chunk_def split: option.splits)
      have "in_step r'" using assms(2) b by (simp add: in_step_def r')
      moreover have "text_at (emitted_text_per_choice r') = round_text ?em (holdback_per_choice sink) fin (mutated_text_per_choice sink)"
        using b text_at_delta_of [OF process_streaming_transform_Inr(1) [OF ps]] by (auto simp: r')
      ultimately show thesis using b ps r' by (intro that(2)) auto
    qed
  qed
qed

section \<open>Whatever the guardrail\<close>

definition prefix_closed :: "(string \<Rightarrow> bool) \<Rightarrow> bool" where
  "prefix_closed P \<longleftrightarrow> P [] \<and> (\<forall>s t. P t \<longrightarrow> prefix s t \<longrightarrow> P s)"

text \<open>Every text the guardrail answers satisfies \<open>P\<close>, and it always answers texts.\<close>

definition answers_within :: "(string \<Rightarrow> bool) \<Rightarrow> 's StreamGuardrail \<Rightarrow> bool" where
  "answers_within P g \<longleftrightarrow> (\<forall>texts model s a s'. sg_apply g texts model s = (Inr a, s') \<longrightarrow>
     (case answer_texts a of None \<Rightarrow> False | Some ts \<Rightarrow> list_all P ts))"

definition sends_within :: "(string \<Rightarrow> bool) \<Rightarrow> 's StreamRun \<Rightarrow> bool" where
  "sends_within P r \<longleftrightarrow> in_step r \<and> (\<forall>i. P (text_at (emitted_text_per_choice r) i))"

lemma round_sends_within:
  assumes "emit_transform_round cfg g ref fin r = (r', e)" "sends_within P r" "prefix_closed P" "answers_within P g"
  shows "sends_within P r'"
proof -
  have "in_step r" using assms(2) by (simp add: sends_within_def)
  with assms(1) show ?thesis
  proof (cases rule: emit_transform_round_cases)
    case (1 exc)
    moreover from 1(2) have "emitted_text_per_choice r' = emitted_text_per_choice r" by (metis StreamRun.ext_inject StreamRun.surjective StreamRun.update_convs(9))
    ultimately show ?thesis using assms(2) by (simp add: sends_within_def)
  next
    case (2 sink)
    have "P (round_text (emitted_text_per_choice r) (holdback_per_choice sink) fin (mutated_text_per_choice sink) i)" for i
    proof (cases "map_of (mutated_text_per_choice sink) i")
      case None
      with assms(2) show ?thesis by (simp add: round_text_def sends_within_def)
    next
      case (Some t)
      from process_streaming_transform_Inr(2) [OF 2(3) map_of_SomeD [OF Some]] assms(4) have "P t"
        by (fastforce simp: answers_within_def list_all_iff split: option.splits)
      with Some assms(3) take_is_prefix show ?thesis by (auto simp: round_text_def prefix_closed_def)
    qed
    with 2(2,5) show ?thesis by (simp add: sends_within_def)
  qed
qed

lemma passthrough_silent:
  "concat (map delta_text (filter (\<lambda>c. choice_index c = i) (map passthrough_choice cs))) = []"
proof (induction cs)
  case (Cons c cs)
  have "delta_text (passthrough_choice c) = []" by (simp add: passthrough_choice_def delta_text_def)
  with Cons.IH show ?case by (simp only: list.map filter.simps concat.simps append_Nil simp_thms split: if_split)
qed simp

lemma streamed_passthrough:
  assumes "tool_call_passthrough_chunk item rs = (c, rs')"
  shows "streamed_text i [c] = []"
proof -
  have "c = item\<lparr>chunk_choices := map passthrough_choice (chunk_choices item)\<rparr>"
    using assms unfolding tool_call_passthrough_chunk_def by (rule conjunct1 [OF iffD1 [OF prod.inject], symmetric])
  then have "concat (map chunk_choices [c]) = map passthrough_choice (chunk_choices item)" by simp
  then show ?thesis unfolding streamed_text_def using passthrough_silent by metis
qed

lemma sends_within_same:
  "responses_yielded r' = responses_yielded r \<Longrightarrow> emitted_text_per_choice r' = emitted_text_per_choice r \<Longrightarrow>
   sends_within P r \<Longrightarrow> sends_within P r'"
  by (simp add: sends_within_def in_step_def)

lemma item_sends_within:
  assumes "transform_item cfg g item r = (r', e)" "sends_within P r" "prefix_closed P" "answers_within P g"
  shows "sends_within P r'"
proof (cases "chunk_has_tool_calls item")
  case True
  let ?r1 = "r\<lparr>saw_tool_calls := True, responses_so_far := responses_so_far r @ [item], last_chunk := Some item\<rparr>"
  obtain r2 e2 where r2: "(if saw_text_content ?r1 then emit_transform_round cfg g item False ?r1 else (?r1, None)) = (r2, e2)" by fastforce
  have "sends_within P ?r1" by (rule sends_within_same [OF _ _ assms(2)]) simp_all
  with r2 have sw: "sends_within P r2" by (auto split: if_splits intro: round_sends_within assms(3,4))
  obtain c rs where c: "tool_call_passthrough_chunk item (finish_reason_per_choice r2) = (c, rs)" by fastforce
  show ?thesis
  proof (cases e2)
    case None
    with assms(1) True r2 c have "r' = send_chunk c (r2\<lparr>finish_reason_per_choice := rs\<rparr>)"
      by (simp add: transform_item_def)
    with sw streamed_passthrough [OF c] show ?thesis by (simp add: sends_within_def in_step_def send_chunk_def)
  next
    case (Some exc)
    with assms(1) True r2 sw show ?thesis by (simp add: transform_item_def)
  qed
next
  case False
  let ?r1 = "r\<lparr>chunk_counter := chunk_counter r + 1, responses_so_far := responses_so_far r @ [item], last_chunk := Some item,
               finish_reason_per_choice := record_finish_reasons item (finish_reason_per_choice r),
               saw_text_content := (saw_text_content r \<or> chunk_carries_text item)\<rparr>"
  have "sends_within P ?r1" by (rule sends_within_same [OF _ _ assms(2)]) simp_all
  moreover have "r' = ?r1 \<or> emit_transform_round cfg g item False ?r1 = (r', e)"
    using assms(1) False by (auto simp: transform_item_def Let_def split: if_splits)
  ultimately show ?thesis using round_sends_within [OF _ _ assms(3,4)] by metis
qed

lemma items_send_within:
  "transform_items cfg g items r = (r', e) \<Longrightarrow> sends_within P r \<Longrightarrow> prefix_closed P \<Longrightarrow> answers_within P g \<Longrightarrow> sends_within P r'"
proof (induction items arbitrary: r)
  case (Cons item items)
  obtain r1 e1 where r1: "transform_item cfg g item r = (r1, e1)" by fastforce
  have "sends_within P r1" by (rule item_sends_within [OF r1 Cons.prems(2-4)])
  with Cons r1 show ?case by (auto split: option.splits)
qed simp

lemma run_sends_within:
  assumes "run_incremental_transform_stream cfg g items s = (r, e)" "prefix_closed P" "answers_within P g"
  shows "sends_within P r"
proof -
  obtain r1 e1 where r1: "transform_items cfg g items (new_run s) = (r1, e1)" by fastforce
  have "sends_within P (new_run s)" using assms(2) by (simp add: sends_within_def in_step_def new_run_def prefix_closed_def)
  then have sw1: "sends_within P r1" by (rule items_send_within [OF r1 _ assms(2,3)])
  obtain r2 e2 where r2: "(if saw_tool_calls r1 then inspect_full_response_for_block g r1 else (r1, None)) = (r2, e2)" by fastforce
  have sw2: "sends_within P r2"
    using r2 by (auto simp: inspect_full_response_for_block_def split: if_splits prod.splits intro: sends_within_same [OF _ _ sw1])
  have "r = r1 \<or> r = r2 \<or> (\<exists>final. emit_transform_round cfg g final True r2 = (r, e))"
    using assms(1) r1 r2 by (auto simp: run_incremental_transform_stream_def split: option.splits)
  with sw1 sw2 round_sends_within [OF _ sw2 assms(2,3)] show ?thesis by metis
qed

text \<open>
  C0: No raw delta reaches the client. Whatever the guardrail, the chunks, the sampling and the way the run
  ends (also by an error or a block), what a client has read of a choice has every property that the texts the
  guardrail answers have and prefixes inherit: a chunk with tool calls is forwarded without its content, and text the guardrail has
  not returned is never sent.
\<close>

theorem stream_sends_only_guardrailed_text:
  assumes "run_incremental_transform_stream cfg g items s = (r, e)" "prefix_closed P" "answers_within P g"
  shows "P (streamed_text i (responses_yielded r))"
  using run_sends_within [OF assms] by (simp add: sends_within_def in_step_def)

definition starring_guardrail :: "unit StreamGuardrail" where
  "starring_guardrail = \<lparr>sg_prepare = (\<lambda>rs s. s),
     sg_apply = (\<lambda>texts model s. (Inr \<lparr>answer_texts = Some (map (map (\<lambda>c. if is_digit c then CHR ''*'' else c)) texts), answer_holdback = None\<rparr>, s)),
     sg_inspect = (\<lambda>rs s. (Some (ModifyResponse ''blocked''), s))\<rparr>"

definition mixed_chunk :: StreamChunk where
  "mixed_chunk = \<lparr>chunk_id = ''c'', chunk_created = 0, chunk_model = None,
     chunk_choices = [\<lparr>choice_index = 0, delta_content = PStr ''pin 1234'', delta_role = None, delta_tool_calls = PList [PNone], choice_finish_reason = Some ''tool_calls''\<rparr>]\<rparr>"

theorem stream_sends_only_guardrailed_text_witness:
  "list_all (\<lambda>c. \<not> is_digit c) (streamed_text 0 (responses_yielded
     (fst (run_incremental_transform_stream \<lparr>sampling_rate = 1, end_of_stream_only = False\<rparr> starring_guardrail [mixed_chunk, mixed_chunk] ()))))"
proof -
  let ?P = "list_all (\<lambda>c. \<not> is_digit c)"
  have star: "\<not> is_digit (CHR ''*'')" by code_simp
  have p: "prefix_closed ?P" unfolding prefix_closed_def by (auto simp: prefix_def)
  have "list_all (\<lambda>c. \<not> is_digit c) (map (\<lambda>c. if is_digit c then CHR ''*'' else c) t)" for t
    by (induction t) (simp_all add: star)
  then have a: "answers_within ?P starring_guardrail"
    unfolding answers_within_def starring_guardrail_def by (simp add: list_all_length)
  show ?thesis by (rule stream_sends_only_guardrailed_text [where P = ?P, OF prod.collapse [symmetric] p a])
qed

end
