(* ===== verification/Streaming_Settled.thy ===== *)
theory Streaming_Settled
  imports Streaming_Facts
begin

text \<open>
  The contract between the streaming framework and a guardrail that rewrites text: it answers each text by the same function,
  and what it does not ask to hold back no later text can change. Under it a run never fails and streams the
  rewritten text of each choice, whatever the chunks and the sampling.
\<close>

locale settling_guardrail =
  fixes g :: "'s StreamGuardrail" and inv :: "'s \<Rightarrow> bool" and rewrite :: "string \<Rightarrow> string" and hold :: "string \<Rightarrow> nat"
    and good :: "string \<Rightarrow> bool"
  assumes prepare_keeps: "inv s \<Longrightarrow> inv (sg_prepare g rs s)"
    and apply_rewrites: "inv s \<Longrightarrow> ts \<noteq> [] \<Longrightarrow> \<exists>s'. sg_apply g ts m s =
      (Inr \<lparr>answer_texts = Some (map rewrite ts), answer_holdback = Some (map (\<lambda>t. PInt (int (hold t))) ts)\<rparr>, s') \<and> inv s'"
    and settles: "good t \<Longrightarrow> prefix (take (length (rewrite t) - hold t) (rewrite t)) (rewrite (t @ x))"
    and rewrite_Nil: "rewrite [] = []"
begin

text \<open>What was sent stays a prefix of the rewritten text, whatever text follows.\<close>

definition settled_run :: "'s StreamRun \<Rightarrow> bool" where
  "settled_run r \<longleftrightarrow> in_step r \<and> inv (guardrail_state r) \<and>
     (\<forall>i x. prefix (text_at (emitted_text_per_choice r) i) (rewrite (streamed_text i (responses_so_far r) @ x)))"

lemma process_rewrites:
  assumes "inv s"
  obtains sink s' where "process_streaming_transform g rs s = (Inr sink, s')" "inv s'"
    "\<forall>i. map_of (mutated_text_per_choice sink) i = (if i \<in> fst ` set (accumulate_string_content_by_choice_index rs)
       then Some (rewrite (streamed_text i rs)) else None)"
    "\<forall>i. map_of (holdback_per_choice sink) i = (if i \<in> fst ` set (accumulate_string_content_by_choice_index rs)
       then Some (hold (streamed_text i rs)) else None)"
proof -
  let ?raw = "accumulate_string_content_by_choice_index rs"
  show thesis
  proof (cases "?raw = []")
    case True
    with assms show thesis
      by (intro that [of "\<lparr>mutated_text_per_choice = [], holdback_per_choice = []\<rparr>" s]) (simp_all add: process_streaming_transform_def)
  next
    case False
    let ?is = "sort (map fst ?raw)" and ?at = "\<lambda>i. streamed_text i rs"
    have "map ?at ?is \<noteq> []" using False by (metis length_0_conv length_map length_sort)
    from apply_rewrites [OF prepare_keeps [OF assms, of rs] this, of "model_of rs"] obtain s' where
      a: "sg_apply g (map ?at ?is) (model_of rs) (sg_prepare g rs s) =
        (Inr \<lparr>answer_texts = Some (map rewrite (map ?at ?is)), answer_holdback = Some (map (\<lambda>t. PInt (int (hold t))) (map ?at ?is))\<rparr>, s')"
      and inv: "inv s'" by blast
    have z: "map_of (zip ?is (map h (map ?at ?is))) i = (if i \<in> fst ` set ?raw then Some (h (?at i)) else None)" for h :: "string \<Rightarrow> 'x" and i
      by (simp add: zip_map2 zip_same_conv_map comp_def map_of_map_restrict restrict_map_def)
    have c: "map coerce_stream_holdback_value (map (\<lambda>t. PInt (int (hold t))) (map ?at ?is)) = map hold (map ?at ?is)" by simp
    have t: "map (text_at ?raw) ?is = map ?at ?is" by (simp add: text_at_accumulate)
    have "process_streaming_transform g rs s =
      (Inr \<lparr>mutated_text_per_choice = zip ?is (map rewrite (map ?at ?is)), holdback_per_choice = zip ?is (map hold (map ?at ?is))\<rparr>, s')"
      unfolding process_streaming_transform_def Let_def t a
      by (simp only: False if_False prod.case sum.case option.case GuardrailAnswer.simps c)
    then show thesis using inv by (rule that) (simp_all only: z StreamTransformSink.simps simp_thms)
  qed
qed

lemma settled_round:
  assumes "emit_transform_round cfg g ref fin r = (r', e)" "settled_run r"
    and "fin \<or> (\<forall>i. good (streamed_text i (responses_so_far r)))"
  shows "e = None \<and> in_step r' \<and> (\<not> fin \<longrightarrow> settled_run r') \<and> responses_so_far r' = responses_so_far r \<and> saw_tool_calls r' = saw_tool_calls r \<and> last_chunk r' = last_chunk r
    \<and> (fin \<longrightarrow> (\<forall>i. text_at (emitted_text_per_choice r') i = rewrite (streamed_text i (responses_so_far r))))"
proof -
  let ?em = "emitted_text_per_choice r" and ?rs = "responses_so_far r"
  let ?in = "\<lambda>i. i \<in> fst ` set (accumulate_string_content_by_choice_index ?rs)"
  from assms(2) have r: "in_step r" "inv (guardrail_state r)" "\<And>i x. prefix (text_at ?em i) (rewrite (streamed_text i ?rs @ x))"
    by (auto simp: settled_run_def)
  obtain sink s' where p: "process_streaming_transform g ?rs (guardrail_state r) = (Inr sink, s')" "inv s'"
    and mut: "\<forall>i. map_of (mutated_text_per_choice sink) i = (if ?in i then Some (rewrite (streamed_text i ?rs)) else None)"
    and hb: "\<forall>i. map_of (holdback_per_choice sink) i = (if ?in i then Some (hold (streamed_text i ?rs)) else None)"
    by (rule process_rewrites [OF r(2), of ?rs])
  have absent: "\<not> ?in i \<Longrightarrow> streamed_text i ?rs = []" for i
    using text_at_absent [of i "accumulate_string_content_by_choice_index ?rs"] by (simp add: text_at_accumulate)
  have mem: "snd m = rewrite (streamed_text (fst m) ?rs)" if "m \<in> set (mutated_text_per_choice sink)" for m
  proof -
    have "map_of (mutated_text_per_choice sink) (fst m) = Some (snd m)"
      using that process_streaming_transform_Inr(1) [OF p(1)] by (simp add: map_of_eq_Some_iff)
    with mut show ?thesis by (auto split: if_splits)
  qed
  from r(3) [of _ "[]"] have pre: "prefix (text_at ?em i) (rewrite (streamed_text i ?rs))" for i by simp
  from assms(1) r(1) show ?thesis
  proof (cases rule: emit_transform_round_cases)
    case (1 exc)
    with p mem pre show ?thesis by auto
  next
    case (2 sink')
    with p have [simp]: "sink' = sink" and inv: "inv (guardrail_state r')" by auto
    define n where "n i = max (length (text_at ?em i)) (length (rewrite (streamed_text i ?rs)) - (if fin then 0 else hold (streamed_text i ?rs)))" for i
    have em': "text_at (emitted_text_per_choice r') i = (if ?in i then take (n i) (rewrite (streamed_text i ?rs)) else text_at ?em i)" for i
      using 2(5) mut hb by (simp add: round_text_def n_def)
    have keep: "prefix (text_at (emitted_text_per_choice r') i) (rewrite (streamed_text i ?rs @ x))" if "\<not> fin" for i x
    proof (cases "?in i \<and> length (text_at ?em i) < n i")
      case True
      with that have "n i = length (rewrite (streamed_text i ?rs)) - hold (streamed_text i ?rs)" by (auto simp: n_def max_def split: if_splits)
      with True em' [of i] settles [of "streamed_text i ?rs" x] assms(3) that show ?thesis by auto
    next
      case False
      then have "text_at (emitted_text_per_choice r') i = text_at ?em i"
        using em' [of i] pre [of i] by (auto simp: n_def prefix_def max_def split: if_splits)
      with r(3) show ?thesis by simp
    qed
    have all_sent: "text_at (emitted_text_per_choice r') i = rewrite (streamed_text i ?rs)" if fin for i
    proof (cases "?in i")
      case True
      with that em' [of i] show ?thesis by (simp add: n_def)
    next
      case False
      with em' [of i] pre [of i] rewrite_Nil absent [OF False] show ?thesis by simp
    qed
    from 2 inv keep all_sent show ?thesis by (auto simp: settled_run_def)
  qed
qed

lemma settled_same:
  "in_step r' = in_step r \<Longrightarrow> guardrail_state r' = guardrail_state r \<Longrightarrow> emitted_text_per_choice r' = emitted_text_per_choice r \<Longrightarrow>
   responses_so_far r' = responses_so_far r @ rs \<Longrightarrow> settled_run r \<Longrightarrow> settled_run r'"
  by (simp add: settled_run_def)

lemma settled_item:
  assumes "transform_item cfg g item r = (r', e)" "settled_run r" "end_of_stream_only cfg \<or> sampling_rate cfg \<noteq> 0"
    and "\<forall>i. good (streamed_text i (responses_so_far r @ [item]))"
  shows "e = None \<and> settled_run r' \<and> responses_so_far r' = responses_so_far r @ [item] \<and> last_chunk r' \<noteq> None"
proof (cases "chunk_has_tool_calls item")
  case True
  let ?r1 = "r\<lparr>saw_tool_calls := True, responses_so_far := responses_so_far r @ [item], last_chunk := Some item\<rparr>"
  have r1: "settled_run ?r1" by (rule settled_same [OF _ _ _ _ assms(2)]) (simp_all add: in_step_def)
  obtain r2 e2 where r2: "(if saw_text_content ?r1 then emit_transform_round cfg g item False ?r1 else (?r1, None)) = (r2, e2)" by fastforce
  have s2: "e2 = None \<and> settled_run r2 \<and> responses_so_far r2 = responses_so_far r @ [item] \<and> last_chunk r2 = Some item"
  proof (cases "saw_text_content ?r1")
    case True
    with r2 have "emit_transform_round cfg g item False ?r1 = (r2, e2)" by simp
    from settled_round [OF this r1] assms(4) show ?thesis by simp
  next
    case False
    with r1 r2 show ?thesis by auto
  qed
  obtain c rs where c: "tool_call_passthrough_chunk item (finish_reason_per_choice r2) = (c, rs)" by fastforce
  with assms(1) True r2 s2 have r': "e = None" "r' = send_chunk c (r2\<lparr>finish_reason_per_choice := rs\<rparr>)"
    by (simp_all add: transform_item_def)
  have "in_step r'" using s2 streamed_passthrough [OF c] by (simp add: r' send_chunk_def in_step_def settled_run_def)
  moreover have st2: "settled_run r2" using s2 by blast
  moreover from st2 have "in_step r2" by (simp add: settled_run_def)
  ultimately have "settled_run r'" by - (rule settled_same [of r' r2 "[]"], simp_all add: r' send_chunk_def)
  with s2 show ?thesis by (simp add: r' send_chunk_def)
next
  case False
  let ?r1 = "r\<lparr>chunk_counter := chunk_counter r + 1, responses_so_far := responses_so_far r @ [item], last_chunk := Some item,
               finish_reason_per_choice := record_finish_reasons item (finish_reason_per_choice r),
               saw_text_content := (saw_text_content r \<or> chunk_carries_text item)\<rparr>"
  have r1: "settled_run ?r1" by (rule settled_same [OF _ _ _ _ assms(2)]) (simp_all add: in_step_def)
  have "transform_item cfg g item r = (if end_of_stream_only cfg \<or> chunk_has_finish_reason item then (?r1, None)
    else if chunk_counter ?r1 mod sampling_rate cfg = 0 then emit_transform_round cfg g item False ?r1 else (?r1, None))"
    using assms(3) False by (auto simp: transform_item_def Let_def)
  with assms(1) consider "(r', e) = (?r1, None)" | "emit_transform_round cfg g item False ?r1 = (r', e)" by metis
  then show ?thesis
  proof cases
    case 1
    with r1 show ?thesis by simp
  next
    case 2
    from settled_round [OF 2 r1] assms(4) show ?thesis by simp
  qed
qed

lemma settled_items:
  assumes "transform_items cfg g items r = (r', e)" "settled_run r" "end_of_stream_only cfg \<or> sampling_rate cfg \<noteq> 0"
    and "\<forall>i n. good (streamed_text i (responses_so_far r @ take n items))"
  shows "e = None \<and> settled_run r' \<and> responses_so_far r' = responses_so_far r @ items \<and> (last_chunk r' = None \<longrightarrow> items = [])"
  using assms
proof (induction items arbitrary: r)
  case (Cons item items)
  obtain r1 e1 where r1: "transform_item cfg g item r = (r1, e1)" by fastforce
  have "good (streamed_text i (responses_so_far r @ take (Suc n) (item # items)))" for i n using Cons.prems(4) by blast
  then have g: "good (streamed_text i ((responses_so_far r @ [item]) @ take n items))" for i n by simp
  from g [of _ 0] settled_item [OF r1 Cons.prems(2,3)] have s: "e1 = None" "settled_run r1" "responses_so_far r1 = responses_so_far r @ [item]"
    "last_chunk r1 \<noteq> None" by auto
  have rest: "transform_items cfg g items r1 = (r', e)" using Cons.prems(1) r1 s(1) by simp
  from Cons.IH [OF rest s(2) Cons.prems(3)] g s(3) have t: "e = None" "settled_run r'" "responses_so_far r' = responses_so_far r @ item # items"
    "last_chunk r' = None \<longrightarrow> items = []" by auto
  moreover have "last_chunk r' \<noteq> None"
  proof (cases items)
    case Nil
    with rest s(4) show ?thesis by simp
  qed (use t(4) in auto)
  ultimately show ?case by simp
qed simp

text \<open>The run as a whole, when the inspection of a response with tool calls lets it pass.\<close>

lemma streams_rewritten_text:
  assumes "inv s" "end_of_stream_only cfg \<or> sampling_rate cfg \<noteq> 0" "\<forall>i n. good (streamed_text i (take n items))"
    and passes: "\<forall>rs s. inv s \<longrightarrow> (\<exists>s'. sg_inspect g rs s = (None, s') \<and> inv s')"
  obtains r where "run_incremental_transform_stream cfg g items s = (r, None)"
    "\<And>i. streamed_text i (responses_yielded r) = rewrite (streamed_text i items)"
proof -
  obtain r1 e1 where r1: "transform_items cfg g items (new_run s) = (r1, e1)" by fastforce
  have "settled_run (new_run s)" using assms(1) by (simp add: settled_run_def in_step_def new_run_def)
  from settled_items [OF r1 this assms(2)] assms(3) have s1: "e1 = None" "settled_run r1" "responses_so_far r1 = items"
    "last_chunk r1 = None \<longrightarrow> items = []" by (simp_all add: new_run_def)
  obtain r2 e2 where r2: "(if saw_tool_calls r1 then inspect_full_response_for_block g r1 else (r1, None)) = (r2, e2)" by fastforce
  have s2: "e2 = None \<and> settled_run r2 \<and> responses_so_far r2 = items \<and> (last_chunk r2 = None \<longrightarrow> items = [])"
    using r2 s1 passes [rule_format, of "guardrail_state r1" items]
    by (auto simp: inspect_full_response_for_block_def settled_run_def in_step_def split: if_splits)
  show thesis
  proof (cases "last_chunk r2")
    case None
    with s2 have "items = []" by simp
    then have "text_at (emitted_text_per_choice r2) i = []" for i
      using s2 rewrite_Nil by (auto simp: settled_run_def dest!: spec [of _ "[]"])
    with s2 \<open>items = []\<close> show thesis using None r1 r2 s1(1) rewrite_Nil
      by (intro that [of r2]) (auto simp: run_incremental_transform_stream_def settled_run_def in_step_def)
  next
    case (Some final)
    obtain r3 e3 where r3: "emit_transform_round cfg g final True r2 = (r3, e3)" by fastforce
    from settled_round [OF r3] s2 have s3: "e3 = None" "in_step r3" "\<forall>i. text_at (emitted_text_per_choice r3) i = rewrite (streamed_text i items)" by auto
    with s2 Some r1 r2 r3 s1(1) show thesis
      by (intro that [of r3]) (auto simp: run_incremental_transform_stream_def in_step_def)
  qed
qed

text \<open>What happens when the law fails: the second of two rounds finds that the first has sent too much.\<close>

lemma first_round:
  assumes "inv s" "emit_transform_round cfg g ref False r = (r', e)" "in_step r" "guardrail_state r = s" "emitted_text_per_choice r = []"
    and "streamed_text i (responses_so_far r) \<noteq> []" "hold (streamed_text i (responses_so_far r)) = 0"
  shows "e = None \<and> in_step r' \<and> inv (guardrail_state r') \<and> text_at (emitted_text_per_choice r') i = rewrite (streamed_text i (responses_so_far r))
    \<and> responses_so_far r' = responses_so_far r"
proof -
  let ?rs = "responses_so_far r"
  obtain sink s' where p: "process_streaming_transform g ?rs (guardrail_state r) = (Inr sink, s')" "inv s'"
    and mut: "\<forall>i. map_of (mutated_text_per_choice sink) i = (if i \<in> fst ` set (accumulate_string_content_by_choice_index ?rs)
       then Some (rewrite (streamed_text i ?rs)) else None)"
    and hb: "\<forall>i. map_of (holdback_per_choice sink) i = (if i \<in> fst ` set (accumulate_string_content_by_choice_index ?rs)
       then Some (hold (streamed_text i ?rs)) else None)"
    by (rule process_rewrites [of "guardrail_state r" ?rs]) (use assms(1,4) in simp)
  have "i \<in> fst ` set (accumulate_string_content_by_choice_index ?rs)"
    using text_at_absent [of i "accumulate_string_content_by_choice_index ?rs"] assms(6) by (auto simp: text_at_accumulate)
  with mut hb assms(7) have m: "map_of (mutated_text_per_choice sink) i = Some (rewrite (streamed_text i ?rs))" "map_of (holdback_per_choice sink) i = Some 0" by auto
  from assms(2,3) show ?thesis
  proof (cases rule: emit_transform_round_cases)
    case (1 exc)
    with p assms(5) show ?thesis by auto
  next
    case (2 sink')
    with p m assms(5) show ?thesis by (auto simp: round_text_def)
  qed
qed

lemma second_round:
  assumes "inv (guardrail_state r)" "emit_transform_round cfg g ref False r = (r', e)" "in_step r"
    and "\<not> prefix (text_at (emitted_text_per_choice r) i) (rewrite (streamed_text i (responses_so_far r)))"
    and "streamed_text i (responses_so_far r) \<noteq> []"
  shows "e = Some (HttpException 400 ''stream_transform_underflow'') \<and> responses_yielded r' = responses_yielded r"
proof -
  let ?rs = "responses_so_far r"
  obtain sink s' where p: "process_streaming_transform g ?rs (guardrail_state r) = (Inr sink, s')"
    and mut: "\<forall>i. map_of (mutated_text_per_choice sink) i = (if i \<in> fst ` set (accumulate_string_content_by_choice_index ?rs)
       then Some (rewrite (streamed_text i ?rs)) else None)"
    by (rule process_rewrites [OF assms(1), of ?rs])
  have "i \<in> fst ` set (accumulate_string_content_by_choice_index ?rs)"
    using text_at_absent [of i "accumulate_string_content_by_choice_index ?rs"] assms(5) by (auto simp: text_at_accumulate)
  with mut have "map_of (mutated_text_per_choice sink) i = Some (rewrite (streamed_text i ?rs))" by simp
  then have m: "(i, rewrite (streamed_text i ?rs)) \<in> set (mutated_text_per_choice sink)" by (rule map_of_SomeD)
  from assms(2,3) show ?thesis
  proof (cases rule: emit_transform_round_cases)
    case (1 exc)
    from 1(2) have "responses_yielded r' = responses_yielded r"
      by (metis StreamRun.ext_inject StreamRun.surjective StreamRun.update_convs(9))
    with 1 p show ?thesis by auto
  next
    case (2 sink')
    with p m assms(4) show ?thesis by auto
  qed
qed

end

end
