(* ===== verification/Guardrail.thy ===== *)
theory Guardrail
  imports Activity
begin

text \<open>
  \<open>litellm/proxy/guardrails/guardrail_hooks/pii_anonymizer\<close>: the guardrail on the LLM path. It encodes the texts and tool
  calls of a request before the provider sees them and decodes those of the response. The state it runs on is the request dict
  (whose metadata holds the request's tokens), the shared session cache, the random draws and the activity log. An
  exception that leaves the guardrail is a value of \<open>guardrail_error\<close>.
\<close>

section \<open>Request data and tool calls\<close>

text \<open>
  The request dict: its fields, its metadata dict when there is one, and in that the live dict of tokens when there
  is one. The framework passes a dict or nothing as the metadata.
\<close>

record RequestData =
  rd_fields :: "(string, pyobj) dict"
  rd_metadata :: "(string, pyobj) dict option"
  rd_bucket :: "backing option"

definition SESSION_ID_KEY :: string where "SESSION_ID_KEY = ''litellm_session_id''"
definition API_KEY_METADATA_KEY :: string where "API_KEY_METADATA_KEY = ''user_api_key''"
definition MODEL_KEY :: string where "MODEL_KEY = ''model''"
definition KEY_ALIAS_METADATA_KEY :: string where "KEY_ALIAS_METADATA_KEY = ''user_api_key_alias''"
definition USER_ID_METADATA_KEY :: string where "USER_ID_METADATA_KEY = ''user_api_key_user_id''"
definition CALL_ID_KEY :: string where "CALL_ID_KEY = ''litellm_call_id''"

definition MappingScope_of :: "string option \<Rightarrow> MappingScope" where
  "MappingScope_of scope = (if scope = Some ''conversation'' then CONVERSATION else REQUEST)"

fun arguments_of :: "pyobj \<Rightarrow> string" where
  "arguments_of (PDict call) =
     (case obj_get call ''function'' of
        PDict fn \<Rightarrow> (case obj_get fn ''arguments'' of PStr a \<Rightarrow> a | _ \<Rightarrow> [])
      | _ \<Rightarrow> [])"
| "arguments_of _ = []"

fun with_arguments :: "pyobj \<Rightarrow> string \<Rightarrow> pyobj" where
  "with_arguments (PDict call) arguments =
     (case obj_get call ''function'' of
        PDict fn \<Rightarrow>
          (case obj_get fn ''arguments'' of
             PStr a \<Rightarrow> PDict (dict_update call [(''function'', PDict (dict_update fn [(''arguments'', PStr arguments)]))])
           | _ \<Rightarrow> PDict call)
      | _ \<Rightarrow> PDict call)"
| "with_arguments call _ = call"

definition text_field :: "(string, pyobj) dict \<Rightarrow> string \<Rightarrow> string option" where
  "text_field source key = as_str (obj_get source key)"

definition metadata_of :: "RequestData \<Rightarrow> (string, pyobj) dict" where
  "metadata_of rd = (case rd_metadata rd of None \<Rightarrow> [] | Some m \<Rightarrow> m)"

definition to_span_action :: "string \<Rightarrow> SpanAction" where
  "to_span_action raw = (case List.find (\<lambda>a. SpanAction_value a = raw) [BLOCK, MASK, ENCODE] of None \<Rightarrow> ENCODE | Some a \<Rightarrow> a)"

text \<open>The message of an error; \<open>None\<close> is \<open>assert_never\<close>, on errors the guardrail's calls do not answer.\<close>

fun public_message :: "pii_error \<Rightarrow> string option" where
  "public_message (DetectorUnavailable d reason) = Some (''PII '' @ DetectorKind_value d @ '' detector unavailable: '' @ reason)"
| "public_message (DetectorInvalidResponse d reason) =
     Some (''PII '' @ DetectorKind_value d @ '' detector returned an invalid response: '' @ reason)"
| "public_message (StoreUnavailable reason) = Some (''PII token store unavailable: '' @ reason)"
| "public_message (KeyUnavailable reason) = Some (''PII encryption key unavailable: '' @ reason)"
| "public_message (DecodeFailed reason) = Some (''PII token could not be decoded: '' @ reason)"
| "public_message (UnknownToken token) = Some (''Unknown PII token: '' @ token)"
| "public_message (TokenSpaceExhausted ety) = Some (''No free PII token remained for '' @ ety)"
| "public_message _ = None"

section \<open>The guardrail\<close>

datatype guardrail_error = GuardrailRaised "string option" string | BlockedPiiEntity string "string option" | Escaped string

record 'c PiiAnonymizerGuardrail =
  guardrail_name :: "string option"
  g_detector :: "CascadingDetector option"
  g_fail_closed :: bool
  g_unmet_requirement :: "string option"
  g_language :: string
  g_actions :: "(string, SpanAction) dict"
  g_default_action :: SpanAction
  g_codec :: PiiCodec
  g_mapping_scope :: MappingScope
  g_session_cache :: "'c AsyncKeyValueCache option"

text \<open>\<open>_shared_cache()\<close> is the argument \<open>shared\<close>: the proxy's cross-worker cache, when Redis is configured.\<close>

definition new_guardrail ::
  "Externals \<Rightarrow> 'c AsyncKeyValueCache option \<Rightarrow> string option \<Rightarrow> CascadingDetector option \<Rightarrow> CodecId \<Rightarrow> (string, string) dict option
   \<Rightarrow> string \<Rightarrow> string option \<Rightarrow> 'c AsyncKeyValueCache option \<Rightarrow> bool \<Rightarrow> string option \<Rightarrow> string
   \<Rightarrow> string + 'c PiiAnonymizerGuardrail" where
  "new_guardrail ext shared name det codec config default_action mapping_scope session_cache fail_closed unmet language =
     (let actions = dict_of (map (\<lambda>(e, a). (e, to_span_action a)) (case config of None \<Rightarrow> [] | Some c \<Rightarrow> c));
          dflt = to_span_action default_action;
          scope = MappingScope_of mapping_scope;
          cache = (if needs_shared_cache scope then (case session_cache of None \<Rightarrow> shared | Some c \<Rightarrow> Some c) else None)
      in if needs_shared_cache scope \<and> cache = None then Inl ''ValueError''
         else Inr \<lparr>guardrail_name = name, g_detector = det, g_fail_closed = fail_closed, g_unmet_requirement = unmet,
           g_language = language, g_actions = actions, g_default_action = dflt,
           g_codec = ActionAwareCodec (build_codec ext codec) actions dflt, g_mapping_scope = scope, g_session_cache = cache\<rparr>)"

section \<open>The store\<close>

text \<open>\<open>_token_bucket\<close>: the request's live dict of tokens, made when it is not there.\<close>

definition token_bucket :: "RequestData \<Rightarrow> backing" where
  "token_bucket rd = (case rd_bucket rd of None \<Rightarrow> [] | Some b \<Rightarrow> b)"

definition with_bucket :: "RequestData \<Rightarrow> backing \<Rightarrow> RequestData" where
  "with_bucket rd b = rd\<lparr>rd_metadata := Some (metadata_of rd), rd_bucket := Some b\<rparr>"

text \<open>A store of one part of the state, on the pair of request and cache.\<close>

definition on_request :: "backing PiiTokenStore \<Rightarrow> (RequestData \<times> 'c) PiiTokenStore" where
  "on_request store =
     \<lparr>st_put_many = (\<lambda>sc entries ((rd, c), k).
        case st_put_many store sc entries (token_bucket rd, k) of (r, (b, k')) \<Rightarrow> (r, ((with_bucket rd b, c), k'))),
      st_get = (\<lambda>sc token ((rd, c), k).
        case st_get store sc token (token_bucket rd, k) of (r, (b, k')) \<Rightarrow> (r, ((with_bucket rd b, c), k'))),
      st_get_many = (\<lambda>sc tokens ((rd, c), k).
        case st_get_many store sc tokens (token_bucket rd, k) of (r, (b, k')) \<Rightarrow> (r, ((with_bucket rd b, c), k')))\<rparr>"

definition on_cache :: "'c PiiTokenStore \<Rightarrow> (RequestData \<times> 'c) PiiTokenStore" where
  "on_cache store =
     \<lparr>st_put_many = (\<lambda>sc entries ((rd, c), k). case st_put_many store sc entries (c, k) of (r, (c', k')) \<Rightarrow> (r, ((rd, c'), k'))),
      st_get = (\<lambda>sc token ((rd, c), k). case st_get store sc token (c, k) of (r, (c', k')) \<Rightarrow> (r, ((rd, c'), k'))),
      st_get_many = (\<lambda>sc tokens ((rd, c), k). case st_get_many store sc tokens (c, k) of (r, (c', k')) \<Rightarrow> (r, ((rd, c'), k')))\<rparr>"

definition guardrail_store :: "Externals \<Rightarrow> 'c PiiAnonymizerGuardrail \<Rightarrow> (RequestData \<times> 'c) PiiTokenStore" where
  "guardrail_store ext self = (case g_session_cache self of
     None \<Rightarrow> on_request RequestScopedStore
   | Some cache \<Rightarrow> on_cache (DualCacheStore cache (env_cipher ext) DEFAULT_SESSION_TTL_SECONDS))"

text \<open>What building the store leaves in the request: the bucket, when the store is the request's.\<close>

definition prepared :: "'c PiiAnonymizerGuardrail \<Rightarrow> RequestData \<Rightarrow> RequestData" where
  "prepared self rd = (if g_session_cache self = None then with_bucket rd (token_bucket rd) else rd)"

definition guardrail_scope :: "Externals \<Rightarrow> 'c PiiAnonymizerGuardrail \<Rightarrow> RequestData \<Rightarrow> TokenScope" where
  "guardrail_scope ext self rd =
     resolve_scope (ext_sha256 ext) (g_mapping_scope self) (text_field (metadata_of rd) API_KEY_METADATA_KEY)
       (text_field (rd_fields rd) SESSION_ID_KEY)"

definition guardrail_service :: "Externals \<Rightarrow> 'c PiiAnonymizerGuardrail \<Rightarrow> (RequestData \<times> 'c) PiiService option" where
  "guardrail_service ext self = map_option
     (\<lambda>det. \<lparr>svc_detector = det, svc_codec = g_codec self, svc_store = guardrail_store ext self\<rparr>) (g_detector self)"

section \<open>Inputs\<close>

record GuardrailInputs =
  in_texts :: "string list option"
  in_tool_calls :: "pyobj list option"
  in_stream_holdback_chars :: "nat list option"
  in_other :: "(string, pyobj) dict"

definition texts_of :: "GuardrailInputs \<Rightarrow> string list" where
  "texts_of inputs = (case in_texts inputs of None \<Rightarrow> [] | Some ts \<Rightarrow> ts)"

definition tool_calls_of :: "GuardrailInputs \<Rightarrow> pyobj list" where
  "tool_calls_of inputs = (case in_tool_calls inputs of None \<Rightarrow> [] | Some cs \<Rightarrow> cs)"

definition combined_of :: "GuardrailInputs \<Rightarrow> string list" where
  "combined_of inputs = texts_of inputs @ map arguments_of (tool_calls_of inputs)"

definition rebuild :: "GuardrailInputs \<Rightarrow> string list \<Rightarrow> bool \<Rightarrow> GuardrailInputs" where
  "rebuild inputs processed with_holdback =
     (let texts_out = take (length (texts_of inputs)) processed;
          args_out = drop (length (texts_of inputs)) processed;
          calls_out = map2 with_arguments (tool_calls_of inputs) args_out;
          holds = map holdback_chars texts_out
      in inputs\<lparr>in_tool_calls := (if tool_calls_of inputs = [] then in_tool_calls inputs else Some calls_out),
                in_stream_holdback_chars := (if with_holdback then Some holds else in_stream_holdback_chars inputs),
                in_texts := Some texts_out\<rparr>)"

section \<open>Applying it\<close>

record 'c GuardrailState =
  gs_request :: RequestData
  gs_cache :: 'c
  gs_draws :: draws
  gs_log :: PiiActivityLog

definition guardrail_record ::
  "'c PiiAnonymizerGuardrail \<Rightarrow> stamp \<Rightarrow> PiiDirection \<Rightarrow> PiiOutcome \<Rightarrow> counts \<Rightarrow> counts \<Rightarrow> nat \<Rightarrow> nat \<Rightarrow> bool \<Rightarrow> TextCapture option
   \<Rightarrow> 'c GuardrailState \<Rightarrow> 'c GuardrailState" where
  "guardrail_record self stamp direction outcome entity_counts action_counts tokens resolved ner capture st =
     (let rd = gs_request st; metadata = metadata_of rd in
      st\<lparr>gs_log := record_event
        (new_event (fst stamp) GUARDRAIL direction outcome (snd stamp) entity_counts action_counts tokens resolved ner
           (text_field (rd_fields rd) CALL_ID_KEY) (text_field (rd_fields rd) SESSION_ID_KEY)
           (text_field metadata KEY_ALIAS_METADATA_KEY) (text_field metadata USER_ID_METADATA_KEY)
           (text_field (rd_fields rd) MODEL_KEY) (guardrail_name self) None capture)
        (gs_log st)\<rparr>)"

text \<open>A failed call: an exception passes through, an error is recorded with its message and raised.\<close>

definition guardrail_fail ::
  "'c PiiAnonymizerGuardrail \<Rightarrow> stamp \<Rightarrow> PiiDirection \<Rightarrow> pii_error \<Rightarrow> 'c GuardrailState \<Rightarrow> guardrail_error \<times> 'c GuardrailState" where
  "guardrail_fail self stamp direction err st =
     (case err of
        Raised exc \<Rightarrow> (Escaped exc, st)
      | _ \<Rightarrow>
          (case public_message err of
             None \<Rightarrow> (Escaped ''AssertionError'', st)
           | Some message \<Rightarrow>
               (GuardrailRaised (guardrail_name self) message,
                guardrail_record self stamp direction (Failed message) [] [] 0 0 False None st)))"

definition guardrail_decode ::
  "Externals \<Rightarrow> 'c PiiAnonymizerGuardrail \<Rightarrow> (RequestData \<times> 'c) PiiService \<Rightarrow> stamp \<Rightarrow> GuardrailInputs \<Rightarrow> TokenScope \<Rightarrow> 'c GuardrailState
   \<Rightarrow> (guardrail_error + GuardrailInputs) \<times> 'c GuardrailState" where
  "guardrail_decode ext self svc stamp inputs scope st =
     (let combined = combined_of inputs in
      case svc_decode svc combined scope ((gs_request st, gs_cache st), gs_draws st) of
        (answer, ((rd, c), k)) \<Rightarrow>
          (let st1 = st\<lparr>gs_request := rd, gs_cache := c, gs_draws := k\<rparr> in
           case answer of
             Inl err \<Rightarrow> (case guardrail_fail self stamp DECODE_TEXT err st1 of (e, st2) \<Rightarrow> (Inl e, st2))
           | Inr decoded_texts \<Rightarrow>
               (let tally = decode_tally combined decoded_texts;
                    capture = (if capture_enabled (ext_getenv ext)
                      then Some \<lparr>cap_before = combined, cap_after = decoded_texts, cap_placements = []\<rparr> else None)
                in (Inr (rebuild inputs decoded_texts True),
                    guardrail_record self stamp DECODE_TEXT Applied (tally_entity_counts tally) [] (tally_token_count tally)
                      (tally_resolved_count tally) False capture st1))))"

definition guardrail_encode ::
  "Externals \<Rightarrow> 'c PiiAnonymizerGuardrail \<Rightarrow> (RequestData \<times> 'c) PiiService \<Rightarrow> stamp \<Rightarrow> GuardrailInputs \<Rightarrow> TokenScope \<Rightarrow> 'c GuardrailState
   \<Rightarrow> (guardrail_error + GuardrailInputs) \<times> 'c GuardrailState" where
  "guardrail_encode ext self svc stamp inputs scope st =
     (let combined = combined_of inputs;
          lookup_action = action_for (g_actions self) (g_default_action self)
      in
      case svc_encode svc combined scope (g_language self) None (Some (is_reversible (g_actions self) (g_default_action self)))
             ((gs_request st, gs_cache st), gs_draws st) of
        (answer, ((rd, c), k)) \<Rightarrow>
          (let st1 = st\<lparr>gs_request := rd, gs_cache := c, gs_draws := k\<rparr> in
           case answer of
             Inl err \<Rightarrow> (case guardrail_fail self stamp ENCODE_TEXT err st1 of (e, st2) \<Rightarrow> (Inl e, st2))
           | Inr encoded \<Rightarrow>
               (let blocked = blocked_entities (concat (eb_spans_by_text encoded)) (g_actions self) in
                case capture_of (ext_getenv ext) combined (eb_texts encoded) (eb_placements encoded) lookup_action of
                  Inl err \<Rightarrow> (case guardrail_fail self stamp ENCODE_TEXT err st1 of (e, st2) \<Rightarrow> (Inl e, st2))
                | Inr capture \<Rightarrow>
                    (let st2 = guardrail_record self stamp ENCODE_TEXT (if blocked \<noteq> [] then Blocked (hd blocked) else Applied)
                           (entity_counts_of (eb_spans_by_text encoded)) (action_counts_of (eb_spans_by_text encoded) lookup_action)
                           (length (eb_tokens encoded)) 0 (eb_ner_stage_ran encoded) capture st1
                     in if blocked \<noteq> [] then (Inl (BlockedPiiEntity (hd blocked) (guardrail_name self)), st2)
                        else (Inr (rebuild inputs (eb_texts encoded) False), st2)))))"

datatype InputType = REQUEST_INPUT | RESPONSE_INPUT

definition apply_guardrail ::
  "Externals \<Rightarrow> 'c PiiAnonymizerGuardrail \<Rightarrow> stamp \<Rightarrow> GuardrailInputs \<Rightarrow> InputType \<Rightarrow> 'c GuardrailState
   \<Rightarrow> (guardrail_error + GuardrailInputs) \<times> 'c GuardrailState" where
  "apply_guardrail ext self stamp inputs input_type st =
     (if texts_of inputs = [] \<and> tool_calls_of inputs = [] then (Inr inputs, st)
      else
        (let direction = (if input_type = RESPONSE_INPUT then DECODE_TEXT else ENCODE_TEXT) in
         case guardrail_service ext self of
           None \<Rightarrow>
             (let reason = (if is_empty_str (g_unmet_requirement self) then ''no PII detector is configured''
                            else the (g_unmet_requirement self)) in
              if g_fail_closed self
              then (Inl (GuardrailRaised (guardrail_name self) (''PII anonymization is not available: '' @ reason)),
                    guardrail_record self stamp direction (Failed reason) [] [] 0 0 False None st)
              else (Inr inputs, guardrail_record self stamp direction (Unscanned reason) [] [] 0 0 False None st))
         | Some svc \<Rightarrow>
             (let st0 = st\<lparr>gs_request := prepared self (gs_request st)\<rparr>;
                  scope = guardrail_scope ext self (gs_request st0)
              in if input_type = RESPONSE_INPUT then guardrail_decode ext self svc stamp inputs scope st0
                 else guardrail_encode ext self svc stamp inputs scope st0)))"

section \<open>Settings\<close>

text \<open>An unknown policy raises \<open>ValueError\<close>. The label map is not among the fields that are passed on.\<close>

definition guardrail_settings ::
  "Externals \<Rightarrow> string option \<Rightarrow> string option \<Rightarrow> string option \<Rightarrow> rat option \<Rightarrow> bool option \<Rightarrow> string option \<Rightarrow> string + PiiSettings" where
  "guardrail_settings ext presidio_analyzer_api_base ner_api_base ner_stage_policy ner_score_threshold fail_closed language =
     (let base_settings = settings_from_env (ext_getenv ext) in
      case (if is_empty_str ner_stage_policy then Some (s_ner_stage_policy base_settings) else NerStagePolicy_of (the ner_stage_policy)) of
        None \<Rightarrow> Inl ''ValueError''
      | Some policy \<Rightarrow>
          Inr \<lparr>s_analyzer_api_base = (if is_empty_str presidio_analyzer_api_base then s_analyzer_api_base base_settings else presidio_analyzer_api_base),
            s_ner_api_base = (if is_empty_str ner_api_base then s_ner_api_base base_settings else ner_api_base),
            s_ner_stage_policy = policy,
            s_ner_score_threshold = (case ner_score_threshold of None \<Rightarrow> s_ner_score_threshold base_settings | Some s \<Rightarrow> s),
            s_session_ttl_seconds = s_session_ttl_seconds base_settings,
            s_fail_closed = (case fail_closed of None \<Rightarrow> s_fail_closed base_settings | Some b \<Rightarrow> b),
            s_require_ner = s_require_ner base_settings,
            s_language = (if is_empty_str language then s_language base_settings else the language),
            s_ner_max_chars = s_ner_max_chars base_settings,
            s_ner_label_map = DEFAULT_LABEL_MAP_NAME\<rparr>)"

definition build_guardrail_detector ::
  "Externals \<Rightarrow> string option \<Rightarrow> string option \<Rightarrow> string option \<Rightarrow> rat option \<Rightarrow> bool option \<Rightarrow> string option
   \<Rightarrow> string + CascadingDetector option" where
  "build_guardrail_detector ext presidio_analyzer_api_base ner_api_base ner_stage_policy ner_score_threshold fail_closed language =
     map_sum id (build_detector ext)
       (guardrail_settings ext presidio_analyzer_api_base ner_api_base ner_stage_policy ner_score_threshold fail_closed language)"

record GuardrailParams =
  gp_presidio_analyzer_api_base :: "string option"
  gp_pii_ner_api_base :: "string option"
  gp_pii_ner_stage_policy :: "string option"
  gp_pii_ner_score_threshold :: "rat option"
  gp_pii_fail_closed :: "bool option"
  gp_pii_language :: "string option"
  gp_pii_codec :: "CodecId option"
  gp_pii_entities_config :: "(string, string) dict option"
  gp_pii_mapping_scope :: "string option"

definition initialize_guardrail ::
  "Externals \<Rightarrow> 'c AsyncKeyValueCache option \<Rightarrow> GuardrailParams \<Rightarrow> string option \<Rightarrow> string + 'c PiiAnonymizerGuardrail" where
  "initialize_guardrail ext shared params name =
     (if is_empty_str name then Inl ''ValueError''
      else
        (case guardrail_settings ext (gp_presidio_analyzer_api_base params) (gp_pii_ner_api_base params)
                (gp_pii_ner_stage_policy params) (gp_pii_ner_score_threshold params) (gp_pii_fail_closed params) (gp_pii_language params) of
           Inl exc \<Rightarrow> Inl exc
         | Inr settings \<Rightarrow>
             new_guardrail ext shared name (build_detector ext settings)
               (case gp_pii_codec params of None \<Rightarrow> placeholder_id | Some c \<Rightarrow> c) (gp_pii_entities_config params) ''ENCODE''
               (gp_pii_mapping_scope params) None (s_fail_closed settings) (unmet_requirement settings) (s_language settings)))"

end
