(* ===== verification/Guardrail_Props.thy ===== *)
theory Guardrail_Props
  imports Guardrail
begin

text \<open>
  What the guardrail guarantees of a request: its round trip with the response, that no text leaves it unscanned, and that
  every call is on record. The request's own store, seen from the guardrail's state, keeps the contract of a durable
  store, so the round trip is that of the service's stack.
\<close>

definition bucket_ready :: "RequestData \<Rightarrow> bool" where
  "bucket_ready rd \<longleftrightarrow> rd_metadata rd \<noteq> None \<and> rd_bucket rd \<noteq> None"

lemma token_bucket_with [simp]: "token_bucket (with_bucket rd b) = b"
  by (simp add: token_bucket_def with_bucket_def)

lemma bucket_ready_with [simp]: "bucket_ready (with_bucket rd b)"
  by (simp add: bucket_ready_def with_bucket_def)

lemma with_bucket_same: "bucket_ready rd \<Longrightarrow> with_bucket rd (token_bucket rd) = rd"
  by (cases rd) (auto simp: bucket_ready_def with_bucket_def token_bucket_def metadata_of_def)

lemma with_bucket_ready [simp]: "bucket_ready rd \<Longrightarrow> metadata_of (with_bucket rd b) = metadata_of rd"
  by (simp add: with_bucket_def metadata_of_def)

interpretation guardrail_bucket: durable_token_store "st_put_many (on_request RequestScopedStore)" "st_get_many (on_request RequestScopedStore)"
  "\<lambda>_. True" "\<lambda>w sc. map_of (token_bucket (fst (fst w)))" "\<lambda>w. bucket_ready (fst (fst w))"
proof
  fix w :: "(RequestData \<times> 'c) \<times> draws" and sc es w'
  obtain rd c k where w: "w = ((rd, c), k)" by (metis surj_pair)
  obtain r b k' where p: "st_put_many RequestScopedStore sc es (token_bucket rd, k) = (r, (b, k'))" by (metis surj_pair)
  {
    assume "bucket_ready (fst (fst w))" "st_put_many (on_request RequestScopedStore) sc es w = (None, w')"
    with p w have w': "r = None" "w' = ((with_bucket rd b, c), k')" by (simp_all add: on_request_def)
    from request_store.put_sound [OF TrueI _ p [unfolded w'(1)]]
    show "bucket_ready (fst (fst w')) \<and>
      (\<forall>t v. map_of (token_bucket (fst (fst w'))) t = Some v \<longrightarrow> (t, v) \<in> set es \<or> map_of (token_bucket (fst (fst w))) t = Some v)"
      by (simp add: w w')
  next
    fix t v
    assume "bucket_ready (fst (fst w))" "distinct (map fst es)" "st_put_many (on_request RequestScopedStore) sc es w = (None, w')" "(t, v) \<in> set es"
    with p w have w': "r = None" "w' = ((with_bucket rd b, c), k')" by (simp_all add: on_request_def)
    from request_store.put_complete [OF TrueI \<open>distinct (map fst es)\<close> p [unfolded w'(1)] \<open>(t, v) \<in> set es\<close>]
    show "map_of (token_bucket (fst (fst w'))) t = Some v" by (simp add: w')
  next
    show "\<exists>w'. st_put_many (on_request RequestScopedStore) sc es w = (None, w')"
      using request_store.put_succeeds [OF TrueI, of sc es "(token_bucket rd, k)"] by (auto simp: w on_request_def)
  }
next
  fix w :: "(RequestData \<times> 'c) \<times> draws" and sc ts
  obtain rd c k where w: "w = ((rd, c), k)" by (metis surj_pair)
  {
    fix d w'
    assume "bucket_ready (fst (fst w))" "st_get_many (on_request RequestScopedStore) sc ts w = (Inr d, w')"
    moreover obtain r b k' where g: "st_get_many RequestScopedStore sc ts (token_bucket rd, k) = (r, (b, k'))" by (metis surj_pair)
    ultimately have w': "r = Inr d" "w' = ((with_bucket rd b, c), k')" by (simp_all add: w on_request_def)
    from request_store.get_sound [OF TrueI g [unfolded w'(1)]]
    show "bucket_ready (fst (fst w')) \<and> (\<forall>t v. map_of d t = Some v \<longrightarrow> t \<in> set ts \<and> map_of (token_bucket (fst (fst w))) t = Some v)"
      by (simp add: w w')
  next
    assume "bucket_ready (fst (fst w))"
    then show "\<exists>d. st_get_many (on_request RequestScopedStore) sc ts w = (Inr d, w) \<and> distinct (map fst d)
        \<and> (\<forall>t \<in> set ts. map_of d t = map_of (token_bucket (fst (fst w))) t)"
      using request_store.get_complete [OF TrueI, of sc ts "(token_bucket rd, k)"] by (auto simp: w on_request_def with_bucket_same)
  }
qed

interpretation guardrail_stack: pii_stack "ActionAwareCodec PlaceholderCodec actions dflt" "\<lambda>e. action_for actions dflt e \<noteq> MASK"
    "on_request RequestScopedStore" "\<lambda>_. True" "\<lambda>w sc. map_of (token_bucket (fst (fst w)))" "\<lambda>w. bucket_ready (fst (fst w))"
  for actions dflt
  by unfold_locales (simp_all add: ActionAwareCodec_def PlaceholderCodec_def)

section \<open>Tool calls\<close>

text \<open>A tool call that has an argument string.\<close>

fun has_arguments :: "pyobj \<Rightarrow> bool" where
  "has_arguments (PDict call) =
     (case obj_get call ''function'' of
        PDict fn \<Rightarrow> (case obj_get fn ''arguments'' of PStr a \<Rightarrow> True | _ \<Rightarrow> False)
      | _ \<Rightarrow> False)"
| "has_arguments _ = False"

lemma obj_get_update [simp]: "obj_get (dict_update d [(k, v)]) k = v"
  by (simp add: obj_get_def dict_update_def update_conv')

lemma dict_update_twice [simp]: "dict_update (dict_update d [(k, v)]) [(k, v')] = dict_update d [(k, v')]"
  by (simp add: dict_update_def)

lemma with_arguments_laws:
  assumes "has_arguments c"
  shows "arguments_of (with_arguments c a) = a" "with_arguments (with_arguments c a) b = with_arguments c b"
    "has_arguments (with_arguments c a)"
  using assms by (cases c; auto split: pyobj.splits)+

lemma map_arguments_of_rebuilt:
  assumes "\<forall>c \<in> set calls. has_arguments c" "length args = length calls"
  shows "map arguments_of (map2 with_arguments calls args) = args"
    "map2 with_arguments (map2 with_arguments calls args) args' = map2 with_arguments calls args'"
  using assms
proof (induction calls args arbitrary: args' rule: list_induct2')
  case (4 c cs a as)
  {
    case 1
    with 4 show ?case by (simp add: with_arguments_laws)
  next
    case 2
    with 4 show ?case by (cases args') (simp_all add: with_arguments_laws)
  }
qed simp_all

lemma rebuild_parts:
  assumes "length processed = length (combined_of inputs)"
  shows "texts_of (rebuild inputs processed h) = take (length (texts_of inputs)) processed"
    "tool_calls_of (rebuild inputs processed h) = map2 with_arguments (tool_calls_of inputs) (drop (length (texts_of inputs)) processed)"
  using assms by (auto simp: rebuild_def texts_of_def tool_calls_of_def Let_def split: option.splits)

lemma combined_of_rebuilt:
  assumes "length processed = length (combined_of inputs)" "\<forall>c \<in> set (tool_calls_of inputs). has_arguments c"
  shows "combined_of (rebuild inputs processed h) = processed"
proof -
  have "length (drop (length (texts_of inputs)) processed) = length (tool_calls_of inputs)"
    using assms(1) by (simp add: combined_of_def)
  from map_arguments_of_rebuilt(1) [OF assms(2) this] show ?thesis
    unfolding combined_of_def [of "rebuild inputs processed h"] rebuild_parts [OF assms(1)] by simp
qed

section \<open>Encoding and decoding a request\<close>

lemma svc_encode_spans:
  assumes "svc_encode svc texts sc lang ents is_rev w = (Inr batch, w')"
  shows "\<exists>ds. detect_many svc texts lang ents = Inr ds \<and> eb_spans_by_text batch = map result_spans ds"
  using assms by (auto simp: svc_encode_def svc_draft_def Let_def split: prod.splits sum.splits option.splits if_splits)

lemma svc_encode_length:
  assumes "svc_encode svc texts sc lang ents is_rev w = (Inr batch, w')"
  shows "length (eb_texts batch) = length texts"
proof -
  obtain dr k where "svc_draft svc texts lang ents is_rev (snd w) = (Inr dr, k)" "eb_texts batch = draft_texts (db_draft dr)"
    using assms by (auto simp: svc_encode_def split: prod.splits sum.splits option.splits)
  then show ?thesis by (auto simp: svc_draft_def Let_def length_draft_texts split: sum.splits prod.splits)
qed

lemma guardrail_encode_Inr:
  assumes "guardrail_encode ext self svc stamp inputs sc st = (Inr out, st')"
  obtains batch rd c k where
    "svc_encode svc (combined_of inputs) sc (g_language self) None (Some (is_reversible (g_actions self) (g_default_action self)))
       ((gs_request st, gs_cache st), gs_draws st) = (Inr batch, ((rd, c), k))"
    "blocked_entities (concat (eb_spans_by_text batch)) (g_actions self) = []"
    "out = rebuild inputs (eb_texts batch) False" "gs_request st' = rd" "gs_cache st' = c" "gs_draws st' = k"
  using assms by (auto simp: guardrail_encode_def guardrail_record_def Let_def split: prod.splits sum.splits if_splits)

lemma apply_guardrail_request:
  assumes "apply_guardrail ext self stamp inputs REQUEST_INPUT st = (Inr out, st')"
    and "texts_of inputs \<noteq> [] \<or> tool_calls_of inputs \<noteq> []" "g_detector self = Some det"
  shows "guardrail_encode ext self \<lparr>svc_detector = det, svc_codec = g_codec self, svc_store = guardrail_store ext self\<rparr> stamp inputs
    (guardrail_scope ext self (prepared self (gs_request st))) (st\<lparr>gs_request := prepared self (gs_request st)\<rparr>) = (Inr out, st')"
  using assms by (auto simp: apply_guardrail_def guardrail_service_def Let_def)

lemma request_scope_irrelevant:
  "st_get_many (on_request RequestScopedStore) sc = st_get_many (on_request RequestScopedStore) sc'"
  by (intro ext) (auto simp: on_request_def RequestScopedStore_def request_get_many_def)

lemma request_decode_scope:
  assumes "svc_store svc = on_request RequestScopedStore"
  shows "svc_decode svc texts sc w = svc_decode svc texts sc' w"
  unfolding svc_decode_def assms request_scope_irrelevant [of sc sc'] by (rule refl)

text \<open>What comes back for a text: its masked entities masked, everything else as it was.\<close>

definition restored_text :: "'c PiiAnonymizerGuardrail \<Rightarrow> CascadingDetector \<Rightarrow> string \<Rightarrow> string" where
  "restored_text self det t =
     (case cascade_detect det t (g_language self) None of
        Inl err \<Rightarrow> t
      | Inr r \<Rightarrow> replace_spans (\<lambda>sp. if is_reversible (g_actions self) (g_default_action self) sp then text_from sp t else mint_masked (entity_type sp))
          t 0 (result_spans r))"

definition no_backslash_before :: "'c PiiAnonymizerGuardrail \<Rightarrow> CascadingDetector \<Rightarrow> string \<Rightarrow> bool" where
  "no_backslash_before self det t =
     (case cascade_detect det t (g_language self) None of Inl err \<Rightarrow> True | Inr r \<Rightarrow> unescaped t (result_spans r))"

lemma request_then_decode:
  assumes svc: "svc = \<lparr>svc_detector = det, svc_codec = ActionAwareCodec PlaceholderCodec (g_actions self) (g_default_action self),
      svc_store = on_request RequestScopedStore\<rparr>"
    and "bucket_ready rd" "token_bucket rd = []"
    and enc: "svc_encode svc texts sc (g_language self) None (Some (is_reversible (g_actions self) (g_default_action self))) ((rd, c), k) = (Inr batch, w')"
    and ok: "\<forall>t \<in> set texts. detector_ok det t (g_language self) None \<and> no_backslash_before self det t"
  shows "svc_decode svc (eb_texts batch) sc w' = (Inr (map (restored_text self det) texts), w') \<and> bucket_ready (fst (fst w'))"
proof -
  obtain ds where ds: "detect_many svc texts (g_language self) None = Inr ds" and eb: "eb_spans_by_text batch = map result_spans ds"
    using svc_encode_spans [OF enc] by blast
  have d: "length ds = length texts" "\<forall>i < length texts. cascade_detect det (texts ! i) (g_language self) None = Inr (ds ! i)"
    using ds unfolding detect_many_Inr by (simp_all add: svc)
  have "\<forall>i < length texts. unescaped (texts ! i) (eb_spans_by_text batch ! i)"
    using ok d by (auto simp: eb no_backslash_before_def dest!: nth_mem split: sum.splits)
  then have "svc_decode svc (eb_texts batch) sc w' =
    (Inr (map2 (\<lambda>t spans. replace_spans (\<lambda>sp. if action_for (g_actions self) (g_default_action self) (entity_type sp) \<noteq> MASK then text_from sp t
       else mint_masked (entity_type sp)) t 0 spans) texts (eb_spans_by_text batch)), w')"
    using assms(2,3) ok by (intro guardrail_stack.stack_roundtrip [OF _ _ _ _ enc]) (simp_all add: svc is_reversible_def)
  moreover have "map2 (\<lambda>t spans. replace_spans (\<lambda>sp. if action_for (g_actions self) (g_default_action self) (entity_type sp) \<noteq> MASK then text_from sp t
       else mint_masked (entity_type sp)) t 0 spans) texts (eb_spans_by_text batch) = map (restored_text self det) texts"
    using d by (intro nth_equalityI) (simp_all add: eb restored_text_def is_reversible_def)
  moreover have "bucket_ready (fst (fst w'))"
    by (rule guardrail_stack.encode_stores [OF _ _ _ _ enc]) (use assms(2,3) in \<open>simp_all add: svc\<close>)
  ultimately show ?thesis by simp
qed

lemma prepared_request:
  "g_session_cache self = None \<Longrightarrow> prepared self rd = with_bucket rd (token_bucket rd)"
  by (simp add: prepared_def)

lemma apply_guardrail_response:
  assumes "g_detector self = Some det" "g_codec self = ActionAwareCodec PlaceholderCodec (g_actions self) (g_default_action self)"
    "g_session_cache self = None" "bucket_ready (gs_request st)"
    and svc: "svc = \<lparr>svc_detector = det, svc_codec = ActionAwareCodec PlaceholderCodec (g_actions self) (g_default_action self),
      svc_store = on_request RequestScopedStore\<rparr>"
    and dec: "svc_decode svc (combined_of inputs) sc ((gs_request st, gs_cache st), gs_draws st) = (Inr decoded_texts, w')"
    and ne: "texts_of inputs \<noteq> [] \<or> tool_calls_of inputs \<noteq> []"
  shows "\<exists>st'. apply_guardrail ext self stamp inputs RESPONSE_INPUT st = (Inr (rebuild inputs decoded_texts True), st')"
proof -
  have store: "guardrail_store ext self = on_request RequestScopedStore" using assms(3) by (simp add: guardrail_store_def)
  have same: "prepared self (gs_request st) = gs_request st" using assms(3,4) by (simp add: prepared_request with_bucket_same)
  let ?sc = "guardrail_scope ext self (gs_request st)"
  have "svc_decode svc (combined_of inputs) ?sc ((gs_request st, gs_cache st), gs_draws st) = (Inr decoded_texts, w')"
    using dec request_decode_scope [of svc "combined_of inputs" sc _ ?sc] by (simp add: svc)
  moreover obtain rd c k where "w' = ((rd, c), k)" by (metis surj_pair)
  ultimately show ?thesis
    using assms(1,2) ne by (auto simp: apply_guardrail_def guardrail_service_def guardrail_decode_def store same svc Let_def)
qed

text \<open>
  C20: The caller gets its own text back. When the guardrail lets a request through (placeholders, any
  per-entity actions, the request's own token map, empty at the start), then for a response that repeats what the
  provider was sent, the guardrail succeeds and answers every text and every tool call's arguments as the caller sent
  them, except that entities configured to be masked stay masks: one token space serves messages and
  tool calls, and no request reaches the provider in a form its response cannot be restored from. Detection stages report
  spans of the vocabulary inside the texts, no backslash directly precedes a detected value, and tool calls carry an argument string.
\<close>

theorem guardrail_roundtrip:
  assumes "g_detector self = Some det" "g_codec self = ActionAwareCodec PlaceholderCodec (g_actions self) (g_default_action self)"
    "g_session_cache self = None" "token_bucket (gs_request st) = []"
    and app: "apply_guardrail ext self stamp inputs REQUEST_INPUT st = (Inr out, st')"
    and calls: "\<forall>c \<in> set (tool_calls_of inputs). has_arguments c"
    and ok: "\<forall>t \<in> set (combined_of inputs). detector_ok det t (g_language self) None \<and> no_backslash_before self det t"
  shows "\<exists>returned st''. apply_guardrail ext self stamp' out RESPONSE_INPUT st' = (Inr returned, st'')
    \<and> texts_of returned = map (restored_text self det) (texts_of inputs)
    \<and> tool_calls_of returned = map (\<lambda>c. with_arguments c (restored_text self det (arguments_of c))) (tool_calls_of inputs)"
proof (cases "texts_of inputs = [] \<and> tool_calls_of inputs = []")
  case True
  with app show ?thesis by (auto simp: apply_guardrail_def)
next
  case False
  let ?svc = "\<lparr>svc_detector = det, svc_codec = ActionAwareCodec PlaceholderCodec (g_actions self) (g_default_action self),
      svc_store = on_request RequestScopedStore\<rparr>"
  let ?sc = "guardrail_scope ext self (prepared self (gs_request st))" and ?ts = "combined_of inputs" and ?n = "length (texts_of inputs)"
  have store: "guardrail_store ext self = on_request RequestScopedStore" using assms(3) by (simp add: guardrail_store_def)
  have enc: "guardrail_encode ext self ?svc stamp inputs ?sc (st\<lparr>gs_request := prepared self (gs_request st)\<rparr>) = (Inr out, st')"
    using apply_guardrail_request [OF app _ assms(1)] False by (simp add: assms(2) store)
  obtain batch rd c k where b: "svc_encode ?svc ?ts ?sc (g_language self) None (Some (is_reversible (g_actions self) (g_default_action self)))
      ((prepared self (gs_request st), gs_cache st), gs_draws st) = (Inr batch, ((rd, c), k))"
    "out = rebuild inputs (eb_texts batch) False" "gs_request st' = rd" "gs_cache st' = c" "gs_draws st' = k"
    by (rule guardrail_encode_Inr [OF enc]) simp
  have "bucket_ready (prepared self (gs_request st))" "token_bucket (prepared self (gs_request st)) = []"
    using assms(3,4) by (simp_all add: prepared_request)
  note dec = request_then_decode [OF refl this b(1) ok]
  have len: "length (eb_texts batch) = length ?ts" by (rule svc_encode_length [OF b(1)])
  note comb = combined_of_rebuilt [OF len calls, of False]
  let ?returned = "rebuild out (map (restored_text self det) ?ts) True"
  have "\<exists>st''. apply_guardrail ext self stamp' out RESPONSE_INPUT st' = (Inr ?returned, st'')"
  proof (rule apply_guardrail_response [OF assms(1-3) _ refl, where sc = ?sc])
    show "bucket_ready (gs_request st')" using dec by (simp add: b)
    show "svc_decode ?svc (combined_of out) ?sc ((gs_request st', gs_cache st'), gs_draws st') = (Inr (map (restored_text self det) ?ts), ((rd, c), k))"
      using dec comb by (simp add: b)
    have "combined_of out \<noteq> []" using comb len False by (auto simp: b(2) combined_of_def)
    then show "texts_of out \<noteq> [] \<or> tool_calls_of out \<noteq> []" by (auto simp: combined_of_def)
  qed
  moreover have out_parts: "texts_of out = take ?n (eb_texts batch)"
    "tool_calls_of out = map2 with_arguments (tool_calls_of inputs) (drop ?n (eb_texts batch))"
    unfolding b(2) by (rule rebuild_parts [OF len])+
  have lc: "length (map (restored_text self det) ?ts) = length (combined_of out)" using comb len by (simp add: b(2))
  have ln: "length (texts_of out) = ?n" using len by (simp add: out_parts combined_of_def)
  have "texts_of ?returned = map (restored_text self det) (texts_of inputs)"
    using rebuild_parts(1) [OF lc, of True] by (simp add: ln combined_of_def)
  moreover have "tool_calls_of ?returned = map2 with_arguments (tool_calls_of inputs) (map (restored_text self det) (map arguments_of (tool_calls_of inputs)))"
  proof -
    have "length (drop ?n (eb_texts batch)) = length (tool_calls_of inputs)" using len by (simp add: combined_of_def)
    note twice = map_arguments_of_rebuilt(2) [OF calls this]
    have "drop ?n (map (restored_text self det) ?ts) = map (restored_text self det) (map arguments_of (tool_calls_of inputs))"
      by (simp add: combined_of_def)
    then show ?thesis unfolding rebuild_parts(2) [OF lc] ln out_parts(2) twice by simp
  qed
  moreover have "map2 with_arguments cs (map f (map arguments_of cs)) = map (\<lambda>c. with_arguments c (f (arguments_of c))) cs" for cs and f :: "string \<Rightarrow> string"
    by (induction cs) simp_all
  ultimately show ?thesis by auto
qed

text \<open>A guardrail over a stage that sees one name, and a request with a tool call.\<close>

definition name_detector :: CascadingDetector where
  "name_detector =
     \<lparr>rules_stage = (\<lambda>t l e. Inr (if startswith t ''Bob'' then [\<lparr>entity_type = ''PERSON'', span_start = 0, span_end = 3, score = 1, detector = RULES\<rparr>] else [])),
      ner_stage = None, stage_policy = NEVER, low_confidence_threshold = 1 / 2, cascade_fail_closed = True\<rparr>"

definition sample_guardrail :: "unit PiiAnonymizerGuardrail" where
  "sample_guardrail =
     \<lparr>guardrail_name = Some ''pii'', g_detector = Some name_detector, g_fail_closed = True, g_unmet_requirement = None, g_language = ''en'',
      g_actions = [], g_default_action = ENCODE, g_codec = ActionAwareCodec PlaceholderCodec [] ENCODE, g_mapping_scope = REQUEST,
      g_session_cache = None\<rparr>"

definition sample_call :: "string \<Rightarrow> pyobj" where
  "sample_call a = PDict [(''id'', PStr ''c1''), (''function'', PDict [(''name'', PStr ''pay''), (''arguments'', PStr a)])]"

definition sample_inputs :: GuardrailInputs where
  "sample_inputs = \<lparr>in_texts = Some [''Bob paid''], in_tool_calls = Some [sample_call ''Bob''], in_stream_holdback_chars = None, in_other = []\<rparr>"

definition sample_state :: "unit GuardrailState" where
  "sample_state = \<lparr>gs_request = \<lparr>rd_fields = [], rd_metadata = None, rd_bucket = None\<rparr>, gs_cache = (), gs_draws = 0, gs_log = new_log 5\<rparr>"

definition sample_stamp :: stamp where "sample_stamp = ((''e'', 0), 1)"

lemma sample_request:
  "fst (apply_guardrail sample_externals sample_guardrail sample_stamp sample_inputs REQUEST_INPUT sample_state)
    = Inr \<lparr>in_texts = Some [''<PERSON_1> paid''], in_tool_calls = Some [sample_call ''<PERSON_1>''], in_stream_holdback_chars = None, in_other = []\<rparr>"
  by code_simp

lemma name_detector_cascade:
  "cascade_detect name_detector ''Bob paid'' lang None = Inr \<lparr>result_spans = [\<lparr>entity_type = ''PERSON'', span_start = 0, span_end = 3, score = 1, detector = RULES\<rparr>], ner_stage_ran = False\<rparr>"
  "cascade_detect name_detector ''Bob'' lang None = Inr \<lparr>result_spans = [\<lparr>entity_type = ''PERSON'', span_start = 0, span_end = 3, score = 1, detector = RULES\<rparr>], ner_stage_ran = False\<rparr>"
  by code_simp+

definition sample_sent :: GuardrailInputs where
  "sample_sent = \<lparr>in_texts = Some [''<PERSON_1> paid''], in_tool_calls = Some [sample_call ''<PERSON_1>''], in_stream_holdback_chars = None, in_other = []\<rparr>"

theorem guardrail_roundtrip_witness:
  "\<exists>st' returned st''. apply_guardrail sample_externals sample_guardrail sample_stamp sample_inputs REQUEST_INPUT sample_state = (Inr sample_sent, st')
    \<and> apply_guardrail sample_externals sample_guardrail sample_stamp sample_sent RESPONSE_INPUT st' = (Inr returned, st'')
    \<and> texts_of returned = [''Bob paid''] \<and> tool_calls_of returned = [sample_call ''Bob'']"
proof -
  let ?span = "\<lparr>entity_type = ''PERSON'', span_start = 0, span_end = 3, score = 1, detector = RULES\<rparr>"
  obtain st' where app: "apply_guardrail sample_externals sample_guardrail sample_stamp sample_inputs REQUEST_INPUT sample_state = (Inr sample_sent, st')"
    using sample_request by (metis prod.collapse sample_sent_def)
  have g: "g_detector sample_guardrail = Some name_detector" "g_session_cache sample_guardrail = None"
    "g_codec sample_guardrail = ActionAwareCodec PlaceholderCodec (g_actions sample_guardrail) (g_default_action sample_guardrail)"
    "token_bucket (gs_request sample_state) = []"
    by (simp_all add: sample_guardrail_def sample_state_def token_bucket_def)
  have calls: "tool_calls_of sample_inputs = [sample_call ''Bob'']" "texts_of sample_inputs = [''Bob paid'']"
    by (simp_all add: tool_calls_of_def texts_of_def sample_inputs_def)
  have call: "has_arguments (sample_call a)" "arguments_of (sample_call a) = a" "with_arguments (sample_call a) b = sample_call b" for a b
    by (simp_all add: sample_call_def obj_get_def dict_update_def)
  have voc: "''PERSON'' \<in> set ENTITY_VOCABULARY" by code_simp
  have ok: "\<forall>t \<in> set (combined_of sample_inputs). detector_ok name_detector t (g_language sample_guardrail) None
      \<and> no_backslash_before sample_guardrail name_detector t"
    using voc by (auto simp: combined_of_def calls call no_backslash_before_def name_detector_cascade unescaped_def)
       (auto simp: name_detector_def detector_ok_def stage_ok_def span_in_def)
  have cut: "text_from ?span ''Bob paid'' = ''Bob''" "text_from ?span ''Bob'' = ''Bob''"
    by (simp_all add: text_from_def py_slice_def py_index_def)
  have rest: "restored_text sample_guardrail name_detector ''Bob paid'' = ''Bob paid''" "restored_text sample_guardrail name_detector ''Bob'' = ''Bob''"
    by (simp_all add: restored_text_def name_detector_cascade is_reversible_def action_for_def sample_guardrail_def cut)
  show ?thesis
    using guardrail_roundtrip [OF g(1) g(3) g(2) g(4) app _ ok, of sample_stamp] app by (auto simp: calls call rest)
qed

section \<open>Nothing leaves unscanned\<close>

text \<open>
  C21: No text leaves the guardrail unscanned. When a guardrail that fails closed lets a request with content
  through, detection has answered for every text and every tool call's arguments, and no entity it found is configured
  to be blocked: a missing detector, a failing stage, a store that is down and a blocked entity all stop the request.
\<close>

theorem guardrail_lets_only_scanned_text_through:
  assumes "apply_guardrail ext self stamp inputs REQUEST_INPUT st = (Inr out, st')" "g_fail_closed self"
    and "texts_of inputs \<noteq> [] \<or> tool_calls_of inputs \<noteq> []"
  shows "\<exists>det. g_detector self = Some det \<and> (\<forall>t \<in> set (combined_of inputs). \<exists>r. cascade_detect det t (g_language self) None = Inr r
    \<and> (\<forall>sp \<in> set (result_spans r). map_of (g_actions self) (entity_type sp) \<noteq> Some BLOCK))"
proof (cases "g_detector self")
  case None
  with assms show ?thesis by (auto simp: apply_guardrail_def guardrail_service_def Let_def)
next
  case (Some det)
  let ?svc = "\<lparr>svc_detector = det, svc_codec = g_codec self, svc_store = guardrail_store ext self\<rparr>"
  obtain batch sc w w' where enc: "svc_encode ?svc (combined_of inputs) sc (g_language self) None
      (Some (is_reversible (g_actions self) (g_default_action self))) w = (Inr batch, w')"
    and b: "blocked_entities (concat (eb_spans_by_text batch)) (g_actions self) = []"
    by (rule guardrail_encode_Inr [OF apply_guardrail_request [OF assms(1,3) Some]]) blast
  obtain ds where ds: "detect_many ?svc (combined_of inputs) (g_language self) None = Inr ds" "eb_spans_by_text batch = map result_spans ds"
    using svc_encode_spans [OF enc] by blast
  have "\<exists>r. cascade_detect det t (g_language self) None = Inr r \<and> (\<forall>sp \<in> set (result_spans r). map_of (g_actions self) (entity_type sp) \<noteq> Some BLOCK)"
    if t: "t \<in> set (combined_of inputs)" for t
  proof -
    obtain i where i: "i < length (combined_of inputs)" "t = combined_of inputs ! i" using t by (auto simp: in_set_conv_nth)
    with ds(1) have r: "cascade_detect det t (g_language self) None = Inr (ds ! i)" "ds ! i \<in> set ds"
      by (auto simp: detect_many_Inr)
    have "set (blocked_entities (concat (eb_spans_by_text batch)) (g_actions self)) = {}" by (simp add: b)
    then have "map_of (g_actions self) (entity_type sp) \<noteq> Some BLOCK" if "sp \<in> set (result_spans (ds ! i))" for sp
      using r(2) that ds(2) by (auto simp: blocked_entities_def)
    with r(1) show ?thesis by blast
  qed
  with Some show ?thesis by blast
qed

theorem guardrail_lets_only_scanned_text_through_witness:
  "\<exists>r. cascade_detect name_detector ''Bob paid'' ''en'' None = Inr r \<and> (\<forall>sp \<in> set (result_spans r). map_of (g_actions sample_guardrail) (entity_type sp) \<noteq> Some BLOCK)"
proof -
  obtain st' where app: "apply_guardrail sample_externals sample_guardrail sample_stamp sample_inputs REQUEST_INPUT sample_state = (Inr sample_sent, st')"
    using sample_request by (metis prod.collapse sample_sent_def)
  have "g_fail_closed sample_guardrail" "texts_of sample_inputs \<noteq> [] \<or> tool_calls_of sample_inputs \<noteq> []" "g_detector sample_guardrail = Some name_detector"
    "''Bob paid'' \<in> set (combined_of sample_inputs)" "g_language sample_guardrail = ''en''"
    by (simp_all add: sample_guardrail_def texts_of_def sample_inputs_def combined_of_def)
  with guardrail_lets_only_scanned_text_through [OF app] show ?thesis by fastforce
qed

section \<open>Every call is on record\<close>

text \<open>What the event of a call says of its answer.\<close>

fun outcome_of :: "'c PiiAnonymizerGuardrail \<Rightarrow> guardrail_error + GuardrailInputs \<Rightarrow> PiiOutcome \<Rightarrow> bool" where
  "outcome_of self (Inr out) e = (if g_detector self = None then \<exists>reason. e = Unscanned reason else e = Applied)"
| "outcome_of self (Inl (BlockedPiiEntity ety name)) e = (e = Blocked ety)"
| "outcome_of self (Inl (GuardrailRaised name message)) e = (\<exists>reason. e = Failed reason)"
| "outcome_of self (Inl (Escaped exc)) e = False"

lemma guardrail_fail_record:
  assumes "guardrail_fail self stamp direction err st = (e, st')" "\<forall>exc. e \<noteq> Escaped exc"
  shows "\<exists>ev. gs_log st' = record_event ev (gs_log st) \<and> outcome_of self (Inl e) (ev_outcome ev) \<and> ev_capture ev = None"
  using assms by (cases err) (auto simp: guardrail_fail_def guardrail_record_def new_event_def Let_def)

text \<open>
  C22: Every call that had content is on record, and the record carries no text unless capture is switched on.
  Whatever the guardrail answers for a request or a response (the text, a refusal, a block), unless an exception
  escaped it, exactly one event was added to the activity log, whose outcome says which it was: text that went out unscanned is never
  recorded as applied.
\<close>

theorem guardrail_on_record:
  assumes "apply_guardrail ext self stamp inputs input_type st = (r, st')"
    and "texts_of inputs \<noteq> [] \<or> tool_calls_of inputs \<noteq> []" "\<forall>exc. r \<noteq> Inl (Escaped exc)"
  shows "\<exists>ev. gs_log st' = record_event ev (gs_log st) \<and> outcome_of self r (ev_outcome ev)
    \<and> (capture_enabled (ext_getenv ext) \<or> ev_capture ev = None)"
proof (cases "g_detector self")
  case None
  then show ?thesis using assms
    by (auto simp: apply_guardrail_def guardrail_service_def guardrail_record_def new_event_def Let_def split: if_splits)
next
  case (Some det)
  let ?svc = "\<lparr>svc_detector = det, svc_codec = g_codec self, svc_store = guardrail_store ext self\<rparr>"
  let ?st0 = "st\<lparr>gs_request := prepared self (gs_request st)\<rparr>" and ?sc = "guardrail_scope ext self (prepared self (gs_request st))"
  have log0: "gs_log ?st0 = gs_log st" by simp
  show ?thesis
  proof (cases input_type)
    case REQUEST_INPUT
    then have "guardrail_encode ext self ?svc stamp inputs ?sc ?st0 = (r, st')"
      using assms(1,2) Some by (auto simp: apply_guardrail_def guardrail_service_def Let_def)
    then show ?thesis
      using assms(3) Some
      by (fastforce simp: guardrail_encode_def guardrail_record_def new_event_def Let_def capture_of_def
          split: prod.splits sum.splits if_splits dest!: guardrail_fail_record)
  next
    case RESPONSE_INPUT
    then have "guardrail_decode ext self ?svc stamp inputs ?sc ?st0 = (r, st')"
      using assms(1,2) Some by (auto simp: apply_guardrail_def guardrail_service_def Let_def)
    then show ?thesis
      using assms(3) Some
      by (fastforce simp: guardrail_decode_def guardrail_record_def new_event_def Let_def
          split: prod.splits sum.splits if_splits dest!: guardrail_fail_record)
  qed
qed

theorem guardrail_on_record_witness:
  "\<exists>st' ev. apply_guardrail sample_externals sample_guardrail sample_stamp sample_inputs REQUEST_INPUT sample_state = (Inr sample_sent, st')
    \<and> gs_log st' = record_event ev (gs_log sample_state) \<and> ev_outcome ev = Applied \<and> ev_capture ev = None"
proof -
  obtain st' where app: "apply_guardrail sample_externals sample_guardrail sample_stamp sample_inputs REQUEST_INPUT sample_state = (Inr sample_sent, st')"
    using sample_request by (metis prod.collapse sample_sent_def)
  have "\<not> capture_enabled (ext_getenv sample_externals)"
    by (simp add: capture_enabled_def str_to_bool_def sample_externals_def ENV_CAPTURE_TEXT_def ENV_ANALYZER_API_BASE_def ENV_NER_API_BASE_def)
  moreover have "texts_of sample_inputs \<noteq> []" "g_detector sample_guardrail \<noteq> None"
    by (simp_all add: texts_of_def sample_inputs_def sample_guardrail_def)
  ultimately show ?thesis using guardrail_on_record [OF app] app by auto
qed

text \<open>The label map of the environment is the service's, and not the guardrail's.\<close>

lemma guardrail_ignores_label_map:
  "guardrail_settings ext a n pol t f l = Inr s \<Longrightarrow> s_ner_label_map s = DEFAULT_LABEL_MAP_NAME"
  "s_ner_label_map (settings_from_env (ext_getenv ext)) = getenv_or (ext_getenv ext) ENV_NER_LABEL_MAP DEFAULT_LABEL_MAP_NAME"
  by (auto simp: guardrail_settings_def settings_from_env_def Let_def split: option.splits)

end
