(* ===== verification/Guardrail_Streaming.thy ===== *)
theory Guardrail_Streaming
  imports Streaming_Settled Guardrail_Props Grammar_Holdback
begin

text \<open>
  The PII guardrail under the streaming framework: its decode of accumulated text, with the grammar's holdback, keeps the contract
  of a settling guardrail, so a streamed response reaches the client as a whole one would. The state is that of the
  guardrail with the number of calls so far, which tells the calls' time stamps apart.
\<close>

section \<open>The guardrail as the framework calls it\<close>

fun stream_exn_of :: "guardrail_error \<Rightarrow> stream_exn" where
  "stream_exn_of (GuardrailRaised name message) = OtherException ''GuardrailRaisedException''"
| "stream_exn_of (BlockedPiiEntity ety name) = OtherException ''BlockedPiiEntityError''"
| "stream_exn_of (Escaped exc) = OtherException exc"

definition streaming_inputs :: "string list \<Rightarrow> string option \<Rightarrow> GuardrailInputs" where
  "streaming_inputs texts model = \<lparr>in_texts = Some texts, in_tool_calls = None, in_stream_holdback_chars = None,
     in_other = (case model of None \<Rightarrow> [] | Some m \<Rightarrow> [(''model'', PStr m)])\<rparr>"

text \<open>
  \<open>add_fields\<close> stands for what the handler puts in the request (the responses and the caller's metadata, under keys
  of their own), \<open>inspect\<close> for the block-only inspection of an assembled response with tool calls.
\<close>

definition streaming_guardrail ::
  "Externals \<Rightarrow> 'c PiiAnonymizerGuardrail \<Rightarrow> (nat \<Rightarrow> stamp) \<Rightarrow> (StreamChunk list \<Rightarrow> (string, pyobj) dict \<Rightarrow> (string, pyobj) dict)
   \<Rightarrow> (StreamChunk list \<Rightarrow> 'c GuardrailState \<times> nat \<Rightarrow> stream_exn option \<times> ('c GuardrailState \<times> nat))
   \<Rightarrow> ('c GuardrailState \<times> nat) StreamGuardrail" where
  "streaming_guardrail ext self stamps add_fields inspect =
     \<lparr>sg_prepare = (\<lambda>rs (st, n). (st\<lparr>gs_request := (gs_request st)\<lparr>rd_fields := add_fields rs (rd_fields (gs_request st))\<rparr>\<rparr>, n)),
      sg_apply = (\<lambda>texts model (st, n).
        case apply_guardrail ext self (stamps n) (streaming_inputs texts model) RESPONSE_INPUT st of
          (Inl err, st') \<Rightarrow> (Inl (stream_exn_of err), (st', Suc n))
        | (Inr out, st') \<Rightarrow>
            (Inr \<lparr>answer_texts = in_texts out,
               answer_holdback = map_option (map (\<lambda>n. PInt (int n))) (in_stream_holdback_chars out)\<rparr>, (st', Suc n))),
      sg_inspect = inspect\<rparr>"

section \<open>Decoded text settles\<close>

text \<open>
  The text does not end in a backslash, and its last opening bracket, while still open, is not older than the longest token.
\<close>

definition settled_reply :: "string \<Rightarrow> bool" where
  "settled_reply t \<longleftrightarrow> (t = [] \<or> last t \<noteq> backslash) \<and>
     (case rfind t ''<'' 0 (length t) of None \<Rightarrow> True
      | Some i \<Rightarrow> CHR ''>'' \<in> set (drop i t) \<or> length t - i < MAX_TOKEN_LENGTH)"

lemma rfind_last:
  assumes "c \<notin> set v"
  shows "rfind (u @ c # v) [c] 0 (length (u @ c # v)) = Some (length u)"
proof (cases "rfind (u @ c # v) [c] 0 (length (u @ c # v))")
  case None
  from rfind_char(1) [OF None] show ?thesis by simp
next
  case (Some i)
  note r = rfind_char(2) [OF Some]
  have "length u = i"
  proof (rule ccontr)
    assume ne: "length u \<noteq> i"
    then consider "i < length u" | "length u < i" by linarith
    then show False
    proof cases
      case 1
      then have "c \<in> set (drop (Suc i) (u @ c # v))" by simp
      with r show False by blast
    next
      case 2
      have "(u @ c # v) ! i = c" using r by (metis nth_append_length length_take min.absorb4)
      with 2 have "v ! (i - Suc (length u)) = c" by (simp add: nth_append)
      moreover have "i < length (u @ c # v)" using r by blast
      then have "i - Suc (length u) < length v" using 2 by simp
      ultimately show False using assms by auto
    qed
  qed
  with Some show ?thesis by simp
qed

lemma holdback_chars_open:
  assumes "CHR ''<'' \<notin> set v" "CHR ''>'' \<notin> set v" "length v + 2 \<le> MAX_TOKEN_LENGTH"
  shows "holdback_chars (u @ CHR ''<'' # v) = (if u \<noteq> [] \<and> last u = backslash then length v + 2 else length v + 1)"
proof -
  have e: "(u @ CHR ''<'' # v) ! (length u - 1) = last u" if "u \<noteq> []" using that by (simp add: nth_append last_conv_nth)
  show ?thesis
  proof (cases "u = []")
    case True
    with assms rfind_last [OF assms(1), of u] show ?thesis by (simp add: holdback_chars_def)
  next
    case False
    then obtain m where "length u = Suc m" by (cases u) auto
    with assms rfind_last [OF assms(1), of u] e [OF False] False show ?thesis by (auto simp: holdback_chars_def Let_def)
  qed
qed

lemma scan_without_close:
  assumes "CHR ''>'' \<notin> set s"
  shows "render f (scan pos s) = s"
  using assms
proof (induction s arbitrary: pos)
  case (Cons c s)
  have "TOLERANT_PATTERN (c # s) = None"
  proof (rule ccontr)
    assume "TOLERANT_PATTERN (c # s) \<noteq> None"
    then obtain t k d r where "TOLERANT_PATTERN (c # s) = Some (t, (k, d), r)" by auto
    from TOLERANT_PATTERN_shape(1) [OF this] obtain w body where "c # s = w @ CHR ''<'' # body @ CHR ''>'' # r" by blast
    then have "CHR ''>'' \<in> set (c # s)" by simp
    with Cons.prems show False by blast
  qed
  then have "found pos (c # s) = None" by (simp add: found_None)
  with Cons show ?case by simp
qed simp

lemma decode_splits:
  assumes "settled_reply t" "n = length t - holdback_chars t"
  shows "decode_text (t @ x) b = decode_text (take n t) b @ decode_text (drop n t @ x) b"
proof -
  have sub: "decode_text s b = substitute s (\<lambda>t. (\<lambda>ft c. case map_of b c of None \<Rightarrow> ft | Some v \<Rightarrow> v) (found_text t) (canonical t))" for s
    by (simp add: decode_render substitute_def restored_def [abs_def])
  show ?thesis unfolding sub
  proof (rule holdback_substitute [OF _ _ assms(2)])
    show "t = [] \<or> last t \<noteq> backslash" using assms(1) by (simp add: settled_reply_def)
    fix u v assume "t = u @ CHR ''<'' # v" "CHR ''<'' \<notin> set v" "CHR ''>'' \<notin> set v"
    with assms(1) rfind_last [of "CHR ''<''" v u] show "length v + 2 \<le> MAX_TOKEN_LENGTH" by (simp add: settled_reply_def)
  qed
qed

lemma decoded_reply_settles:
  assumes "settled_reply t"
  shows "prefix (take (length (decode_text t b) - holdback_chars (decode_text t b)) (decode_text t b)) (decode_text (t @ x) b)"
proof -
  let ?f = "\<lambda>s. decode_text s b" and ?n = "length t - holdback_chars t"
  have fx: "?f (t @ x) = ?f (take ?n t) @ ?f (drop ?n t @ x)" and f0: "?f t = ?f (take ?n t) @ ?f (drop ?n t)"
    using decode_splits [OF assms refl, of _ b] decode_splits [OF assms refl, of "[]" b] by simp_all
  have "prefix (?f t) (?f (t @ x)) \<or> length (?f t) - holdback_chars (?f t) \<le> length (?f (take ?n t))"
  proof (cases "rfind t ''<'' 0 (length t)")
    case None
    then have "holdback_chars t = 0" by (simp add: holdback_chars_def)
    with fx show ?thesis by simp
  next
    case (Some i)
    note i = rfind_char(2) [OF Some]
    define u v where "u = take i t" and "v = drop (Suc i) t"
    have t: "t = u @ CHR ''<'' # v" and v: "CHR ''<'' \<notin> set v" and lu: "length u = i" using i by (auto simp: u_def v_def)
    have d: "drop i t = CHR ''<'' # v" using t lu by (metis append_eq_conv_conj)
    show ?thesis
    proof (cases "CHR ''>'' \<in> set v")
      case True
      with Some d have "holdback_chars t = 0" by (simp add: holdback_chars_def)
      with fx show ?thesis by simp
    next
      case False
      have fit: "length v + 2 \<le> MAX_TOKEN_LENGTH"
        using assms Some d False t lu by (auto simp: settled_reply_def)
      note h = holdback_chars_open [OF v False fit]
      have tail: "\<exists>w. drop ?n t = w @ CHR ''<'' # v \<and> (w = [] \<or> w = [backslash])"
      proof (cases "u \<noteq> [] \<and> last u = backslash")
        case True
        then have u: "u = butlast u @ [backslash]" by (metis append_butlast_last_id)
        have "holdback_chars t = length v + 2" using h [of u] True t by simp
        then have "drop ?n t = backslash # CHR ''<'' # v"
          using t u by (metis (no_types, lifting) append.assoc append_Cons append_Nil append_eq_conv_conj diff_add_inverse2 length_Cons length_append add_Suc_right numeral_2_eq_2 add.right_neutral)
        then show ?thesis by auto
      next
        case False
        then have "holdback_chars t = length v + 1" using h [of u] t by auto
        with t have "drop ?n t = CHR ''<'' # v" by simp
        then show ?thesis by auto
      qed
      then obtain w where w: "drop ?n t = w @ CHR ''<'' # v" "w = [] \<or> w = [backslash]" by blast
      have "CHR ''>'' \<notin> set (drop ?n t)" using w False by auto
      then have "?f (drop ?n t) = w @ CHR ''<'' # v" by (simp add: decode_render scan_without_close w(1))
      with f0 have f0': "?f t = (?f (take ?n t) @ w) @ CHR ''<'' # v" by simp
      have "length w + length v + 1 \<le> holdback_chars (?f t)"
        using h [of "?f (take ?n t) @ w"] w(2) unfolding f0' by auto
      then show ?thesis using f0' by auto
    qed
  qed
  then show ?thesis
  proof
    assume "prefix (?f t) (?f (t @ x))"
    then show ?thesis by (meson prefix_order.trans take_is_prefix)
  next
    assume "length (?f t) - holdback_chars (?f t) \<le> length (?f (take ?n t))"
    then have "take (length (?f t) - holdback_chars (?f t)) (?f t) = take (length (?f t) - holdback_chars (?f t)) (?f (take ?n t))"
      by (subst (3) f0) simp
    then show ?thesis unfolding fx by (metis append_take_drop_id append.assoc prefixI)
  qed
qed

section \<open>The guardrail keeps the contract\<close>

definition placeholder_guardrail ::
  "string option \<Rightarrow> CascadingDetector \<Rightarrow> bool \<Rightarrow> string option \<Rightarrow> string \<Rightarrow> (string, SpanAction) dict \<Rightarrow> SpanAction \<Rightarrow> MappingScope
   \<Rightarrow> 'c PiiAnonymizerGuardrail" where
  "placeholder_guardrail name det strict unmet lang actions dflt scope =
     \<lparr>guardrail_name = name, g_detector = Some det, g_fail_closed = strict, g_unmet_requirement = unmet, g_language = lang,
      g_actions = actions, g_default_action = dflt, g_codec = ActionAwareCodec PlaceholderCodec actions dflt,
      g_mapping_scope = scope, g_session_cache = None\<rparr>"

lemma apply_guardrail_whole:
  fixes self :: "'c PiiAnonymizerGuardrail"
  assumes "self = placeholder_guardrail name det strict unmet lang actions dflt scope"
    and "bucket_ready (gs_request st)" "token_bucket (gs_request st) = b" "texts \<noteq> []"
  shows "\<exists>st'. apply_guardrail ext self stamp (streaming_inputs texts model) RESPONSE_INPUT st =
      (Inr (rebuild (streaming_inputs texts model) (map (\<lambda>t. decode_text t b) texts) True), st') \<and> gs_request st' = gs_request st"
proof -
  let ?svc = "\<lparr>svc_detector = det, svc_codec = ActionAwareCodec PlaceholderCodec actions dflt, svc_store = on_request RequestScopedStore\<rparr>
      :: (RequestData \<times> 'c) PiiService"
  let ?w = "((gs_request st, gs_cache st), gs_draws st)"
  have comb: "combined_of (streaming_inputs texts model) = texts"
    by (simp add: combined_of_def streaming_inputs_def texts_of_def tool_calls_of_def)
  have dec: "svc_decode ?svc texts sc ?w = (Inr (map (\<lambda>t. decode_text t b) texts), ?w)" for sc
    using assms(2,3) by (intro guardrail_stack.decode_resolves) simp_all
  have same: "prepared self (gs_request st) = gs_request st"
    using assms(1,2) by (simp add: prepared_def placeholder_guardrail_def with_bucket_same)
  have "texts_of (streaming_inputs texts model) \<noteq> []" using assms(4) by (simp add: streaming_inputs_def texts_of_def)
  with same dec comb show ?thesis
    by (simp add: apply_guardrail_def guardrail_service_def guardrail_store_def guardrail_decode_def guardrail_record_def Let_def
      assms(1) placeholder_guardrail_def)
qed

interpretation pii_stream: settling_guardrail
  "streaming_guardrail ext (placeholder_guardrail name det strict unmet lang actions dflt scope) stamps add_fields inspect"
  "\<lambda>(st, n). bucket_ready (gs_request st) \<and> token_bucket (gs_request st) = b" "\<lambda>t. decode_text t b"
  "\<lambda>t. holdback_chars (decode_text t b)" settled_reply
  for ext name det strict unmet lang actions dflt scope stamps add_fields inspect b
proof
  fix s :: "'a GuardrailState \<times> nat" and rs :: "StreamChunk list"
  assume "case s of (st, n) \<Rightarrow> bucket_ready (gs_request st) \<and> token_bucket (gs_request st) = b"
  then show "case sg_prepare (streaming_guardrail ext (placeholder_guardrail name det strict unmet lang actions dflt scope) stamps add_fields inspect) rs s of
      (st, n) \<Rightarrow> bucket_ready (gs_request st) \<and> token_bucket (gs_request st) = b"
    by (auto simp: streaming_guardrail_def bucket_ready_def token_bucket_def split: prod.splits)
next
  fix s :: "'a GuardrailState \<times> nat" and ts :: "string list" and m :: "string option"
  assume inv: "case s of (st, n) \<Rightarrow> bucket_ready (gs_request st) \<and> token_bucket (gs_request st) = b" and ne: "ts \<noteq> []"
  obtain st n where s: "s = (st, n)" by fastforce
  obtain st' where "apply_guardrail ext (placeholder_guardrail name det strict unmet lang actions dflt scope) (stamps n) (streaming_inputs ts m) RESPONSE_INPUT st =
      (Inr (rebuild (streaming_inputs ts m) (map (\<lambda>t. decode_text t b) ts) True), st')" "gs_request st' = gs_request st"
    using apply_guardrail_whole [OF refl, of st b ts ext name det strict unmet lang actions dflt scope "stamps n" m] inv ne by (auto simp: s)
  then show "\<exists>s'. sg_apply (streaming_guardrail ext (placeholder_guardrail name det strict unmet lang actions dflt scope) stamps add_fields inspect) ts m s =
      (Inr \<lparr>answer_texts = Some (map (\<lambda>t. decode_text t b) ts),
         answer_holdback = Some (map (\<lambda>t. PInt (int (holdback_chars (decode_text t b)))) ts)\<rparr>, s') \<and>
      (case s' of (st, n) \<Rightarrow> bucket_ready (gs_request st) \<and> token_bucket (gs_request st) = b)"
    using inv by (simp add: s streaming_guardrail_def rebuild_def streaming_inputs_def texts_of_def Let_def comp_def)
qed (simp_all add: decoded_reply_settles, simp add: decode_render)

text \<open>The inspection lets a response pass and leaves the request's tokens alone.\<close>

definition inspection_passes ::
  "(StreamChunk list \<Rightarrow> 'c GuardrailState \<times> nat \<Rightarrow> stream_exn option \<times> ('c GuardrailState \<times> nat)) \<Rightarrow> bool" where
  "inspection_passes inspect \<longleftrightarrow> (\<forall>rs st n. \<exists>st' n'. inspect rs (st, n) = (None, (st', n')) \<and> gs_request st' = gs_request st)"

text \<open>
  C0: A streamed response reads as a whole one. With placeholders and the request's own token map, for any chunks of any choices and any
  sampling, the stream ends without an error, and what the client has read of each choice is exactly the text the
  guardrail answers when it is given the whole response of that choice at once: no token is cut in two, sent
  undecoded, sent twice or dropped, although the framework can take back nothing it has sent. No chunk boundary falls right after a
  backslash or inside a bracket left open for longer than a token, and the inspection of tool calls lets the response pass.
\<close>

theorem guardrail_streams_whole_response:
  fixes self :: "'c PiiAnonymizerGuardrail"
  assumes "g_detector self = Some det" "g_codec self = ActionAwareCodec PlaceholderCodec (g_actions self) (g_default_action self)"
    "g_session_cache self = None" "bucket_ready (gs_request st)"
    and "end_of_stream_only cfg \<or> sampling_rate cfg \<noteq> 0" "inspection_passes inspect"
    and "\<forall>i n. settled_reply (streamed_text i (take n items))" "choices \<noteq> []"
  shows "\<exists>r out st'. run_incremental_transform_stream cfg (streaming_guardrail ext self stamps add_fields inspect) items (st, k) = (r, None)
    \<and> apply_guardrail ext self stamp (streaming_inputs (map (\<lambda>i. streamed_text i items) choices) model) RESPONSE_INPUT st = (Inr out, st')
    \<and> in_texts out = Some (map (\<lambda>i. streamed_text i (responses_yielded r)) choices)"
proof -
  let ?b = "token_bucket (gs_request st)"
  obtain name strict unmet lang actions dflt scope where self: "self = placeholder_guardrail name det strict unmet lang actions dflt scope"
    using assms(1-3) by (cases self) (simp add: placeholder_guardrail_def)
  have passes: "\<forall>rs s. (case s of (st, n) \<Rightarrow> bucket_ready (gs_request st) \<and> token_bucket (gs_request st) = ?b) \<longrightarrow>
    (\<exists>s'. sg_inspect (streaming_guardrail ext self stamps add_fields inspect) rs s = (None, s') \<and>
      (case s' of (st, n) \<Rightarrow> bucket_ready (gs_request st) \<and> token_bucket (gs_request st) = ?b))"
    using assms(6) by (fastforce simp: inspection_passes_def streaming_guardrail_def)
  have "case (st, k) of (st, n) \<Rightarrow> bucket_ready (gs_request st) \<and> token_bucket (gs_request st) = ?b" using assms(4) by simp
  from pii_stream.streams_rewritten_text [OF this assms(5,7), of ext name det strict unmet lang actions dflt scope stamps add_fields inspect] passes
  obtain r where r: "run_incremental_transform_stream cfg (streaming_guardrail ext self stamps add_fields inspect) items (st, k) = (r, None)"
    "\<And>i. streamed_text i (responses_yielded r) = decode_text (streamed_text i items) ?b" unfolding self by blast
  obtain st' where "apply_guardrail ext self stamp (streaming_inputs (map (\<lambda>i. streamed_text i items) choices) model) RESPONSE_INPUT st =
      (Inr (rebuild (streaming_inputs (map (\<lambda>i. streamed_text i items) choices) model)
         (map (\<lambda>t. decode_text t ?b) (map (\<lambda>i. streamed_text i items) choices)) True), st')"
    using apply_guardrail_whole [OF self assms(4) refl] assms(8) by (metis Nil_is_map_conv)
  with r show ?thesis by (simp add: rebuild_def streaming_inputs_def texts_of_def Let_def comp_def)
qed

section \<open>A stream\<close>

definition text_chunk :: "string \<Rightarrow> StreamChunk" where
  "text_chunk t = \<lparr>chunk_id = ''c'', chunk_created = 0, chunk_model = None,
     chunk_choices = [\<lparr>choice_index = 0, delta_content = PStr t, delta_role = None, delta_tool_calls = PNone, choice_finish_reason = None\<rparr>]\<rparr>"

lemma streamed_text_chunk: "streamed_text i [text_chunk t] = (if i = 0 then t else [])"
  by (simp add: streamed_text_def text_chunk_def delta_text_def)

lemma streamed_Cons: "streamed_text i (c # cs) = streamed_text i [c] @ streamed_text i cs"
  by (simp add: streamed_text_def)

definition encoded_state :: "unit GuardrailState" where
  "encoded_state = sample_state\<lparr>gs_request := with_bucket (gs_request sample_state) [(''<PERSON_1>'', ''Bob'')]\<rparr>"

definition sample_stream_guardrail :: "(unit GuardrailState \<times> nat) StreamGuardrail" where
  "sample_stream_guardrail = streaming_guardrail sample_externals sample_guardrail (\<lambda>n. sample_stamp) (\<lambda>rs fields. fields) (\<lambda>rs s. (None, s))"

definition sample_config :: StreamingConfig where
  "sample_config = \<lparr>sampling_rate = 1, end_of_stream_only = False\<rparr>"

theorem guardrail_streams_whole_response_witness:
  "\<exists>r out st'. run_incremental_transform_stream sample_config sample_stream_guardrail [text_chunk ''Hi <PER'', text_chunk ''SON_1> ok''] (encoded_state, 0) = (r, None)
    \<and> apply_guardrail sample_externals sample_guardrail sample_stamp (streaming_inputs [''Hi <PERSON_1> ok''] None) RESPONSE_INPUT encoded_state = (Inr out, st')
    \<and> in_texts out = Some [streamed_text 0 (responses_yielded r)]"
proof -
  let ?items = "[text_chunk ''Hi <PER'', text_chunk ''SON_1> ok'']"
  have g: "g_detector sample_guardrail = Some name_detector" "g_session_cache sample_guardrail = None"
    "g_codec sample_guardrail = ActionAwareCodec PlaceholderCodec (g_actions sample_guardrail) (g_default_action sample_guardrail)"
    by (simp_all add: sample_guardrail_def)
  have b: "bucket_ready (gs_request encoded_state)" by (simp add: encoded_state_def)
  have i: "inspection_passes (\<lambda>rs s :: unit GuardrailState \<times> nat. (None, s))" by (simp add: inspection_passes_def)
  have "streamed_text i (take n ?items) \<in> {[], ''Hi <PER'', ''Hi <PER'' @ ''SON_1> ok''}" for i n
  proof -
    have "take n ?items \<in> {[], [text_chunk ''Hi <PER''], ?items}" by (auto simp: take_Cons split: nat.split)
    then consider "take n ?items = []" | "take n ?items = [text_chunk ''Hi <PER'']" | "take n ?items = ?items" by blast
    then show ?thesis
    proof cases
      case 2
      then show ?thesis by (simp add: streamed_text_chunk)
    next
      case 3
      then show ?thesis by (cases "i = 0") (simp_all only: streamed_text_chunk streamed_Cons [of _ _ "[c]" for c] append_Nil insert_iff simp_thms if_True if_False)
    qed simp
  qed
  moreover have "settled_reply []" by (simp add: settled_reply_def rfind_def)
  moreover have "rfind ''Hi <PER'' ''<'' 0 (length ''Hi <PER'') = Some 3" by code_simp
  then have "settled_reply ''Hi <PER''" using MAX_TOKEN_LENGTH_ge by (simp add: settled_reply_def)
  moreover have "settled_reply (''Hi <PER'' @ ''SON_1> ok'')" by code_simp
  ultimately have s: "\<forall>i n. settled_reply (streamed_text i (take n ?items))" by (metis empty_iff insert_iff)
  have whole: "streamed_text 0 ?items = ''Hi <PERSON_1> ok''" by code_simp
  have c: "end_of_stream_only sample_config \<or> sampling_rate sample_config \<noteq> 0" by (simp add: sample_config_def)
  from guardrail_streams_whole_response [OF g(1,3,2) b c i s, of "[0]" sample_externals "\<lambda>n. sample_stamp" "\<lambda>rs fields. fields" 0 sample_stamp None] whole
  show ?thesis by (simp add: sample_stream_guardrail_def)
qed

text \<open>
  C0: A chunk boundary between a backslash and a token breaks the stream. The holdback withholds nothing of a text that ends in a
  lone backslash, so the backslash is sent; the tolerant pattern then takes it into the token that follows, the decoded text no
  longer starts with it, and the client gets an error 400 after half a response that decodes without an error as a whole.
\<close>

theorem backslash_at_chunk_boundary_fails:
  "\<exists>r out st'. run_incremental_transform_stream sample_config sample_stream_guardrail [text_chunk [backslash], text_chunk ''<PERSON_1>''] (encoded_state, 0)
      = (r, Some (HttpException 400 ''stream_transform_underflow''))
    \<and> streamed_text 0 (responses_yielded r) = [backslash]
    \<and> apply_guardrail sample_externals sample_guardrail sample_stamp (streaming_inputs [backslash # ''<PERSON_1>''] None) RESPONSE_INPUT encoded_state = (Inr out, st')
    \<and> in_texts out = Some [''Bob'']"
proof -
  let ?c1 = "text_chunk [backslash]" and ?c2 = "text_chunk ''<PERSON_1>''" and ?b = "[(''<PERSON_1>'', ''Bob'')]"
  have self: "sample_guardrail = placeholder_guardrail (Some ''pii'') name_detector True None ''en'' [] ENCODE REQUEST"
    by (simp add: sample_guardrail_def placeholder_guardrail_def)
  have st: "bucket_ready (gs_request encoded_state)" "token_bucket (gs_request encoded_state) = ?b" by (simp_all add: encoded_state_def)
  have d: "decode_text [backslash] ?b = [backslash]" "decode_text (backslash # ''<PERSON_1>'') ?b = ''Bob''" "holdback_chars [backslash] = 0" by code_simp+
  let ?item = "\<lambda>c r. emit_transform_round sample_config sample_stream_guardrail c False
    (r\<lparr>chunk_counter := chunk_counter r + 1, responses_so_far := responses_so_far r @ [c], last_chunk := Some c, saw_text_content := True\<rparr>)"
  have item: "transform_item sample_config sample_stream_guardrail (text_chunk t) r = ?item (text_chunk t) r" if "t \<noteq> []" for t r
    using that by (simp add: transform_item_def chunk_has_tool_calls_def text_chunk_def chunk_has_finish_reason_def sample_config_def
      record_finish_reasons_def chunk_carries_text_def delta_text_def)
  let ?r0 = "new_run (encoded_state, 0)"
  obtain r1 e1 where r1: "?item ?c1 ?r0 = (r1, e1)" by fastforce
  have s1: "e1 = None \<and> in_step r1 \<and> (case guardrail_state r1 of (st, n) \<Rightarrow> bucket_ready (gs_request st) \<and> token_bucket (gs_request st) = ?b)
    \<and> text_at (emitted_text_per_choice r1) 0 = decode_text (streamed_text 0 [?c1]) ?b \<and> responses_so_far r1 = [?c1]"
    using pii_stream.first_round [where i = 0 and b = ?b and s = "(encoded_state, 0)", OF _ r1 [unfolded sample_stream_guardrail_def self]] st d
    by (simp add: new_run_def in_step_def streamed_text_chunk)
  obtain r2 e2 where r2: "?item ?c2 r1 = (r2, e2)" by fastforce
  have s2: "e2 = Some (HttpException 400 ''stream_transform_underflow'') \<and> responses_yielded r2 = responses_yielded r1"
    using pii_stream.second_round [where i = 0 and b = ?b, OF _ r2 [unfolded sample_stream_guardrail_def self]] s1 d
    by (simp add: in_step_def streamed_text_chunk streamed_Cons [of _ _ "[c]" for c])
  have "run_incremental_transform_stream sample_config sample_stream_guardrail [?c1, ?c2] (encoded_state, 0) = (r2, e2)"
    using r1 r2 s1 s2 by (simp add: run_incremental_transform_stream_def item)
  moreover have "streamed_text 0 (responses_yielded r2) = [backslash]"
    using s1 s2 d by (simp add: in_step_def streamed_text_chunk)
  moreover obtain st' where "apply_guardrail sample_externals sample_guardrail sample_stamp (streaming_inputs [backslash # ''<PERSON_1>''] None) RESPONSE_INPUT encoded_state =
      (Inr (rebuild (streaming_inputs [backslash # ''<PERSON_1>''] None) (map (\<lambda>t. decode_text t ?b) [backslash # ''<PERSON_1>'']) True), st')"
    using apply_guardrail_whole [OF self st] by blast
  ultimately show ?thesis using s2 d(2) by (simp add: rebuild_def streaming_inputs_def texts_of_def)
qed

end
