(* ===== verification/Spec2Isabelle.thy ===== *)
theory Spec2Isabelle
  imports Activity_Endpoints Batch_Claims Cache_Store Endpoint_Props Guardrail_Streaming
begin

text \<open>
  Verification of the PII anonymizer.
\<close>

end
